(* ===== verification/Prelude.thy ===== *)
theory Prelude
  imports Main "HOL-Library.Word" "HOL-Library.AList" "HOL-Library.Char_ord"
    "HOL-Library.List_Lexorder" "HOL-Library.Code_Target_Nat"
begin

text \<open>
  Shared notation and lemmas: the results of fallible Go functions, the Go integers that are
  kept at their width, the time model, and the facts on lists, association lists and
  characters that several components use.

  A Go function that returns a value and an error is a function into \<open>'e + 'a\<close>, with
  \<open>Inl\<close> for the error. Go strings and byte slices are lists of \<open>char\<close>, one
  \<open>char\<close> for each byte. Instants and durations are integers of nanoseconds, the zero
  \<open>time.Time\<close> is \<open>None\<close>. A Go map is an association list with distinct keys,
  whose order is never observed except where the code iterates over the map.
\<close>

named_theorems go_string "rewriting of the string functions of the Go library"
named_theorems state_frame "fields that an operation leaves alone"

type_synonym bytes = "char list"
type_synonym u8 = "8 word"
type_synonym u16 = "16 word"
type_synonym u32 = "32 word"
type_synonym u64 = "64 word"
type_synonym instant = int
type_synonym duration = int
type_synonym ('k, 'v) gomap = "('k \<times> 'v) list"

abbreviation second :: duration where
  "second \<equiv> 1000000000"

abbreviation millisecond :: duration where
  "millisecond \<equiv> 1000000"

definition is_ok :: "'e + 'a \<Rightarrow> bool" where
  "is_ok r = (case r of Inl _ \<Rightarrow> False | Inr _ \<Rightarrow> True)"

definition bind_res :: "'e + 'a \<Rightarrow> ('a \<Rightarrow> 'e + 'b) \<Rightarrow> 'e + 'b" where
  "bind_res r f = (case r of Inl e \<Rightarrow> Inl e | Inr a \<Rightarrow> f a)"

lemma is_ok_simps [simp]: "is_ok (Inr a)" "\<not> is_ok (Inl e)"
  by (simp_all add: is_ok_def)

lemma bind_res_simps [simp]: "bind_res (Inl e) f = Inl e" "bind_res (Inr a) f = f a"
  by (simp_all add: bind_res_def)

lemma bind_res_Inr: "bind_res r f = Inr b \<longleftrightarrow> (\<exists>a. r = Inr a \<and> f a = Inr b)"
  by (cases r) auto

section \<open>Truncated division\<close>

text \<open>Go's integer division rounds towards zero.\<close>

definition go_div :: "int \<Rightarrow> int \<Rightarrow> int" where
  "go_div a b = sgn a * sgn b * (\<bar>a\<bar> div \<bar>b\<bar>)"

lemma go_div_nonneg: "0 \<le> a \<Longrightarrow> 0 < b \<Longrightarrow> go_div a b = a div b"
  by (cases "a = 0") (simp_all add: go_div_def)

section \<open>Characters as bytes\<close>

definition byte :: "char \<Rightarrow> nat" where
  "byte c = of_char c"

definition chr :: "nat \<Rightarrow> char" where
  "chr n = char_of n"

lemma byte_bound [simp]: "byte c < 256"
  by (simp add: byte_def)

lemma byte_chr [simp]: "n < 256 \<Longrightarrow> byte (chr n) = n"
  by (simp add: byte_def chr_def)

lemma chr_byte [simp]: "chr (byte c) = c"
  by (simp add: byte_def chr_def)

lemma chr_inject: "m < 256 \<Longrightarrow> n < 256 \<Longrightarrow> chr m = chr n \<longleftrightarrow> m = n"
  by (metis byte_chr)

lemma byte_inject [simp]: "byte c = byte d \<longleftrightarrow> c = d"
  by (metis chr_byte)

lemma byte_eq_iff: "n < 256 \<Longrightarrow> byte c = n \<longleftrightarrow> c = chr n"
  by (metis byte_chr chr_byte)

section \<open>Lists\<close>

lemma takeWhile_append_stop [simp]:
  "\<forall>x \<in> set xs. P x \<Longrightarrow> \<not> P y \<Longrightarrow> takeWhile P (xs @ y # ys) = xs"
  by (induction xs) auto

lemma dropWhile_append_stop [simp]:
  "\<forall>x \<in> set xs. P x \<Longrightarrow> \<not> P y \<Longrightarrow> dropWhile P (xs @ y # ys) = y # ys"
  by (induction xs) auto

lemma list_all2_map_same: "list_all2 P (map f xs) (map g xs) \<longleftrightarrow> (\<forall>x \<in> set xs. P (f x) (g x))"
  by (induction xs) auto

lemma take_append_prefix: "take (length xs) (xs @ ys) = xs"
  by simp

lemma sum_list_filter_le:
  "(\<Sum>x\<leftarrow>filter P xs. f x) \<le> (\<Sum>x\<leftarrow>xs. f x)" for f :: "'a \<Rightarrow> nat"
  by (induction xs) auto

lemma concat_map_singleton [simp]: "concat (map (\<lambda>x. [x]) xs) = xs"
  by (induction xs) auto

section \<open>Positional notation\<close>

text \<open>
  The \<open>n\<close> digits of a number to the base \<open>B\<close>, the most significant first, and
  the value of a digit list: \<open>encoding/binary\<close>'s big-endian order with \<open>B = 256\<close>,
  the 16-bit groups of an IPv6 address with \<open>B = 65536\<close>.
\<close>

fun be_digits :: "nat \<Rightarrow> nat \<Rightarrow> nat \<Rightarrow> nat list" where
  "be_digits B 0 v = []"
| "be_digits B (Suc n) v = be_digits B n (v div B) @ [v mod B]"

definition be_val :: "nat \<Rightarrow> nat list \<Rightarrow> nat" where
  "be_val B ds = foldl (\<lambda>v d. v * B + d) 0 ds"

lemma be_val_Nil [simp]: "be_val B [] = 0"
  by (simp add: be_val_def)

lemma be_val_snoc [simp]: "be_val B (ds @ [d]) = be_val B ds * B + d"
  by (simp add: be_val_def)

lemma length_be_digits [simp]: "length (be_digits B n v) = n"
  by (induction n arbitrary: v) auto

lemma be_digits_bound: "0 < B \<Longrightarrow> d \<in> set (be_digits B n v) \<Longrightarrow> d < B"
  by (induction n arbitrary: v) auto

lemma be_val_digits: "be_val B (be_digits B n v) = v mod B ^ n"
proof (induction n arbitrary: v)
  case 0
  then show ?case by simp
next
  case (Suc n)
  have "v mod B ^ Suc n = B * (v div B mod B ^ n) + v mod B"
    by (simp add: mod_mult2_eq)
  then show ?case by (simp add: Suc.IH mult.commute)
qed

lemma be_digits_val: "\<forall>d \<in> set ds. d < B \<Longrightarrow> be_digits B (length ds) (be_val B ds) = ds"
  by (induction ds rule: rev_induct) auto

lemma be_val_bound: "\<forall>d \<in> set ds. d < B \<Longrightarrow> be_val B ds < B ^ length ds"
proof (induction ds rule: rev_induct)
  case Nil
  then show ?case by simp
next
  case (snoc d ds)
  then have "be_val B ds + 1 \<le> B ^ length ds" and "d < B" by auto
  then have "(be_val B ds + 1) * B \<le> B ^ length ds * B" by (intro mult_le_mono1)
  with \<open>d < B\<close> show ?case by (simp add: mult.commute)
qed

section \<open>Go maps\<close>

definition map_put :: "'k \<Rightarrow> 'v \<Rightarrow> ('k, 'v) gomap \<Rightarrow> ('k, 'v) gomap" where
  "map_put k v m = AList.update k v m"

definition map_del :: "'k \<Rightarrow> ('k, 'v) gomap \<Rightarrow> ('k, 'v) gomap" where
  "map_del k m = AList.delete k m"

definition map_wf :: "('k, 'v) gomap \<Rightarrow> bool" where
  "map_wf m = distinct (map fst m)"

lemma map_of_put [simp]: "map_of (map_put k v m) = (map_of m)(k \<mapsto> v)"
  by (simp add: map_put_def update_conv')

lemma map_of_del [simp]: "map_of (map_del k m) = (map_of m)(k := None)"
  by (simp add: map_del_def delete_conv')

lemma map_wf_Nil [simp]: "map_wf []"
  by (simp add: map_wf_def)

lemma map_wf_put [simp]: "map_wf m \<Longrightarrow> map_wf (map_put k v m)"
  by (simp add: map_wf_def map_put_def distinct_update)

lemma map_wf_del [simp]: "map_wf m \<Longrightarrow> map_wf (map_del k m)"
  by (simp add: map_wf_def map_del_def distinct_delete)

lemma map_wf_filter [simp]: "map_wf m \<Longrightarrow> map_wf (filter P m)"
  by (simp add: map_wf_def distinct_map_filter)

lemma length_map_put:
  "length (map_put k v m) = (if k \<in> fst ` set m then length m else Suc (length m))"
  by (induction m) (auto simp: map_put_def)

lemma length_map_del_le: "length (map_del k m) \<le> length m"
  by (simp add: map_del_def length_delete_le)

lemma length_map_del:
  "map_wf m \<Longrightarrow> length (map_del k m) = (if k \<in> fst ` set m then length m - 1 else length m)"
proof (induction m)
  case Nil
  then show ?case by (simp add: map_del_def)
next
  case (Cons p m)
  then show ?case
    by (cases p; cases m) (auto simp: map_del_def map_wf_def delete_id simp flip: length_greater_0_conv)
qed

lemma set_map_del [simp]: "set (map_del k m) = {p \<in> set m. fst p \<noteq> k}"
  unfolding map_del_def by (induction m) auto

lemma map_of_wf_in: "map_wf s \<Longrightarrow> map_of s k = Some v \<longleftrightarrow> (k, v) \<in> set s"
  by (simp add: map_wf_def)

lemma set_map_put:
  fixes m :: "('a, 'b) gomap"
  assumes "map_wf m"
  shows "set (map_put k v m) = insert (k, v) {p \<in> set m. fst p \<noteq> k}"
proof (rule set_eqI)
  fix p :: "'a \<times> 'b"
  obtain a b where p: "p = (a, b)" by (cases p)
  have "p \<in> set (map_put k v m) \<longleftrightarrow> map_of (map_put k v m) a = Some b"
    using map_of_wf_in [OF map_wf_put [OF assms, of k v], of a b] by (simp only: p)
  also have "\<dots> \<longleftrightarrow> (a = k \<and> b = v) \<or> (a \<noteq> k \<and> map_of m a = Some b)" by auto
  also have "\<dots> \<longleftrightarrow> p \<in> insert (k, v) {p \<in> set m. fst p \<noteq> k}"
    using map_of_wf_in [OF assms, of a b] by (auto simp: p)
  finally show "p \<in> set (map_put k v m) \<longleftrightarrow> p \<in> insert (k, v) {p \<in> set m. fst p \<noteq> k}" .
qed

lemma map_put_new: "k \<notin> fst ` set m \<Longrightarrow> map_put k v m = m @ [(k, v)]"
  unfolding map_put_def by (induction m) auto

lemma dom_gomap: "dom (map_of m) = fst ` set m"
  by (rule dom_map_of_conv_image_fst)

section \<open>Invariants\<close>

text \<open>The contract of a transition system with an invariant: what every step keeps, every run keeps.\<close>

locale step_invariant =
  fixes step :: "'s \<Rightarrow> 's \<Rightarrow> bool"
    and inv :: "'s \<Rightarrow> bool"
  assumes step_inv: "step s s' \<Longrightarrow> inv s \<Longrightarrow> inv s'"
begin

lemma steps_inv: "step\<^sup>*\<^sup>* s s' \<Longrightarrow> inv s \<Longrightarrow> inv s'"
  by (induction rule: rtranclp_induct) (auto intro: step_inv)

end

text \<open>The contract of a state with operations: an invariant that every operation keeps. Any history of operations is a run
  of such a system.\<close>

locale op_invariant =
  fixes apply_op :: "'op \<Rightarrow> 's \<Rightarrow> 's"
    and ok :: "'op \<Rightarrow> bool"
    and inv :: "'s \<Rightarrow> bool"
  assumes op_inv: "ok op \<Longrightarrow> inv s \<Longrightarrow> inv (apply_op op s)"
begin

lemma fold_run: "list_all ok ops \<Longrightarrow> (\<lambda>s s'. \<exists>op. ok op \<and> s' = apply_op op s)\<^sup>*\<^sup>* s (fold apply_op ops s)"
proof (induction ops arbitrary: s)
  case (Cons op ops)
  then have "(\<lambda>s s'. \<exists>op. ok op \<and> s' = apply_op op s) s (apply_op op s)" by auto
  with Cons show ?case by (auto intro: converse_rtranclp_into_rtranclp)
qed simp

end

sublocale op_invariant \<subseteq> history: step_invariant "\<lambda>s s'. \<exists>op. ok op \<and> s' = apply_op op s" inv
  by unfold_locales (auto intro: op_inv)

context op_invariant
begin

lemma fold_inv: "list_all ok ops \<Longrightarrow> inv s \<Longrightarrow> inv (fold apply_op ops s)"
  using history.steps_inv [OF fold_run] .

lemma foldl_inv: "list_all ok ops \<Longrightarrow> inv s \<Longrightarrow> inv (foldl (\<lambda>s op. apply_op op s) s ops)"
  using fold_inv by (simp add: foldl_conv_fold)

end

end
