(* ===== verification/NetIP.thy ===== *)
theory NetIP
  imports GoStrings
begin

text \<open>
  What the program uses of Go's package \<open>net/netip\<close> (and of \<open>net.ParseIP\<close>,
  which is built on it): parsing and printing of IPv4 and IPv6 addresses, zones, prefixes,
  masking and containment. The parsers follow the library's byte loops, the printer its
  RFC 5952 form. The main result is that parsing inverts printing, for addresses with and
  without zone and for prefixes.
\<close>

section \<open>Addresses and prefixes\<close>

text \<open>\<open>netip.Addr\<close>: the empty zone is the absence of a zone. \<open>Is4In6\<close> addresses are
  \<open>V6\<close>, as in the library.\<close>

datatype addr = V4 u32 | V6 "128 word" string

record prefix =
  pip :: addr
  pbits :: nat

definition is4 :: "addr \<Rightarrow> bool" where
  "is4 a = (case a of V4 _ \<Rightarrow> True | V6 _ _ \<Rightarrow> False)"

definition is6 :: "addr \<Rightarrow> bool" where
  "is6 a = (case a of V4 _ \<Rightarrow> False | V6 _ _ \<Rightarrow> True)"

definition bit_len :: "addr \<Rightarrow> nat" where
  "bit_len a = (if is4 a then 32 else 128)"

definition zone_of :: "addr \<Rightarrow> string" where
  "zone_of a = (case a of V4 _ \<Rightarrow> '''' | V6 _ z \<Rightarrow> z)"

definition without_zone :: "addr \<Rightarrow> addr" where
  "without_zone a = (case a of V4 w \<Rightarrow> V4 w | V6 w _ \<Rightarrow> V6 w '''')"

text \<open>\<open>netip.PrefixFrom\<close> drops the zone.\<close>

definition prefix_from :: "addr \<Rightarrow> nat \<Rightarrow> prefix" where
  "prefix_from a n = \<lparr>pip = without_zone a, pbits = n\<rparr>"

section \<open>Parsing\<close>

text \<open>\<open>parseIPv4Fields\<close>: the finished fields, the value and digit count of the current one.\<close>

fun parse_v4_fields :: "nat list \<Rightarrow> nat \<Rightarrow> nat \<Rightarrow> string \<Rightarrow> nat list option" where
  "parse_v4_fields fs val dl [] = (if length fs < 3 then None else Some (fs @ [val]))"
| "parse_v4_fields fs val dl (c # s) =
     (if is_digit c then
        if dl = 1 \<and> val = 0 then None
        else if 255 < val * 10 + digit_val c then None
        else parse_v4_fields fs (val * 10 + digit_val c) (Suc dl) s
      else if c = CHR ''.'' then
        if dl = 0 \<or> s = [] then None
        else if length fs = 3 then None
        else parse_v4_fields (fs @ [val]) 0 0 s
      else None)"

definition parse_ipv4 :: "string \<Rightarrow> addr option" where
  "parse_ipv4 s = map_option (\<lambda>fs. V4 (word_of_nat (be_val 256 fs))) (parse_v4_fields [] 0 0 s)"

definition hex_val :: "char \<Rightarrow> nat option" where
  "hex_val c =
     (if is_digit c then Some (byte c - 48)
      else if 97 \<le> byte c \<and> byte c \<le> 102 then Some (byte c - 87)
      else if 65 \<le> byte c \<and> byte c \<le> 70 then Some (byte c - 55)
      else None)"

text \<open>One group of hexadecimal digits: at most four of them.\<close>

fun read_hex :: "nat \<Rightarrow> nat \<Rightarrow> string \<Rightarrow> (nat \<times> nat \<times> string) option" where
  "read_hex off acc [] = Some (acc, off, [])"
| "read_hex off acc (c # s) =
     (case hex_val c of
        None \<Rightarrow> Some (acc, off, c # s)
      | Some v \<Rightarrow>
          if 3 < off then None
          else if 65535 < acc * 16 + v then None
          else read_hex (Suc off) (acc * 16 + v) s)"

text \<open>The loop of \<open>parseIPv6\<close>: the groups read so far, the position of the ellipsis among
  them, the rest of the text.\<close>

function parse_v6_loop ::
  "nat list \<Rightarrow> nat option \<Rightarrow> string \<Rightarrow> (nat list \<times> nat option \<times> string) option" where
  "parse_v6_loop gs el s =
     (if 8 \<le> length gs then Some (gs, el, s)
      else case read_hex 0 0 s of
        None \<Rightarrow> None
      | Some (acc, off, r) \<Rightarrow>
          if off = 0 then None
          else case r of
            [] \<Rightarrow> Some (gs @ [acc], el, [])
          | c # s1 \<Rightarrow>
              if c = CHR ''.'' then
                if el = None \<and> length gs \<noteq> 6 then None
                else if 8 < length gs + 2 then None
                else (case parse_v4_fields [] 0 0 s of
                        None \<Rightarrow> None
                      | Some fs \<Rightarrow>
                          Some (gs @ [be_val 256 (take 2 fs), be_val 256 (drop 2 fs)], el, []))
              else if c \<noteq> CHR '':'' then None
              else case s1 of
                [] \<Rightarrow> None
              | d # s2 \<Rightarrow>
                  if d = CHR '':'' then
                    if el \<noteq> None then None
                    else if s2 = [] then Some (gs @ [acc], Some (Suc (length gs)), [])
                    else parse_v6_loop (gs @ [acc]) (Some (Suc (length gs))) s2
                  else parse_v6_loop (gs @ [acc]) el s1)"
  by pat_completeness auto
termination
  by (relation "measure (\<lambda>(gs, el, s). 8 - length gs)") auto

declare parse_v6_loop.simps [simp del]

text \<open>The end of \<open>parseIPv6\<close>: no trailing text, the ellipsis stands for at least one group.\<close>

definition finish_v6 :: "nat list \<times> nat option \<times> string \<Rightarrow> nat list option" where
  "finish_v6 x =
     (case x of (gs, el, s) \<Rightarrow>
        if s \<noteq> [] then None
        else if length gs < 8 then
          (case el of
             None \<Rightarrow> None
           | Some e \<Rightarrow> Some (take e gs @ replicate (8 - length gs) 0 @ drop e gs))
        else if el \<noteq> None then None
        else Some gs)"

definition parse_v6_groups :: "string \<Rightarrow> nat list option" where
  "parse_v6_groups s =
     (if has_prefix s ''::'' then
        if drop 2 s = [] then Some (replicate 8 0)
        else Option.bind (parse_v6_loop [] (Some 0) (drop 2 s)) finish_v6
      else Option.bind (parse_v6_loop [] None s) finish_v6)"

definition parse_ipv6 :: "string \<Rightarrow> addr option" where
  "parse_ipv6 s =
     (case cut_byte (CHR ''%'') s of
        (t, zone, found) \<Rightarrow>
          if found \<and> zone = [] then None
          else map_option (\<lambda>gs. V6 (word_of_nat (be_val 65536 gs)) zone) (parse_v6_groups t))"

text \<open>\<open>netip.ParseAddr\<close>: the first of the three special bytes decides.\<close>

fun addr_kind :: "string \<Rightarrow> char option" where
  "addr_kind [] = None"
| "addr_kind (c # s) =
     (if c = CHR ''.'' \<or> c = CHR '':'' \<or> c = CHR ''%'' then Some c else addr_kind s)"

definition parse_addr :: "string \<Rightarrow> addr option" where
  "parse_addr s =
     (case addr_kind s of
        None \<Rightarrow> None
      | Some c \<Rightarrow>
          if c = CHR ''.'' then parse_ipv4 s
          else if c = CHR '':'' then parse_ipv6 s
          else None)"

text \<open>\<open>net.ParseIP\<close> accepts what \<open>ParseAddr\<close> accepts, except zones.\<close>

definition parse_ip :: "string \<Rightarrow> addr option" where
  "parse_ip s =
     (case parse_addr s of
        None \<Rightarrow> None
      | Some a \<Rightarrow> if zone_of a \<noteq> [] then None else Some a)"

text \<open>\<open>netip.ParsePrefix\<close>\<close>

definition parse_prefix :: "string \<Rightarrow> prefix option" where
  "parse_prefix s =
     (case last_index_byte (CHR ''/'') s of
        None \<Rightarrow> None
      | Some i \<Rightarrow>
          (case parse_addr (take i s) of
             None \<Rightarrow> None
           | Some a \<Rightarrow>
               let b = drop (Suc i) s in
               if zone_of a \<noteq> [] then None
               else if 1 < length b \<and> \<not> (49 \<le> byte (hd b) \<and> byte (hd b) \<le> 57) then None
               else (case atoi b of
                       None \<Rightarrow> None
                     | Some n \<Rightarrow>
                         if n < 0 \<or> int (bit_len a) < n then None
                         else Some (prefix_from a (nat n)))))"

section \<open>Printing\<close>

definition hex_char :: "nat \<Rightarrow> char" where
  "hex_char d = (if d < 10 then chr (48 + d) else chr (87 + d))"

fun hex_str :: "nat \<Rightarrow> string" where
  "hex_str n = (if n < 16 then [hex_char n] else hex_str (n div 16) @ [hex_char (n mod 16)])"

declare hex_str.simps [simp del]

fun join :: "string \<Rightarrow> string list \<Rightarrow> string" where
  "join sep [] = []"
| "join sep [x] = x"
| "join sep (x # y # xs) = x @ sep @ join sep (y # xs)"

definition v4_bytes :: "u32 \<Rightarrow> nat list" where
  "v4_bytes w = be_digits 256 4 (unat w)"

definition v6_groups :: "128 word \<Rightarrow> nat list" where
  "v6_groups w = be_digits 65536 8 (unat w)"

definition show_v4 :: "u32 \<Rightarrow> string" where
  "show_v4 w = join ''.'' (map itoa (v4_bytes w))"

text \<open>The run of at least two zero groups that \<open>appendTo6\<close> elides: the first longest one,
  as its start and length; length 0 for none.\<close>

definition zero_run :: "nat list \<Rightarrow> nat \<times> nat" where
  "zero_run gs =
     foldl (\<lambda>(st, ln) i.
        let l = length (takeWhile (\<lambda>g. g = 0) (drop i gs))
        in if 2 \<le> l \<and> ln < l then (i, l) else (st, ln)) (255, 0) [0..<8]"

definition show_v6_groups :: "nat list \<Rightarrow> string" where
  "show_v6_groups gs =
     (case zero_run gs of (st, ln) \<Rightarrow>
        if ln = 0 then join '':'' (map hex_str gs)
        else join '':'' (map hex_str (take st gs)) @ ''::'' @
             join '':'' (map hex_str (drop (st + ln) gs)))"

definition is4in6 :: "128 word \<Rightarrow> bool" where
  "is4in6 w = (take 6 (v6_groups w) = [0, 0, 0, 0, 0, 65535])"

definition low4 :: "128 word \<Rightarrow> u32" where
  "low4 w = ucast w"

definition zone_suffix :: "string \<Rightarrow> string" where
  "zone_suffix z = (if z = [] then [] else CHR ''%'' # z)"

definition show_addr :: "addr \<Rightarrow> string" where
  "show_addr a =
     (case a of
        V4 w \<Rightarrow> show_v4 w
      | V6 w z \<Rightarrow>
          (if is4in6 w then ''::ffff:'' @ show_v4 (low4 w) else show_v6_groups (v6_groups w))
          @ zone_suffix z)"

definition show_prefix :: "prefix \<Rightarrow> string" where
  "show_prefix p = show_addr (pip p) @ ''/'' @ itoa (pbits p)"

text \<open>\<open>net.IP.String\<close>: an IPv4-mapped address prints as IPv4.\<close>

definition show_ip :: "addr \<Rightarrow> string" where
  "show_ip a =
     (case a of
        V4 w \<Rightarrow> show_v4 w
      | V6 w z \<Rightarrow> if is4in6 w then show_v4 (low4 w) else show_v6_groups (v6_groups w))"

section \<open>Parsing inverts printing: IPv4\<close>

lemma itoa_octet:
  "n < 10 \<Longrightarrow> itoa n = [digit_char n]"
  "10 \<le> n \<Longrightarrow> n < 100 \<Longrightarrow> itoa n = [digit_char (n div 10), digit_char (n mod 10)]"
  "100 \<le> n \<Longrightarrow> n < 1000 \<Longrightarrow>
     itoa n = [digit_char (n div 100), digit_char (n div 10 mod 10), digit_char (n mod 10)]"
proof -
  show one: "n < 10 \<Longrightarrow> itoa n = [digit_char n]" for n
    by (subst itoa.simps) simp
  show two: "10 \<le> n \<Longrightarrow> n < 100 \<Longrightarrow> itoa n = [digit_char (n div 10), digit_char (n mod 10)]" for n
    using one [of "n div 10"] by (subst itoa.simps) auto
  show "100 \<le> n \<Longrightarrow> n < 1000 \<Longrightarrow>
     itoa n = [digit_char (n div 100), digit_char (n div 10 mod 10), digit_char (n mod 10)]"
    using two [of "n div 10"] by (subst itoa.simps) (auto simp: div_mult2_eq [symmetric])
qed

lemma parse_v4_octet:
  assumes "b < 256"
  shows "parse_v4_fields fs 0 0 (itoa b @ s) = parse_v4_fields fs b (length (itoa b)) s"
proof -
  consider "b < 10" | "10 \<le> b" "b < 100" | "100 \<le> b" by linarith
  then show ?thesis
  proof cases
    case 2
    then have "b div 10 \<le> 9" and "b div 10 \<noteq> 0" by auto
    with 2 show ?thesis by (simp add: itoa_octet)
  next
    case 3
    have "b div 100 * 10 + b div 10 mod 10 = b div 10"
      using div_mult_mod_eq [of "b div 10" 10] by (simp add: div_mult2_eq [symmetric])
    moreover have "b div 10 \<le> 25" and "b div 100 \<noteq> 0" using 3 assms by auto
    ultimately show ?thesis using 3 assms by (simp add: itoa_octet)
  qed (use assms in \<open>simp_all add: itoa_octet\<close>)
qed

lemma parse_v4_dot:
  "0 < dl \<Longrightarrow> s \<noteq> [] \<Longrightarrow> length fs < 3 \<Longrightarrow>
   parse_v4_fields fs v dl (CHR ''.'' # s) = parse_v4_fields (fs @ [v]) 0 0 s"
  by (simp add: is_digit_def byte_def)

lemma parse_v4_last: "parse_v4_fields [a, b, c] v dl [] = Some [a, b, c, v]"
  by simp

lemma parse_v4_join:
  assumes "a < 256" "b < 256" "c < 256" "d < 256"
  shows "parse_v4_fields [] 0 0 (join ''.'' (map itoa [a, b, c, d])) = Some [a, b, c, d]"
  using assms parse_v4_octet [of d "[a, b, c]" "[]"]
  by (simp add: parse_v4_octet parse_v4_dot parse_v4_last del: parse_v4_fields.simps)

lemma be_digits_4:
  "be_digits B 4 v = [v div B div B div B mod B, v div B div B mod B, v div B mod B, v mod B]"
  by (simp add: numeral_eq_Suc)

lemma v4_bytes_parse:
  "parse_v4_fields [] 0 0 (show_v4 w) = Some (v4_bytes w)"
  unfolding show_v4_def v4_bytes_def be_digits_4 by (rule parse_v4_join) simp_all

lemma v4_bytes_val: "word_of_nat (be_val 256 (v4_bytes w)) = w"
proof -
  have "unat w < 2 ^ 32" using unsigned_less [of w, where ?'a = nat] by simp
  then show ?thesis by (simp add: v4_bytes_def be_val_digits)
qed

lemma show_v4_set: "c \<in> set (show_v4 w) \<Longrightarrow> is_digit c \<or> c = CHR ''.''"
  by (auto simp: show_v4_def v4_bytes_def be_digits_4 dest: itoa_digits_set)

lemma addr_kind_skip:
  "\<forall>c \<in> set a. c \<noteq> CHR ''.'' \<and> c \<noteq> CHR '':'' \<and> c \<noteq> CHR ''%'' \<Longrightarrow> addr_kind (a @ s) = addr_kind s"
  by (induction a) auto

lemma digit_not_special:
  "is_digit c \<Longrightarrow> c \<noteq> CHR ''.'' \<and> c \<noteq> CHR '':'' \<and> c \<noteq> CHR ''%'' \<and> c \<noteq> CHR ''/''"
  by (auto simp: is_digit_def byte_def)

lemma addr_kind_v4: "addr_kind (show_v4 w @ s) = Some (CHR ''.'')"
proof -
  have "addr_kind (itoa n @ t) = addr_kind t" for n t
    using addr_kind_skip [of "itoa n" t] itoa_digits_set [of _ n] digit_not_special by blast
  then show ?thesis by (simp add: show_v4_def v4_bytes_def be_digits_4)
qed

lemma parse_show_v4: "parse_addr (show_v4 w) = Some (V4 w)"
  using addr_kind_v4 [of w "[]"]
  by (simp add: parse_addr_def parse_ipv4_def v4_bytes_parse v4_bytes_val)

section \<open>Parsing inverts printing: IPv6\<close>

lemma hex_val_hex_char [simp]: "d < 16 \<Longrightarrow> hex_val (hex_char d) = Some d"
  by (auto simp: hex_val_def hex_char_def is_digit_def)

lemma hex_val_special:
  "hex_val (CHR '':'') = None" "hex_val (CHR ''.'') = None" "hex_val (CHR ''%'') = None"
  "hex_val (CHR ''/'') = None"
  by (simp_all add: hex_val_def is_digit_def byte_def)

lemma hex_str_small:
  "n < 16 \<Longrightarrow> hex_str n = [hex_char n]"
  "16 \<le> n \<Longrightarrow> n < 256 \<Longrightarrow> hex_str n = [hex_char (n div 16), hex_char (n mod 16)]"
  "256 \<le> n \<Longrightarrow> n < 4096 \<Longrightarrow>
     hex_str n = [hex_char (n div 256), hex_char (n div 16 mod 16), hex_char (n mod 16)]"
  "4096 \<le> n \<Longrightarrow> n < 65536 \<Longrightarrow>
     hex_str n = [hex_char (n div 4096), hex_char (n div 256 mod 16), hex_char (n div 16 mod 16),
                  hex_char (n mod 16)]"
proof -
  show one: "n < 16 \<Longrightarrow> hex_str n = [hex_char n]" for n
    by (subst hex_str.simps) simp
  show two: "16 \<le> n \<Longrightarrow> n < 256 \<Longrightarrow> hex_str n = [hex_char (n div 16), hex_char (n mod 16)]" for n
    using one [of "n div 16"] by (subst hex_str.simps) auto
  show three: "256 \<le> n \<Longrightarrow> n < 4096 \<Longrightarrow>
     hex_str n = [hex_char (n div 256), hex_char (n div 16 mod 16), hex_char (n mod 16)]" for n
    using two [of "n div 16"] by (subst hex_str.simps) (auto simp: div_mult2_eq [symmetric])
  show "4096 \<le> n \<Longrightarrow> n < 65536 \<Longrightarrow>
     hex_str n = [hex_char (n div 4096), hex_char (n div 256 mod 16), hex_char (n div 16 mod 16),
                  hex_char (n mod 16)]"
    using three [of "n div 16"] by (subst hex_str.simps) (auto simp: div_mult2_eq [symmetric])
qed

lemma hex_str_not_Nil [simp]: "hex_str n \<noteq> []"
  by (subst hex_str.simps) simp

lemma hex_str_hex: "c \<in> set (hex_str n) \<Longrightarrow> hex_val c \<noteq> None"
proof (induction n arbitrary: c rule: hex_str.induct)
  case (1 n)
  then show ?case by (subst (asm) hex_str.simps) (auto split: if_splits)
qed

lemma hex_char_not_special:
  "hex_val c \<noteq> None \<Longrightarrow> c \<noteq> CHR ''.'' \<and> c \<noteq> CHR '':'' \<and> c \<noteq> CHR ''%'' \<and> c \<noteq> CHR ''/''"
  using hex_val_special by auto

definition hex_stop :: "string \<Rightarrow> bool" where
  "hex_stop s = (s = [] \<or> hex_val (hd s) = None)"

lemma read_hex_stop: "hex_stop s \<Longrightarrow> read_hex off acc s = Some (acc, off, s)"
  by (cases s) (auto simp: hex_stop_def)

lemma nat_hex_digits:
  "(n::nat) div 256 * 16 + n div 16 mod 16 = n div 16"
  "(n::nat) div 4096 * 16 + n div 256 mod 16 = n div 256"
  using div_mult_mod_eq [of "n div 16" 16] div_mult_mod_eq [of "n div 256" 16]
  by (simp_all add: div_mult2_eq [symmetric])

lemma read_hex_str:
  assumes "n < 65536" and "hex_stop s"
  shows "read_hex 0 0 (hex_str n @ s) = Some (n, length (hex_str n), s)"
proof -
  consider "n < 16" | "16 \<le> n" "n < 256" | "256 \<le> n" "n < 4096" | "4096 \<le> n" by linarith
  then show ?thesis
    using assms by cases (auto simp: hex_str_small nat_hex_digits read_hex_stop less_mult_imp_div_less)
qed

lemma join_Cons: "xs \<noteq> [] \<Longrightarrow> join sep (x # xs) = x @ sep @ join sep xs"
  by (cases xs) auto

lemma hex_stop_simps [simp]: "hex_stop []" "hex_stop (CHR '':'' # s)" "hex_stop (CHR ''.'' # s)"
  by (simp_all add: hex_stop_def hex_val_special)

lemma join_hex_head:
  assumes "hs \<noteq> []"
  shows "\<exists>c r. join '':'' (map hex_str hs) = c # r \<and> c \<noteq> CHR '':''"
proof -
  obtain h t where hs: "hs = h # t" using assms by (cases hs) auto
  obtain c r where cr: "hex_str h = c # r" by (cases "hex_str h") auto
  then have "hex_val c \<noteq> None" using hex_str_hex [of c h] by simp
  then have "c \<noteq> CHR '':''" using hex_char_not_special by blast
  with hs cr show ?thesis by (cases t) auto
qed

lemma loop_groups:
  assumes "hs \<noteq> []" "\<forall>h \<in> set hs. h < 65536" "length gs + length hs \<le> 8"
  shows "parse_v6_loop gs el (join '':'' (map hex_str hs)) = Some (gs @ hs, el, [])"
  using assms
proof (induction hs arbitrary: gs)
  case Nil
  then show ?case by simp
next
  case (Cons h hs)
  show ?case
  proof (cases "hs = []")
    case True
    with Cons.prems read_hex_str [of h "[]"] show ?thesis
      by (subst parse_v6_loop.simps) simp
  next
    case False
    obtain c r where cr: "join '':'' (map hex_str hs) = c # r" "c \<noteq> CHR '':''"
      using join_hex_head [OF False] by blast
    have "parse_v6_loop gs el (join '':'' (map hex_str (h # hs)))
        = parse_v6_loop (gs @ [h]) el (join '':'' (map hex_str hs))"
      using Cons.prems read_hex_str [of h "CHR '':'' # c # r"] False cr
      by (subst parse_v6_loop.simps) (simp add: join_Cons)
    with Cons.IH [of "gs @ [h]"] Cons.prems False show ?thesis by simp
  qed
qed

lemma loop_ellipsis:
  assumes "hs \<noteq> []" "\<forall>h \<in> set hs. h < 65536" "length gs + length hs \<le> 8"
  shows "parse_v6_loop gs None (join '':'' (map hex_str hs) @ ''::'' @ post) =
    (if post = [] then Some (gs @ hs, Some (length (gs @ hs)), [])
     else parse_v6_loop (gs @ hs) (Some (length (gs @ hs))) post)"
  using assms
proof (induction hs arbitrary: gs)
  case Nil
  then show ?case by simp
next
  case (Cons h hs)
  show ?case
  proof (cases "hs = []")
    case True
    with Cons.prems read_hex_str [of h "CHR '':'' # CHR '':'' # post"] show ?thesis
      by (subst parse_v6_loop.simps) simp
  next
    case False
    obtain c r where cr: "join '':'' (map hex_str hs) = c # r" "c \<noteq> CHR '':''"
      using join_hex_head [OF False] by blast
    have "parse_v6_loop gs None (join '':'' (map hex_str (h # hs)) @ ''::'' @ post)
        = parse_v6_loop (gs @ [h]) None (join '':'' (map hex_str hs) @ ''::'' @ post)"
      using Cons.prems read_hex_str [of h "CHR '':'' # c # r @ ''::'' @ post"] False cr
      by (subst parse_v6_loop.simps) (simp add: join_Cons)
    with Cons.IH [of "gs @ [h]"] Cons.prems False show ?thesis by simp
  qed
qed

definition run_ok :: "nat list \<Rightarrow> nat \<times> nat \<Rightarrow> bool" where
  "run_ok gs r =
     (case r of (st, ln) \<Rightarrow>
        ln = 0 \<or> (2 \<le> ln \<and> st + ln \<le> length gs \<and> take ln (drop st gs) = replicate ln 0))"

lemma takeWhile_zero_replicate:
  "takeWhile (\<lambda>g. g = 0) xs = replicate (length (takeWhile (\<lambda>g. g = 0) xs)) (0::nat)"
  by (rule replicate_eqI) (auto dest: set_takeWhileD)

lemma run_ok_step:
  assumes "run_ok gs r" and "i \<le> length gs" and "l = length (takeWhile (\<lambda>g. g = 0) (drop i gs))"
    and "2 \<le> l"
  shows "run_ok gs (i, l)"
proof -
  have "l \<le> length gs - i" using assms(3) length_takeWhile_le [of _ "drop i gs"] by simp
  moreover have "take l (drop i gs) = replicate l 0"
    using assms(3) takeWhile_zero_replicate [of "drop i gs"]
      takeWhile_eq_take [of "\<lambda>g. g = 0" "drop i gs"] by simp
  ultimately show ?thesis using assms(2,4) by (simp add: run_ok_def)
qed

lemma run_ok_foldl:
  assumes "\<forall>i \<in> set is. i \<le> length gs" and "run_ok gs r"
  shows "run_ok gs (foldl (\<lambda>(st, ln) i.
        let l = length (takeWhile (\<lambda>g. g = 0) (drop i gs))
        in if 2 \<le> l \<and> ln < l then (i, l) else (st, ln)) r is)"
  using assms
proof (induction "is" arbitrary: r)
  case Nil
  then show ?case by simp
next
  case (Cons i "is")
  then show ?case
    using run_ok_step [of gs r i] by (cases r) (simp add: Let_def)
qed

lemma zero_run_ok: "length gs = 8 \<Longrightarrow> run_ok gs (zero_run gs)"
  unfolding zero_run_def by (rule run_ok_foldl) (auto simp: run_ok_def)

lemma split_run:
  assumes "take ln (drop st gs) = replicate ln 0"
  shows "gs = take st gs @ replicate ln 0 @ drop (st + ln) gs"
  by (metis append_take_drop_id assms drop_drop add.commute)

lemma not_ellipsis_prefix:
  assumes "hs \<noteq> []" shows "\<not> has_prefix (join '':'' (map hex_str hs) @ s) ''::''"
  using join_hex_head [OF assms] by (auto simp: has_prefix_def)

lemma parse_show_groups:
  assumes len: "length gs = 8" and small: "\<forall>g \<in> set gs. g < 65536"
  shows "parse_v6_groups (show_v6_groups gs) = Some gs"
proof -
  obtain st ln where r: "zero_run gs = (st, ln)" by fastforce
  have ok: "run_ok gs (st, ln)" using zero_run_ok [OF len] r by simp
  show ?thesis
  proof (cases "ln = 0")
    case True
    have "gs \<noteq> []" using len by auto
    then show ?thesis
      using loop_groups [of gs "[]" None] not_ellipsis_prefix [of gs "[]"] len small
      by (simp add: show_v6_groups_def r True parse_v6_groups_def finish_v6_def)
  next
    case False
    define pre where "pre = take st gs"
    define post where "post = drop (st + ln) gs"
    from ok False have ln: "2 \<le> ln" "st + ln \<le> 8" and zeros: "take ln (drop st gs) = replicate ln 0"
      by (simp_all add: run_ok_def len)
    have gs: "gs = pre @ replicate ln 0 @ post"
      unfolding pre_def post_def using split_run [OF zeros] .
    have lens: "length pre = st" "length post = 8 - (st + ln)"
      using ln len by (simp_all add: pre_def post_def)
    have small': "\<forall>h \<in> set pre. h < 65536" "\<forall>h \<in> set post. h < 65536"
      using small by (auto simp: gs)
    have shown: "show_v6_groups gs
        = join '':'' (map hex_str pre) @ ''::'' @ join '':'' (map hex_str post)"
      using False by (simp add: show_v6_groups_def r pre_def post_def)
    have post_loop: "post \<noteq> [] \<Longrightarrow>
      parse_v6_loop pre el (join '':'' (map hex_str post)) = Some (pre @ post, el, [])" for el
      using loop_groups [of post pre el] small' lens ln by simp
    have post_text: "join '':'' (map hex_str post) = [] \<longleftrightarrow> post = []"
      using join_hex_head [of post] by (cases "post = []") auto
    show ?thesis
    proof (cases "pre = []")
      case True
      with post_loop [of "Some 0"] post_text lens gs ln show ?thesis
        unfolding parse_v6_groups_def shown
        by (auto simp: has_prefix_def finish_v6_def)
    next
      case False
      with loop_ellipsis [of pre "[]" "join '':'' (map hex_str post)"]
        not_ellipsis_prefix [OF False] small' lens ln post_loop post_text gs
      show ?thesis
        unfolding parse_v6_groups_def shown
        by (auto simp: finish_v6_def)
    qed
  qed
qed

lemma be_digits_8: "be_digits B 8 v = be_digits B 6 (v div B div B) @ [v div B mod B, v mod B]"
  by (simp add: numeral_eq_Suc)

lemma octet_pair: "v div 256 mod 256 * 256 + v mod 256 = v mod (65536::nat)"
  using mod_mult2_eq [of v 256 256] by simp

lemma low4_groups:
  "[be_val 256 (take 2 (v4_bytes (low4 w))), be_val 256 (drop 2 (v4_bytes (low4 w)))]
   = drop 6 (v6_groups w)"
proof -
  have u: "unat (low4 w) = unat w mod 2 ^ 32"
    by (simp add: low4_def unsigned_ucast_eq take_bit_eq_mod)
  have hi: "unat w mod 2 ^ 32 div 256 div 256 = unat w div 65536 mod 65536"
    using div_exp_mod_exp_eq [of "unat w" 16 16] div_mult2_eq [of "unat w mod 2 ^ 32" 256 256]
    by simp
  have "be_val 256 (take 2 (v4_bytes (low4 w))) = unat w div 65536 mod 65536"
    using octet_pair [of "unat w mod 2 ^ 32 div 256 div 256"] hi
    by (simp add: v4_bytes_def be_digits_4 u be_val_def)
  moreover have "be_val 256 (drop 2 (v4_bytes (low4 w))) = unat w mod 65536"
    using octet_pair [of "unat w mod 2 ^ 32"]
    by (simp add: v4_bytes_def be_digits_4 u be_val_def mod_mod_cancel)
  ultimately show ?thesis by (simp add: v6_groups_def be_digits_8)
qed

lemma hex_val_digit: "d < 10 \<Longrightarrow> hex_val (digit_char d) = Some d"
  by (simp add: hex_val_def digit_char_def is_digit_def)

lemma read_hex_octet:
  assumes "a < 256"
  shows "\<exists>v off. read_hex 0 0 (itoa a @ CHR ''.'' # s) = Some (v, Suc off, CHR ''.'' # s)"
proof -
  consider "a < 10" | "10 \<le> a" "a < 100" | "100 \<le> a" by linarith
  then show ?thesis
  proof cases
    case 3
    then have "a div 100 < 10" using assms by auto
    then show ?thesis using 3 assms by (simp add: itoa_octet hex_val_digit hex_val_special)
  qed (use assms in \<open>auto simp: itoa_octet hex_val_digit hex_val_special\<close>)
qed

lemma show_v4_head: "\<exists>a s. a < 256 \<and> show_v4 w = itoa a @ CHR ''.'' # s"
  unfolding show_v4_def v4_bytes_def be_digits_4
  by (rule exI [of _ "unat w div 256 div 256 div 256 mod 256"]) simp

lemma parse_4in6:
  assumes "is4in6 w"
  shows "parse_v6_groups (''::ffff:'' @ show_v4 (low4 w)) = Some (v6_groups w)"
proof -
  let ?t = "show_v4 (low4 w)"
  obtain a s where a: "a < 256" and t: "?t = itoa a @ CHR ''.'' # s"
    using show_v4_head by blast
  obtain v off where rh: "read_hex 0 0 ?t = Some (v, Suc off, CHR ''.'' # s)"
    using read_hex_octet [OF a] unfolding t by blast
  obtain c r where cr: "?t = c # r" "c \<noteq> CHR '':''"
  proof -
    obtain c r where "itoa a = c # r" by (cases "itoa a") auto
    moreover from this have "c \<noteq> CHR '':''"
      using itoa_digits_set [of c a] digit_not_special [of c] by simp
    ultimately show ?thesis using that t by simp
  qed
  have "parse_v6_loop [65535] (Some 0) ?t
      = Some (65535 # drop 6 (v6_groups w), Some 0, [])"
    using rh v4_bytes_parse [of "low4 w"] low4_groups [of w]
    by (subst parse_v6_loop.simps) (simp add: v4_bytes_def)
  moreover have "read_hex 0 0 (''ffff:'' @ ?t) = Some (65535, 4, CHR '':'' # ?t)"
    by (simp add: hex_val_def is_digit_def byte_def)
  ultimately have "parse_v6_loop [] (Some 0) (''ffff:'' @ ?t)
      = Some (65535 # drop 6 (v6_groups w), Some 0, [])"
    using cr by (subst parse_v6_loop.simps) simp
  moreover have "v6_groups w = [0, 0, 0, 0, 0, 65535] @ drop 6 (v6_groups w)"
    using assms append_take_drop_id [of 6 "v6_groups w"] by (simp add: is4in6_def)
  moreover have "length (drop 6 (v6_groups w)) = 2" by (simp add: v6_groups_def)
  moreover have "replicate 5 (0::nat) = [0, 0, 0, 0, 0]" by (simp add: eval_nat_numeral)
  ultimately show ?thesis
    by (auto simp: parse_v6_groups_def has_prefix_def finish_v6_def)
qed

lemma v6_groups_val: "word_of_nat (be_val 65536 (v6_groups w)) = w"
proof -
  have "unat w < 2 ^ 128" using unsigned_less [of w, where ?'a = nat] by simp
  then show ?thesis by (simp add: v6_groups_def be_val_digits)
qed

definition show_v6 :: "128 word \<Rightarrow> string" where
  "show_v6 w = (if is4in6 w then ''::ffff:'' @ show_v4 (low4 w) else show_v6_groups (v6_groups w))"

lemma parse_show_v6: "parse_v6_groups (show_v6 w) = Some (v6_groups w)"
  using parse_4in6 parse_show_groups [of "v6_groups w"] be_digits_bound [of 65536 _ 8 "unat w"]
  by (auto simp: show_v6_def v6_groups_def)

definition v6_char :: "char \<Rightarrow> bool" where
  "v6_char c = (hex_val c \<noteq> None \<or> c = CHR '':'' \<or> c = CHR ''.'')"

lemma v6_char_simps [simp]: "v6_char (CHR '':'')" "v6_char (CHR ''.'')" "v6_char (CHR ''f'')"
  "\<not> v6_char (CHR ''%'')" "\<not> v6_char (CHR ''/'')"
  by (simp_all add: v6_char_def hex_val_def is_digit_def byte_def)

lemma set_join: "set (join sep xs) \<subseteq> set sep \<union> \<Union> (set ` set xs)"
  by (induction sep xs rule: join.induct) auto

lemma join_hex_chars: "c \<in> set (join '':'' (map hex_str hs)) \<Longrightarrow> v6_char c"
  using set_join [of "'':''" "map hex_str hs"] hex_str_hex by (fastforce simp: v6_char_def)

lemma show_v6_chars: "c \<in> set (show_v6 w) \<Longrightarrow> v6_char c"
proof -
  assume c: "c \<in> set (show_v6 w)"
  have "is_digit c \<Longrightarrow> v6_char c" for c by (simp add: v6_char_def hex_val_def)
  then show ?thesis
    using c show_v4_set [of c "low4 w"] join_hex_chars [of c]
    by (auto simp: show_v6_def show_v6_groups_def split: if_splits prod.splits)
qed

lemma addr_kind_hex: "addr_kind (hex_str n @ s) = addr_kind s"
  using addr_kind_skip [of "hex_str n" s] hex_str_hex hex_char_not_special by blast

lemma addr_kind_v6: "addr_kind (show_v6 w @ s) = Some (CHR '':'')"
proof (cases "is4in6 w")
  case True
  then show ?thesis by (simp add: show_v6_def)
next
  case False
  obtain st ln where r: "zero_run (v6_groups w) = (st, ln)" by fastforce
  have join: "addr_kind (join '':'' (map hex_str hs) @ t) = Some (CHR '':'')"
    if "1 < length hs \<or> (t \<noteq> [] \<and> hd t = CHR '':'')" for hs t
  proof (cases hs)
    case Nil
    with that show ?thesis by (cases t) auto
  next
    case (Cons h hs')
    with that show ?thesis
      by (cases hs'; cases t) (auto simp: addr_kind_hex)
  qed
  then show ?thesis
    using False r by (simp add: show_v6_def show_v6_groups_def) (simp add: v6_groups_def)
qed

theorem parse_show_addr: "parse_addr (show_addr a) = Some a"
proof (cases a)
  case (V4 w)
  then show ?thesis by (simp add: show_addr_def parse_show_v4)
next
  case (V6 w z)
  have sh: "show_addr a = show_v6 w @ zone_suffix z"
    using V6 by (simp add: show_addr_def show_v6_def)
  have free: "CHR ''%'' \<notin> set (show_v6 w)" using show_v6_chars by fastforce
  have cut: "cut_byte (CHR ''%'') (show_v6 w @ zone_suffix z) = (show_v6 w, z, z \<noteq> [])"
    using free by (simp add: zone_suffix_def cut_byte_absent)
  show ?thesis
    unfolding sh parse_addr_def
    by (simp add: addr_kind_v6 parse_ipv6_def cut parse_show_v6 v6_groups_val V6)
qed

lemma parse_show_prefix:
  assumes "zone_of (pip p) = []" and "pbits p \<le> bit_len (pip p)"
  shows "parse_prefix (show_prefix p) = Some p"
proof -
  let ?b = "itoa (pbits p)"
  have free: "CHR ''/'' \<notin> set ?b" using itoa_digits_set digit_not_special by blast
  have head: "1 < length ?b \<Longrightarrow> 49 \<le> byte (hd ?b) \<and> byte (hd ?b) \<le> 57"
  proof -
    assume "1 < length ?b"
    then obtain c r where cr: "?b = c # r" "r \<noteq> []" by (cases ?b) auto
    then have "is_digit c" "c \<noteq> CHR ''0''" using itoa_digits_set [of c "pbits p"] itoa_head by auto
    moreover have "byte c \<noteq> 48"
      using \<open>c \<noteq> CHR ''0''\<close> byte_inject [of c "CHR ''0''"] by (simp add: byte_def)
    ultimately show ?thesis using cr by (auto simp: is_digit_def)
  qed
  have "pbits p \<le> 128" using assms(2) by (simp add: bit_len_def split: if_splits)
  then have "atoi ?b = Some (int (pbits p))" by (intro atoi_itoa) simp
  moreover have "without_zone (pip p) = pip p"
    using assms(1) by (cases "pip p") (auto simp: without_zone_def zone_of_def)
  ultimately show ?thesis
    using assms head free
    by (auto simp: parse_prefix_def show_prefix_def parse_show_addr prefix_from_def Let_def)
qed

lemma parse_prefix_wf:
  assumes "parse_prefix s = Some p"
  shows "zone_of (pip p) = [] \<and> pbits p \<le> bit_len (pip p)"
  using assms
  by (auto simp: parse_prefix_def prefix_from_def without_zone_def zone_of_def bit_len_def is4_def
      Let_def split: option.splits if_splits addr.splits)

end
