(* ===== verification/Routes.thy ===== *)
theory Routes
  imports NetIP
begin

text \<open>
  Route carving: \<open>wgconf.go\<close> (\<open>subtractCIDR\<close>, \<open>carve\<close>, \<open>setBit\<close>,
  \<open>hostCIDR\<close>) and the route list helpers of \<open>corplink/connect.go\<close>
  (\<open>normalizeCIDRs\<close>, \<open>ensureDNSAllowedIPs\<close>, \<open>filterIPv6Routes\<close>, \<open>eqFold\<close>).
  The abstract reading of a route is the set of addresses it covers. \<open>None\<close> as the result
  of \<open>carve\<close> and its callers is a Go panic (an index out of range in \<open>setBit\<close>).
\<close>

unbundle bit_operations_syntax

section \<open>Prefix operations of \<open>net/netip\<close>\<close>

definition masked :: "prefix \<Rightarrow> prefix" where
  "masked p = p\<lparr>pip := (case pip p of
     V4 w \<Rightarrow> V4 (w AND NOT (mask (32 - pbits p)))
   | V6 w z \<Rightarrow> V6 (w AND NOT (mask (128 - pbits p))) z)\<rparr>"

definition contains_addr :: "prefix \<Rightarrow> addr \<Rightarrow> bool" where
  "contains_addr p a =
     (case (pip p, a) of
        (V4 v, V4 w) \<Rightarrow> drop_bit (32 - pbits p) (w XOR v) = 0
      | (V6 v _, V6 w z) \<Rightarrow> z = [] \<and> drop_bit (128 - pbits p) (w XOR v) = 0
      | _ \<Rightarrow> False)"

section \<open>\<open>wgconf.go\<close>\<close>

text \<open>The bit at position \<open>pos\<close> from the most significant one; \<open>None\<close> past the end,
  where the byte index is out of range.\<close>

definition set_bit_addr :: "addr \<Rightarrow> nat \<Rightarrow> addr option" where
  "set_bit_addr a pos =
     (case a of
        V4 w \<Rightarrow> if pos < 32 then Some (V4 (w OR push_bit (31 - pos) 1)) else None
      | V6 w z \<Rightarrow> if pos < 128 then Some (V6 (w OR push_bit (127 - pos) 1) '''') else None)"

function carve :: "prefix \<Rightarrow> prefix \<Rightarrow> prefix list option" where
  "carve outer inner =
     (if pbits outer = pbits inner then Some []
      else case set_bit_addr (pip outer) (pbits outer) of
        None \<Rightarrow> None
      | Some up \<Rightarrow>
          let newBits = pbits outer + 1;
              lower = masked (prefix_from (pip outer) newBits);
              upper = masked (prefix_from up newBits)
          in if contains_addr lower (pip inner)
             then map_option ((#) upper) (carve lower inner)
             else map_option ((#) lower) (carve upper inner))"
  by pat_completeness auto
termination
  by (relation "measure (\<lambda>(outer, inner). 128 - pbits outer)")
    (auto simp: set_bit_addr_def masked_def prefix_from_def split: addr.splits if_splits)

declare carve.simps [simp del]

definition subtract_cidr :: "string \<Rightarrow> string \<Rightarrow> string list option" where
  "subtract_cidr outer inner =
     (case (parse_prefix outer, parse_prefix inner) of
        (Some op0, Some ip0) \<Rightarrow>
          let op = masked op0; ip = masked ip0 in
          if is4 (pip op) \<noteq> is4 (pip ip) then Some [outer]
          else if pbits ip \<le> pbits op \<and> contains_addr ip (pip op) then Some []
          else if \<not> contains_addr op (pip ip) then Some [outer]
          else map_option (map show_prefix) (carve op ip)
      | _ \<Rightarrow> Some [outer])"

definition host_cidr :: "string \<Rightarrow> string option" where
  "host_cidr s =
     (case parse_addr s of
        None \<Rightarrow> None
      | Some a \<Rightarrow> if is4 a then Some (show_addr a @ ''/32'') else Some (show_addr a @ ''/128''))"

section \<open>Route lists of \<open>connect.go\<close>\<close>

fun normalize_acc :: "string list \<Rightarrow> string list \<Rightarrow> string list" where
  "normalize_acc seen [] = []"
| "normalize_acc seen (s # rest) =
     (if parse_prefix s = None then normalize_acc seen rest
      else if s \<in> set seen then normalize_acc seen rest
      else s # normalize_acc (s # seen) rest)"

definition normalize_cidrs :: "string list \<Rightarrow> string list" where
  "normalize_cidrs xs = normalize_acc [] xs"

text \<open>Whether one of the routes covers the given one; the search stops at the first that does.\<close>

fun covered_by :: "string \<Rightarrow> string list \<Rightarrow> bool option" where
  "covered_by cidr [] = Some False"
| "covered_by cidr (route # rest) =
     (case subtract_cidr cidr route of
        None \<Rightarrow> None
      | Some rs \<Rightarrow> if rs = [] then Some True else covered_by cidr rest)"

definition dns_sep :: "char \<Rightarrow> bool" where
  "dns_sep c = (c = CHR '','' \<or> c = CHR '' '')"

fun ensure_dns_loop :: "string list \<Rightarrow> string list \<Rightarrow> string list option" where
  "ensure_dns_loop allowed [] = Some allowed"
| "ensure_dns_loop allowed (s # rest) =
     (case parse_addr (trim_space s) of
        None \<Rightarrow> ensure_dns_loop allowed rest
      | Some a \<Rightarrow>
          let cidr = show_prefix (prefix_from a (if is6 a then 128 else 32)) in
          (case covered_by cidr allowed of
             None \<Rightarrow> None
           | Some cov \<Rightarrow> ensure_dns_loop (if cov then allowed else allowed @ [cidr]) rest))"

definition ensure_dns_allowed_ips :: "string list \<Rightarrow> string \<Rightarrow> string list option" where
  "ensure_dns_allowed_ips allowed dns = ensure_dns_loop allowed (fields_func dns_sep dns)"

definition filter_ipv6_routes :: "string list \<Rightarrow> string list" where
  "filter_ipv6_routes xs =
     filter (\<lambda>r. case parse_prefix r of None \<Rightarrow> True | Some p \<Rightarrow> \<not> is6 (pip p)) xs"

fun carve_all :: "string \<Rightarrow> string list \<Rightarrow> string list option" where
  "carve_all inner [] = Some []"
| "carve_all inner (a # rest) =
     (case (subtract_cidr a inner, carve_all inner rest) of
        (Some rs, Some ts) \<Rightarrow> Some (rs @ ts)
      | _ \<Rightarrow> None)"

definition eq_fold :: "string \<Rightarrow> string \<Rightarrow> bool" where
  "eq_fold a b = (length a = length b \<and> list_all2 (\<lambda>x y. lower x = lower y) a b)"

section \<open>Bits of an address, from the most significant one\<close>

definition abit :: "addr \<Rightarrow> nat \<Rightarrow> bool" where
  "abit a i = (case a of V4 w \<Rightarrow> bit w (31 - i) | V6 w _ \<Rightarrow> bit w (127 - i))"

lemma bit_index_shift: "(\<forall>i. n - k \<le> i \<and> i < n \<longrightarrow> P i) \<longleftrightarrow> (\<forall>i<k. i < n \<longrightarrow> P (n - 1 - i))" for n k :: nat
proof
  assume r: "\<forall>i<k. i < n \<longrightarrow> P (n - 1 - i)"
  show "\<forall>i. n - k \<le> i \<and> i < n \<longrightarrow> P i"
  proof (intro allI impI)
    fix i assume "n - k \<le> i \<and> i < n"
    then have "n - 1 - i < k" "n - 1 - i < n" "n - 1 - (n - 1 - i) = i" by auto
    with r show "P i" by metis
  qed
qed auto

lemma word_xor_zero: "x XOR y = 0 \<longleftrightarrow> x = y" for x y :: "'a::len word"
  by (auto simp: bit_eq_iff bit_xor_iff)

lemma drop_bit_zero_iff:
  fixes w v :: "'a::len word"
  assumes "k \<le> LENGTH('a)"
  shows "drop_bit (LENGTH('a) - k) w XOR drop_bit (LENGTH('a) - k) v = 0 \<longleftrightarrow>
    (\<forall>i<k. bit w (LENGTH('a) - 1 - i) = bit v (LENGTH('a) - 1 - i))"
proof -
  let ?m = "LENGTH('a) - k"
  have "drop_bit ?m w XOR drop_bit ?m v = 0 \<longleftrightarrow> drop_bit ?m w = drop_bit ?m v"
    by (rule word_xor_zero)
  also have "\<dots> \<longleftrightarrow> (\<forall>i. bit w (?m + i) = bit v (?m + i))"
  proof -
    have "i < LENGTH('a)" if "bit x (?m + i)" for x :: "'a word" and i
      using bit_imp_le_length [OF that] by simp
    then show ?thesis
      by (simp add: bit_eq_iff bit_drop_bit_eq possible_bit_word) blast
  qed
  also have "\<dots> \<longleftrightarrow> (\<forall>i. ?m \<le> i \<and> i < LENGTH('a) \<longrightarrow> bit w i = bit v i)"
    by (metis bit_imp_le_length le_add1 le_add_diff_inverse)
  also have "\<dots> \<longleftrightarrow> (\<forall>i<k. bit w (LENGTH('a) - 1 - i) = bit v (LENGTH('a) - 1 - i))"
    using bit_index_shift [of "LENGTH('a)" k "\<lambda>i. bit w i = bit v i"] assms by auto
  finally show ?thesis .
qed

lemmas drop_bit_zero_32 = drop_bit_zero_iff [where 'a = 32, simplified]
lemmas drop_bit_zero_128 = drop_bit_zero_iff [where 'a = 128, simplified]

definition same_family :: "addr \<Rightarrow> addr \<Rightarrow> bool" where
  "same_family a b = (is4 a = is4 b)"

lemma contains_addr_iff:
  "pbits p \<le> bit_len (pip p) \<Longrightarrow>
   contains_addr p a \<longleftrightarrow>
     same_family (pip p) a \<and> zone_of a = [] \<and> (\<forall>i<pbits p. abit a i = abit (pip p) i)"
  by (auto simp: contains_addr_def same_family_def drop_bit_zero_32 drop_bit_zero_128 abit_def
      is4_def zone_of_def bit_len_def split: addr.splits)

lemma abit_masked:
  "i < bit_len (pip p) \<Longrightarrow> pbits p \<le> bit_len (pip p) \<Longrightarrow>
   abit (pip (masked p)) i = (i < pbits p \<and> abit (pip p) i)"
  by (auto simp: abit_def masked_def bit_len_def is4_def bit_and_iff bit_not_iff bit_mask_iff
      split: addr.splits)

lemma masked_simps [simp]:
  "pbits (masked p) = pbits p"
  "is4 (pip (masked p)) = is4 (pip p)"
  "bit_len (pip (masked p)) = bit_len (pip p)"
  "zone_of (pip (masked p)) = zone_of (pip p)"
  by (auto simp: masked_def is4_def bit_len_def zone_of_def split: addr.splits)

lemma set_bit_addr_Some:
  "set_bit_addr a pos = Some b \<Longrightarrow>
   pos < bit_len a \<and> is4 b = is4 a \<and> zone_of b = [] \<and>
   (\<forall>i<bit_len a. abit b i = (i = pos \<or> abit a i))"
  by (auto simp: set_bit_addr_def bit_len_def is4_def zone_of_def abit_def bit_or_iff
      bit_exp_iff possible_bit_word split: addr.splits if_splits)

lemma set_bit_addr_total: "pos < bit_len a \<Longrightarrow> \<exists>b. set_bit_addr a pos = Some b"
  by (auto simp: set_bit_addr_def bit_len_def is4_def split: addr.splits)

lemma prefix_from_simps [simp]:
  "pbits (prefix_from a n) = n"
  "is4 (pip (prefix_from a n)) = is4 a"
  "bit_len (pip (prefix_from a n)) = bit_len a"
  "zone_of (pip (prefix_from a n)) = []"
  "abit (pip (prefix_from a n)) i = abit a i"
  by (auto simp: prefix_from_def without_zone_def is4_def bit_len_def zone_of_def abit_def
      split: addr.splits)

section \<open>Carving covers exactly the complement\<close>

definition pset :: "prefix \<Rightarrow> addr set" where
  "pset p = {a. contains_addr p a}"

definition pwf :: "prefix \<Rightarrow> bool" where
  "pwf p = (pbits p \<le> bit_len (pip p) \<and> zone_of (pip p) = [] \<and>
     (\<forall>i<bit_len (pip p). pbits p \<le> i \<longrightarrow> \<not> abit (pip p) i))"

lemma bit_len_family: "same_family a b \<Longrightarrow> bit_len a = bit_len b"
  by (simp add: same_family_def bit_len_def)

lemma pwf_masked: "pbits p \<le> bit_len (pip p) \<Longrightarrow> zone_of (pip p) = [] \<Longrightarrow> pwf (masked p)"
  by (auto simp: pwf_def abit_masked)

lemma mem_pset:
  "pwf p \<Longrightarrow> a \<in> pset p \<longleftrightarrow>
     same_family (pip p) a \<and> zone_of a = [] \<and> (\<forall>i<pbits p. abit a i = abit (pip p) i)"
  by (auto simp: pset_def pwf_def contains_addr_iff)

definition lower_half :: "prefix \<Rightarrow> prefix" where
  "lower_half p = masked (prefix_from (pip p) (pbits p + 1))"

definition upper_half :: "prefix \<Rightarrow> addr \<Rightarrow> prefix" where
  "upper_half p up = masked (prefix_from up (pbits p + 1))"

lemma lower_half_spec:
  assumes "pwf p" and "pbits p < bit_len (pip p)"
  shows "pwf (lower_half p)" and "pset (lower_half p) = {a \<in> pset p. \<not> abit a (pbits p)}"
    and "pbits (lower_half p) = pbits p + 1" and "same_family (pip (lower_half p)) (pip p)"
proof -
  show wf: "pwf (lower_half p)"
    unfolding lower_half_def using assms by (intro pwf_masked) auto
  have bits: "i < pbits p + 1 \<Longrightarrow> abit (pip (lower_half p)) i = (i < pbits p \<and> abit (pip p) i)" for i
    using assms by (cases "i = pbits p") (auto simp: lower_half_def abit_masked pwf_def)
  show n: "pbits (lower_half p) = pbits p + 1" and f: "same_family (pip (lower_half p)) (pip p)"
    by (simp_all add: lower_half_def same_family_def)
  show "pset (lower_half p) = {a \<in> pset p. \<not> abit a (pbits p)}"
    using f by (auto simp: mem_pset wf assms(1) n bits same_family_def less_Suc_eq)
qed

lemma upper_half_spec:
  assumes "pwf p" and "set_bit_addr (pip p) (pbits p) = Some up"
  shows "pwf (upper_half p up)" and "pset (upper_half p up) = {a \<in> pset p. abit a (pbits p)}"
    and "pbits (upper_half p up) = pbits p + 1" and "same_family (pip (upper_half p up)) (pip p)"
proof -
  note up = set_bit_addr_Some [OF assms(2)]
  have bl: "bit_len up = bit_len (pip p)" using up by (simp add: bit_len_def)
  show wf: "pwf (upper_half p up)"
    unfolding upper_half_def using up bl by (intro pwf_masked) auto
  have bits: "i < pbits p + 1 \<Longrightarrow> abit (pip (upper_half p up)) i = (i = pbits p \<or> abit (pip p) i)" for i
    using up bl by (simp add: upper_half_def abit_masked)
  show n: "pbits (upper_half p up) = pbits p + 1" and f: "same_family (pip (upper_half p up)) (pip p)"
    using up by (simp_all add: upper_half_def same_family_def)
  have "(\<forall>i<pbits p + 1. abit a i = (i = pbits p \<or> abit (pip p) i)) \<longleftrightarrow>
      (\<forall>i<pbits p. abit a i = abit (pip p) i) \<and> abit a (pbits p)" for a
    by (auto simp: less_Suc_eq)
  moreover have "a \<in> pset (upper_half p up) \<longleftrightarrow> same_family (pip p) a \<and> zone_of a = [] \<and>
      (\<forall>i<pbits p + 1. abit a i = (i = pbits p \<or> abit (pip p) i))" for a
    using f bits by (simp add: mem_pset wf n same_family_def)
  ultimately show "pset (upper_half p up) = {a \<in> pset p. abit a (pbits p)}"
    by (simp add: set_eq_iff mem_pset assms(1))
qed

lemma carve_step:
  assumes "pbits outer \<noteq> pbits inner" and "set_bit_addr (pip outer) (pbits outer) = Some up"
  shows "carve outer inner =
    (if contains_addr (lower_half outer) (pip inner)
     then map_option ((#) (upper_half outer up)) (carve (lower_half outer) inner)
     else map_option ((#) (lower_half outer)) (carve (upper_half outer up) inner))"
  using assms by (subst carve.simps) (simp add: Let_def lower_half_def upper_half_def)

definition carved :: "prefix \<Rightarrow> prefix \<Rightarrow> prefix list \<Rightarrow> bool" where
  "carved outer inner ps =
     ((\<Union>p\<in>set ps. pset p) = pset outer - pset inner \<and>
      length ps = pbits inner - pbits outer \<and>
      list_all pwf ps \<and>
      sorted_wrt (\<lambda>p q. pset p \<inter> pset q = {}) ps)"

lemma carved_Cons:
  assumes rec: "carved half inner ps" and sib: "pwf sib" and n: "pbits half = pbits outer + 1"
    and lt: "pbits outer < pbits inner"
    and split: "pset outer = pset half \<union> pset sib" "pset half \<inter> pset sib = {}"
    and sub: "pset inner \<subseteq> pset half"
  shows "carved outer inner (sib # ps)"
proof -
  have un: "(\<Union>p\<in>set ps. pset p) = pset half - pset inner" using rec by (simp add: carved_def)
  then have "\<forall>p\<in>set ps. pset p \<subseteq> pset half" by blast
  with split have "\<forall>p\<in>set ps. pset sib \<inter> pset p = {}" by blast
  with rec sib n lt un split sub show ?thesis
    unfolding carved_def by auto
qed

lemma carve_correct:
  "pwf outer \<Longrightarrow> pwf inner \<Longrightarrow> pip inner \<in> pset outer \<Longrightarrow> pbits outer \<le> pbits inner \<Longrightarrow>
   \<exists>ps. carve outer inner = Some ps \<and> carved outer inner ps"
proof (induction outer inner rule: carve.induct)
  case (1 outer inner)
  note outer = "1.prems"(1) and inner = "1.prems"(2) and mem = "1.prems"(3) and le = "1.prems"(4)
  show ?case
  proof (cases "pbits outer = pbits inner")
    case True
    have "pset outer = pset inner"
      using mem by (auto simp: mem_pset outer inner True same_family_def)
    with True show ?thesis by (subst carve.simps) (simp add: carved_def)
  next
    case False
    with le have lt: "pbits outer < pbits inner" by simp
    have fam: "same_family (pip outer) (pip inner)" using mem by (simp add: mem_pset outer)
    have "pbits outer < bit_len (pip outer)"
      using lt inner bit_len_family [OF fam] by (simp add: pwf_def)
    then obtain up where up: "set_bit_addr (pip outer) (pbits outer) = Some up"
      using set_bit_addr_total by blast
    note lo = lower_half_spec [OF outer \<open>pbits outer < bit_len (pip outer)\<close>]
    note hi = upper_half_spec [OF outer up]
    have halves: "pset outer = pset (lower_half outer) \<union> pset (upper_half outer up)"
      "pset (lower_half outer) \<inter> pset (upper_half outer up) = {}"
      using lo(2) hi(2) by auto
    have sub: "pset inner \<subseteq> pset h"
      if "pwf h" "pbits h \<le> pbits inner" "pip inner \<in> pset h" for h
      using that by (auto simp: mem_pset inner same_family_def)
    show ?thesis
    proof (cases "contains_addr (lower_half outer) (pip inner)")
      case True
      then have m: "pip inner \<in> pset (lower_half outer)" by (simp add: pset_def)
      have "\<exists>ps. carve (lower_half outer) inner = Some ps \<and> carved (lower_half outer) inner ps"
        using "1.IH"(1) [OF False up refl refl refl] True lo inner m lt
        by (simp add: lower_half_def)
      then obtain ps where ps: "carve (lower_half outer) inner = Some ps"
        "carved (lower_half outer) inner ps" by blast
      have "carved outer inner (upper_half outer up # ps)"
        using carved_Cons [OF ps(2) hi(1) lo(3) lt halves] sub [OF lo(1) _ m] lo(3) lt by simp
      with ps(1) True show ?thesis by (simp add: carve_step [OF False up])
    next
      case notlow: False
      then have m: "pip inner \<in> pset (upper_half outer up)"
        using mem halves(1) by (auto simp: pset_def)
      have "\<exists>ps. carve (upper_half outer up) inner = Some ps \<and> carved (upper_half outer up) inner ps"
        using "1.IH"(2) [OF False up refl refl refl] notlow hi inner m lt
        by (simp add: lower_half_def upper_half_def)
      then obtain ps where ps: "carve (upper_half outer up) inner = Some ps"
        "carved (upper_half outer up) inner ps" by blast
      have "carved outer inner (lower_half outer # ps)"
        using carved_Cons [OF ps(2) lo(1) hi(3) lt] halves sub [OF hi(1) _ m] hi(3) lt by auto
      with ps(1) notlow show ?thesis by (simp add: carve_step [OF False up])
    qed
  qed
qed

section \<open>Routes as sets of addresses\<close>

definition route_addrs :: "string \<Rightarrow> addr set" where
  "route_addrs s = (case parse_prefix s of None \<Rightarrow> {} | Some p \<Rightarrow> pset (masked p))"

definition routes_addrs :: "string list \<Rightarrow> addr set" where
  "routes_addrs rs = (\<Union>r\<in>set rs. route_addrs r)"

lemma routes_addrs_simps [simp]:
  "routes_addrs [] = {}"
  "routes_addrs (r # rs) = route_addrs r \<union> routes_addrs rs"
  "routes_addrs (rs @ ts) = routes_addrs rs \<union> routes_addrs ts"
  by (auto simp: routes_addrs_def)

lemma parse_prefix_pwf: "parse_prefix s = Some p \<Longrightarrow> pwf (masked p)"
  using parse_prefix_wf by (blast intro: pwf_masked)

lemma pset_masked: "pwf p \<Longrightarrow> pset (masked p) = pset p"
  using pwf_masked [of p] by (auto simp: mem_pset same_family_def abit_masked pwf_def)

lemma route_addrs_show: "pwf p \<Longrightarrow> route_addrs (show_prefix p) = pset p"
  by (simp add: route_addrs_def parse_show_prefix pset_masked pwf_def)

lemma routes_addrs_show: "list_all pwf ps \<Longrightarrow> routes_addrs (map show_prefix ps) = (\<Union>p\<in>set ps. pset p)"
  by (induction ps) (auto simp: route_addrs_show)

text \<open>Two prefixes are disjoint or one of them contains the other's address.\<close>

lemma prefix_overlap:
  assumes "pwf p" "pwf q" "a \<in> pset p" "a \<in> pset q" "pbits p \<le> pbits q"
  shows "pip q \<in> pset p" and "pset q \<subseteq> pset p"
  using assms by (auto simp: mem_pset same_family_def pwf_def)

lemma prefix_contains_swap:
  "pwf p \<Longrightarrow> pwf q \<Longrightarrow> pip q \<in> pset p \<Longrightarrow> pbits q \<le> pbits p \<Longrightarrow> pip p \<in> pset q"
  by (auto simp: mem_pset same_family_def pwf_def)

lemma pip_in_pset: "pwf p \<Longrightarrow> pip p \<in> pset p"
  by (simp add: mem_pset same_family_def pwf_def)

lemma pset_subset_bits:
  assumes op: "pwf op" and ip: "pwf ip" and sub: "pset op \<subseteq> pset ip"
  shows "pbits ip \<le> pbits op \<and> pip op \<in> pset ip"
proof (rule ccontr)
  assume n: "\<not> ?thesis"
  from sub pip_in_pset [OF op] have m: "pip op \<in> pset ip" by auto
  with n have lt: "pbits op < pbits ip" by simp
  then have lt': "pbits op < bit_len (pip op)"
    using ip m bit_len_family [of "pip ip" "pip op"] by (auto simp: mem_pset pwf_def)
  then obtain up where up: "set_bit_addr (pip op) (pbits op) = Some up"
    using set_bit_addr_total by blast
  note hi = upper_half_spec [OF op up]
  have up_in: "pip (upper_half op up) \<in> pset op" and "abit (pip (upper_half op up)) (pbits op)"
    using pip_in_pset [OF hi(1)] hi(2) by auto
  moreover have "pip (upper_half op up) \<in> pset ip" using up_in sub by blast
  moreover have "\<not> abit (pip op) (pbits op)"
    using op lt' by (simp add: pwf_def)
  ultimately show False
    using m lt by (auto simp: mem_pset op ip)
qed

lemma subtract_cidr_cases:
  assumes "parse_prefix outer = Some p" and "parse_prefix inner = Some q"
  defines "op \<equiv> masked p" and "ip \<equiv> masked q"
  shows
    "pset op \<inter> pset ip = {} \<Longrightarrow> subtract_cidr outer inner = Some [outer]"
    "pset op \<subseteq> pset ip \<Longrightarrow> subtract_cidr outer inner = Some []"
    "pset ip \<subseteq> pset op \<Longrightarrow> \<not> pset op \<subseteq> pset ip \<Longrightarrow>
       pbits op < pbits ip \<and>
       (\<exists>ps. carved op ip ps \<and> subtract_cidr outer inner = Some (map show_prefix ps))"
proof -
  have wf: "pwf op" "pwf ip"
    using assms parse_prefix_pwf by auto
  have eq: "subtract_cidr outer inner =
    (if is4 (pip op) \<noteq> is4 (pip ip) then Some [outer]
     else if pbits ip \<le> pbits op \<and> pip op \<in> pset ip then Some []
     else if pip ip \<notin> pset op then Some [outer]
     else map_option (map show_prefix) (carve op ip))"
    using assms by (simp add: subtract_cidr_def pset_def Let_def)
  have fam: "pip op \<in> pset ip \<or> pip ip \<in> pset op \<Longrightarrow> is4 (pip op) = is4 (pip ip)"
    by (auto simp: mem_pset wf same_family_def)
  have self: "pip op \<in> pset op" "pip ip \<in> pset ip" using pip_in_pset wf by auto
  show "subtract_cidr outer inner = Some [outer]" if "pset op \<inter> pset ip = {}"
    using that self by (auto simp: eq)
  show "subtract_cidr outer inner = Some []" if "pset op \<subseteq> pset ip"
    using pset_subset_bits [OF wf that] fam by (auto simp: eq)
  show "pbits op < pbits ip \<and>
       (\<exists>ps. carved op ip ps \<and> subtract_cidr outer inner = Some (map show_prefix ps))"
    if "pset ip \<subseteq> pset op" "\<not> pset op \<subseteq> pset ip"
  proof -
    have m: "pip ip \<in> pset op" using that self by auto
    have no: "\<not> (pbits ip \<le> pbits op \<and> pip op \<in> pset ip)"
      using that(2) prefix_overlap(2) [OF wf(2,1)] self by blast
    then have lt: "pbits op < pbits ip"
      using prefix_contains_swap [OF wf m] by linarith
    with carve_correct [OF wf m] no m fam show ?thesis by (auto simp: eq)
  qed
qed

lemma subtract_cidr_total_set:
  "\<exists>rs. subtract_cidr outer inner = Some rs \<and>
        routes_addrs rs = route_addrs outer - route_addrs inner"
proof (cases "parse_prefix outer")
  case None
  then show ?thesis by (simp add: subtract_cidr_def route_addrs_def)
next
  case (Some p)
  show ?thesis
  proof (cases "parse_prefix inner")
    case None
    with Some show ?thesis by (simp add: subtract_cidr_def route_addrs_def)
  next
    case q: (Some q)
    note c = subtract_cidr_cases [OF Some q]
    have wf: "pwf (masked p)" "pwf (masked q)" using Some q parse_prefix_pwf by auto
    have ra: "route_addrs outer = pset (masked p)" "route_addrs inner = pset (masked q)"
      using Some q by (simp_all add: route_addrs_def)
    consider "pset (masked p) \<inter> pset (masked q) = {}" | "pset (masked p) \<subseteq> pset (masked q)"
      | "pset (masked q) \<subseteq> pset (masked p)" "\<not> pset (masked p) \<subseteq> pset (masked q)"
      using prefix_overlap(2) [OF wf] prefix_overlap(2) [OF wf(2,1)] nat_le_linear by blast
    then show ?thesis
    proof cases
      case 1
      with c(1) ra show ?thesis by auto
    next
      case 2
      with c(2) ra show ?thesis by auto
    next
      case 3
      with c(3) obtain ps where "carved (masked p) (masked q) ps"
        "subtract_cidr outer inner = Some (map show_prefix ps)" by blast
      then show ?thesis by (auto simp: carved_def routes_addrs_show ra)
    qed
  qed
qed

section \<open>The contract of route subtraction\<close>

text \<open>
  What the route list helpers rely on: subtraction always answers, and the answer covers the
  difference. The lemmas of the locale are the steps of \<open>BuildWgConf\<close>'s loops.
\<close>

locale route_subtraction =
  fixes addrs :: "'r \<Rightarrow> 'a set"
    and sub :: "'r \<Rightarrow> 'r \<Rightarrow> 'r list option"
  assumes sub_set: "\<exists>rs. sub r q = Some rs \<and> (\<Union>x\<in>set rs. addrs x) = addrs r - addrs q"
begin

lemma sub_total: "sub r q \<noteq> None"
  using sub_set [of r q] by auto

lemma sub_cover: "sub r q = Some rs \<Longrightarrow> (\<Union>x\<in>set rs. addrs x) = addrs r - addrs q"
  using sub_set [of r q] by auto

lemma sub_Nil: "sub r q = Some [] \<Longrightarrow> addrs r \<subseteq> addrs q"
  using sub_cover [of r q "[]"] by auto

lemma sub_removes: "sub r q = Some rs \<Longrightarrow> x \<in> set rs \<Longrightarrow> addrs x \<inter> addrs q = {}"
  using sub_cover [of r q rs] by auto

end

interpretation cidr: route_subtraction route_addrs subtract_cidr
  using subtract_cidr_total_set by unfold_locales (auto simp: routes_addrs_def)

lemma subtract_cidr_set:
  "subtract_cidr outer inner = Some rs \<Longrightarrow> routes_addrs rs = route_addrs outer - route_addrs inner"
  using cidr.sub_cover by (simp add: routes_addrs_def)

lemma carve_all_set:
  "\<exists>rs. carve_all inner xs = Some rs \<and> routes_addrs rs = routes_addrs xs - route_addrs inner"
proof (induction xs)
  case Nil
  then show ?case by simp
next
  case (Cons x xs)
  then show ?case using subtract_cidr_total_set [of x inner] by auto
qed

lemma covered_by_total: "\<exists>b. covered_by c routes = Some b"
proof (induction routes)
  case Nil
  then show ?case by auto
next
  case (Cons r rs)
  then show ?case using cidr.sub_total [of c r] by auto
qed

lemma covered_by_True: "covered_by c routes = Some True \<Longrightarrow> route_addrs c \<subseteq> routes_addrs routes"
proof (induction routes)
  case Nil
  then show ?case by simp
next
  case (Cons r rs)
  then show ?case using cidr.sub_Nil [of c r] by (auto split: option.splits if_splits)
qed

section \<open>DNS servers stay reachable\<close>

definition dns_addrs :: "string \<Rightarrow> addr list" where
  "dns_addrs dns = List.map_filter (\<lambda>s. parse_addr (trim_space s)) (fields_func dns_sep dns)"

definition host_prefix :: "addr \<Rightarrow> prefix" where
  "host_prefix a = prefix_from a (if is6 a then 128 else 32)"

lemma pwf_host_prefix: "pwf (host_prefix a)"
  by (auto simp: pwf_def host_prefix_def prefix_from_def without_zone_def bit_len_def is4_def is6_def
      zone_of_def split: addr.splits)

lemma abit_inject:
  assumes "same_family a b" "zone_of a = zone_of b" "\<forall>i<bit_len a. abit a i = abit b i"
  shows "a = b"
proof (cases a)
  case (V4 v)
  then obtain w where b: "b = V4 w" using assms(1) by (cases b) (auto simp: same_family_def is4_def)
  have "bit v i = bit w i" if "i < 32" for i
    using assms(3) [rule_format, of "31 - i"] that V4 b
    by (auto simp: abit_def bit_len_def is4_def)
  then show ?thesis using V4 b by (auto simp: bit_eq_iff)
next
  case (V6 v z)
  then obtain w z' where b: "b = V6 w z'" using assms(1) by (cases b) (auto simp: same_family_def is4_def)
  have "bit v i = bit w i" if "i < 128" for i
    using assms(3) [rule_format, of "127 - i"] that V6 b
    by (auto simp: abit_def bit_len_def is4_def)
  then show ?thesis using V6 b assms(2) by (auto simp: bit_eq_iff zone_of_def)
qed

lemma pset_host_prefix: "pset (host_prefix a) = {without_zone a}"
proof -
  have p: "pip (host_prefix a) = without_zone a" "pbits (host_prefix a) = bit_len (without_zone a)"
    by (auto simp: host_prefix_def prefix_from_def bit_len_def is4_def is6_def without_zone_def
        split: addr.splits)
  have "zone_of (without_zone a) = []"
    by (auto simp: zone_of_def without_zone_def split: addr.splits)
  note nz = this
  have mem: "x \<in> pset (host_prefix a) \<longleftrightarrow> same_family (without_zone a) x \<and> zone_of x = [] \<and>
      (\<forall>i<bit_len (without_zone a). abit x i = abit (without_zone a) i)" for x
    by (simp add: mem_pset [OF pwf_host_prefix] p)
  show ?thesis
  proof (intro set_eqI iffI)
    fix x assume "x \<in> pset (host_prefix a)"
    then have "without_zone a = x" using nz unfolding mem by (intro abit_inject) simp_all
    then show "x \<in> {without_zone a}" by simp
  next
    fix x assume "x \<in> {without_zone a}"
    then show "x \<in> pset (host_prefix a)" using nz by (simp add: mem same_family_def)
  qed
qed

lemma ensure_dns_loop_spec:
  "\<exists>rs. ensure_dns_loop allowed ds = Some rs \<and>
        routes_addrs rs = routes_addrs allowed \<union>
          set (map without_zone (List.map_filter (\<lambda>s. parse_addr (trim_space s)) ds)) \<and>
        take (length allowed) rs = allowed"
proof (induction ds arbitrary: allowed)
  case Nil
  then show ?case by simp
next
  case (Cons d ds)
  show ?case
  proof (cases "parse_addr (trim_space d)")
    case None
    with Cons.IH [of allowed] show ?thesis by simp
  next
    case (Some a)
    let ?c = "show_prefix (host_prefix a)"
    have rc: "route_addrs ?c = {without_zone a}"
      by (simp add: route_addrs_show pwf_host_prefix pset_host_prefix)
    obtain cov where cov: "covered_by ?c allowed = Some cov" using covered_by_total by blast
    have "cov \<Longrightarrow> without_zone a \<in> routes_addrs allowed"
      using covered_by_True [of ?c allowed] cov rc by simp
    moreover obtain rs where "ensure_dns_loop (if cov then allowed else allowed @ [?c]) ds = Some rs"
      "routes_addrs rs = routes_addrs (if cov then allowed else allowed @ [?c]) \<union>
          set (map without_zone (List.map_filter (\<lambda>s. parse_addr (trim_space s)) ds))"
      "take (length (if cov then allowed else allowed @ [?c])) rs = (if cov then allowed else allowed @ [?c])"
      using Cons.IH by blast
    moreover have "take (length allowed) rs = allowed"
      if "take (length (allowed @ [?c])) rs = allowed @ [?c]"
      using that by (metis append_take_drop_id append_eq_append_conv2 append_eq_conv_conj)
    ultimately show ?thesis
      using Some cov rc by (auto simp: host_prefix_def Let_def)
  qed
qed

lemma ensure_dns_spec:
  "\<exists>rs. ensure_dns_allowed_ips allowed dns = Some rs \<and>
        routes_addrs rs = routes_addrs allowed \<union> without_zone ` set (dns_addrs dns) \<and>
        take (length allowed) rs = allowed"
  using ensure_dns_loop_spec [of allowed "fields_func dns_sep dns"]
  by (simp add: ensure_dns_allowed_ips_def dns_addrs_def)

section \<open>Normalising and filtering\<close>

lemma normalize_acc_spec:
  "normalize_acc seen xs = rev (remdups (rev (filter (\<lambda>s. parse_prefix s \<noteq> None \<and> s \<notin> set seen) xs)))"
proof (induction xs arbitrary: seen)
  case Nil
  then show ?case by simp
next
  case (Cons x xs)
  have del: "remdups (ys @ [y]) = remdups (filter (\<lambda>s. s \<noteq> y) ys) @ [y]" for ys and y :: string
    by (induction ys) auto
  have "filter (\<lambda>s. parse_prefix s \<noteq> None \<and> s \<notin> set (x # seen)) xs =
      filter (\<lambda>s. s \<noteq> x) (filter (\<lambda>s. parse_prefix s \<noteq> None \<and> s \<notin> set seen) xs)"
    by (simp add: conj_ac filter_filter)
  then show ?case by (simp add: Cons.IH del rev_filter [symmetric])
qed

lemma normalize_cidrs_spec:
  "normalize_cidrs xs = rev (remdups (rev (filter (\<lambda>s. parse_prefix s \<noteq> None) xs)))"
  by (simp add: normalize_cidrs_def normalize_acc_spec)

lemma routes_addrs_normalize [simp]: "routes_addrs (normalize_cidrs xs) = routes_addrs xs"
  by (auto simp: routes_addrs_def normalize_cidrs_spec route_addrs_def split: option.splits) 

lemma is6_not_is4: "is6 a \<longleftrightarrow> \<not> is4 a"
  by (cases a) (simp_all add: is6_def is4_def)

lemma filter_ipv6_addrs:
  "routes_addrs (filter_ipv6_routes xs) = {a \<in> routes_addrs xs. is4 a}"
proof -
  have "a \<in> route_addrs r \<Longrightarrow> parse_prefix r = Some p \<Longrightarrow> is4 a = (\<not> is6 (pip p))" for a r p
    using parse_prefix_pwf [of r p]
    by (auto simp: route_addrs_def mem_pset same_family_def is6_not_is4)
  then show ?thesis
    by (auto simp: routes_addrs_def filter_ipv6_routes_def split: option.splits)
      (auto simp: route_addrs_def split: option.splits)
qed

lemma host_cidr_addrs:
  assumes "host_cidr s = Some c" and "parse_addr s = Some a" and "zone_of a = []"
  shows "route_addrs c = {a}"
proof -
  have "without_zone a = a" using assms(3) by (auto simp: without_zone_def zone_of_def split: addr.splits)
  moreover have "itoa 32 = ''32''" "itoa 128 = ''128''" by code_simp+
  ultimately have "c = show_prefix (host_prefix a)"
    using assms by (auto simp: host_cidr_def show_prefix_def host_prefix_def prefix_from_def is4_def
        is6_def split: addr.splits)
  then show ?thesis
    using route_addrs_show [OF pwf_host_prefix, of a] pset_host_prefix [of a] \<open>without_zone a = a\<close>
    by simp
qed

section \<open>Properties\<close>

text \<open>
  C26: when the inner network lies inside the outer one, \<open>subtractCIDR\<close> answers with the printed form
  of pairwise disjoint networks, one for every bit by which the inner prefix is longer, that cover
  exactly the addresses of the outer network outside the inner one.
\<close>

theorem subtract_cidr_complement:
  assumes "parse_prefix outer = Some p" and "parse_prefix inner = Some q"
    and "route_addrs inner \<subset> route_addrs outer"
  shows "\<exists>ps. subtract_cidr outer inner = Some (map show_prefix ps) \<and>
    length ps = pbits q - pbits p \<and> pbits p < pbits q \<and>
    sorted_wrt (\<lambda>p q. pset p \<inter> pset q = {}) ps \<and>
    (\<Union>r\<in>set ps. pset r) = route_addrs outer - route_addrs inner"
proof -
  have "pset (masked q) \<subseteq> pset (masked p)" "\<not> pset (masked p) \<subseteq> pset (masked q)"
    using assms by (auto simp: route_addrs_def)
  from subtract_cidr_cases(3) [OF assms(1,2) this] show ?thesis
    using assms(1,2) by (auto simp: carved_def route_addrs_def)
qed

theorem subtract_cidr_complement_witness:
  "\<exists>ps. subtract_cidr ''10.0.0.0/8'' ''10.9.8.7/32'' = Some (map show_prefix ps) \<and> length ps = 24"
proof -
  have p: "parse_prefix ''10.0.0.0/8'' = Some \<lparr>pip = V4 167772160, pbits = 8\<rparr>"
    "parse_prefix ''10.9.8.7/32'' = Some \<lparr>pip = V4 168364039, pbits = 32\<rparr>" by code_simp+
  have wf: "pwf (masked \<lparr>pip = V4 167772160, pbits = 8\<rparr>)" "pwf (masked \<lparr>pip = V4 168364039, pbits = 32\<rparr>)"
    using p parse_prefix_pwf by blast+
  have "contains_addr (masked \<lparr>pip = V4 167772160, pbits = 8\<rparr>) (V4 168364039)"
    "pip (masked \<lparr>pip = V4 168364039, pbits = 32\<rparr>) = V4 168364039" by code_simp+
  then have "pip (masked \<lparr>pip = V4 168364039, pbits = 32\<rparr>) \<in> pset (masked \<lparr>pip = V4 167772160, pbits = 8\<rparr>)"
    by (simp add: pset_def)
  have c: "contains_addr (masked \<lparr>pip = V4 167772160, pbits = 8\<rparr>) (V4 167772161)"
    "\<not> contains_addr (masked \<lparr>pip = V4 168364039, pbits = 32\<rparr>) (V4 167772161)" by code_simp+
  have sub: "pset (masked \<lparr>pip = V4 168364039, pbits = 32\<rparr>) \<subseteq> pset (masked \<lparr>pip = V4 167772160, pbits = 8\<rparr>)"
    using prefix_overlap(2) [OF wf \<open>pip _ \<in> _\<close> pip_in_pset [OF wf(2)]] by simp
  then have "route_addrs ''10.9.8.7/32'' \<subset> route_addrs ''10.0.0.0/8''"
    using c p by (auto simp: route_addrs_def pset_def)
  from subtract_cidr_complement [OF p this] show ?thesis by auto
qed

text \<open>
  \<open>ensureDNSAllowedIPs\<close> always answers: it keeps every route it is given, in place, and the
  routes it adds cover exactly the DNS servers that were not yet reachable; normalising afterwards
  changes no address, and the IPv6 filter keeps the IPv4 addresses only.
\<close>

theorem dns_servers_reachable:
  "\<exists>rs. ensure_dns_allowed_ips allowed dns = Some rs \<and> take (length allowed) rs = allowed \<and>
     routes_addrs rs = routes_addrs allowed \<union> without_zone ` set (dns_addrs dns) \<and>
     routes_addrs (normalize_cidrs rs) = routes_addrs rs \<and> distinct (normalize_cidrs rs) \<and>
     routes_addrs (filter_ipv6_routes rs) = {a \<in> routes_addrs rs. is4 a}"
proof -
  obtain rs where "ensure_dns_allowed_ips allowed dns = Some rs" "take (length allowed) rs = allowed"
    "routes_addrs rs = routes_addrs allowed \<union> without_zone ` set (dns_addrs dns)"
    using ensure_dns_spec by blast
  moreover have "distinct (normalize_cidrs rs)" by (simp add: normalize_cidrs_spec)
  ultimately show ?thesis by (simp add: filter_ipv6_addrs)
qed

end
