(* ===== verification/Crypto.thy ===== *)
theory Crypto
  imports GoStrings
begin

text \<open>
  Encodings and one-time passwords: \<open>crypto.go\<close> (base64, hex and base32 conversion, PKCS#7
  padding, key clamping, the v1 password encryption), \<open>totp.go\<close> (HOTP and TOTP) and
  \<open>genOTP\<close> of \<open>client.go\<close>. The cryptographic primitives (MD5, SHA-1, SHA-256, HMAC,
  AES-CBC, X25519) are parameters; what the code relies on is the length of their results.
  \<open>None\<close> is a Go panic where the code can index out of range or divide by zero.
\<close>

unbundle bit_operations_syntax

section \<open>Hexadecimal and base64\<close>

definition hex_digit :: "nat \<Rightarrow> char" where
  "hex_digit d = (if d < 10 then chr (48 + d) else chr (87 + d))"

definition hex_encode :: "bytes \<Rightarrow> string" where
  "hex_encode bs = concat (map (\<lambda>b. [hex_digit (byte b div 16), hex_digit (byte b mod 16)]) bs)"

definition b64_char :: "nat \<Rightarrow> char" where
  "b64_char n =
     (if n < 26 then chr (65 + n)
      else if n < 52 then chr (71 + n)
      else if n < 62 then chr (n - 4)
      else if n = 62 then CHR ''+'' else CHR ''/'')"

definition b64_val :: "char \<Rightarrow> nat option" where
  "b64_val c =
     (if is_upper c then Some (byte c - 65)
      else if is_lower c then Some (byte c - 71)
      else if is_digit c then Some (byte c + 4)
      else if c = CHR ''+'' then Some 62
      else if c = CHR ''/'' then Some 63
      else None)"

text \<open>\<open>base64.StdEncoding.EncodeToString\<close>\<close>

fun b64_encode :: "bytes \<Rightarrow> string" where
  "b64_encode [] = []"
| "b64_encode [a] =
     [b64_char (byte a div 4), b64_char (byte a mod 4 * 16), CHR ''='', CHR ''='']"
| "b64_encode [a, b] =
     [b64_char (byte a div 4), b64_char (byte a mod 4 * 16 + byte b div 16),
      b64_char (byte b mod 16 * 4), CHR ''='']"
| "b64_encode (a # b # c # r) =
     [b64_char (byte a div 4), b64_char (byte a mod 4 * 16 + byte b div 16),
      b64_char (byte b mod 16 * 4 + byte c div 64), b64_char (byte c mod 64)] @ b64_encode r"

text \<open>\<open>base64.StdEncoding.DecodeString\<close>: line ends are skipped, the input comes in groups
  of four, padding only at the end.\<close>

fun b64_groups :: "string \<Rightarrow> bytes option" where
  "b64_groups [] = Some []"
| "b64_groups (p # q # r # s # rest) =
     (case (b64_val p, b64_val q) of
        (Some i, Some j) \<Rightarrow>
          (case (b64_val r, b64_val s) of
             (Some k, Some l) \<Rightarrow>
               map_option (\<lambda>t. [chr (i * 4 + j div 16), chr (j mod 16 * 16 + k div 4),
                                chr (k mod 4 * 64 + l)] @ t) (b64_groups rest)
           | (Some k, None) \<Rightarrow>
               if s = CHR ''='' \<and> rest = []
               then Some [chr (i * 4 + j div 16), chr (j mod 16 * 16 + k div 4)] else None
           | (None, _) \<Rightarrow>
               if r = CHR ''='' \<and> s = CHR ''='' \<and> rest = []
               then Some [chr (i * 4 + j div 16)] else None)
      | _ \<Rightarrow> None)"
| "b64_groups _ = None"

definition is_line_end :: "char \<Rightarrow> bool" where
  "is_line_end c = (byte c = 10 \<or> byte c = 13)"

definition b64_decode :: "string \<Rightarrow> bytes option" where
  "b64_decode s = b64_groups (filter (\<lambda>c. \<not> is_line_end c) s)"

text \<open>\<open>b64DecodeToHex\<close> of \<open>crypto.go\<close>; \<open>None\<close> is its error.\<close>

definition b64_decode_to_hex :: "string \<Rightarrow> string option" where
  "b64_decode_to_hex s = map_option hex_encode (b64_decode s)"

section \<open>base32\<close>

definition b32_val :: "char \<Rightarrow> nat option" where
  "b32_val c =
     (if is_upper c then Some (byte c - 65)
      else if 50 \<le> byte c \<and> byte c \<le> 55 then Some (byte c - 24)
      else None)"

text \<open>The values of one group of eight characters: a run of digits, then padding. The decoder
  accepts 2, 4, 5 or 7 digits before the padding, or 8.\<close>

fun b32_quantum :: "string \<Rightarrow> nat list option" where
  "b32_quantum [] = Some []"
| "b32_quantum (c # s) =
     (case b32_val c of
        Some v \<Rightarrow> map_option ((#) v) (b32_quantum s)
      | None \<Rightarrow> if list_all (\<lambda>x. x = CHR ''='') (c # s) then Some [] else None)"

definition b32_bytes :: "nat list \<Rightarrow> bytes" where
  "b32_bytes vs =
     (let n = length vs * 5 div 8;
          v = be_val 32 (vs @ replicate (8 - length vs) 0)
      in map chr (take n (be_digits 256 5 v)))"

function b32_groups :: "string \<Rightarrow> bytes option" where
  "b32_groups s =
     (if s = [] then Some []
      else if length s < 8 then None
      else case b32_quantum (take 8 s) of
        None \<Rightarrow> None
      | Some vs \<Rightarrow>
          if length vs = 8 then map_option ((@) (b32_bytes vs)) (b32_groups (drop 8 s))
          else if length vs \<in> {2, 4, 5, 7} \<and> drop 8 s = [] then Some (b32_bytes vs)
          else None)"
  by pat_completeness auto
termination
  by (relation "measure length") auto

declare b32_groups.simps [simp del]

definition b32_decode :: "string \<Rightarrow> bytes option" where
  "b32_decode s = b32_groups (filter (\<lambda>c. \<not> is_line_end c) s)"

section \<open>Keys and password encryption\<close>

text \<open>The clamping of \<open>GenerateKeypair\<close>: bytes 0 and 31 of the random scalar.\<close>

definition clamp :: "u8 list \<Rightarrow> u8 list" where
  "clamp sk = sk[0 := (sk ! 0) AND 248, 31 := ((sk ! 31) AND 127) OR 64]"

definition u8s :: "bytes \<Rightarrow> u8 list" where
  "u8s bs = map (\<lambda>b. word_of_nat (byte b)) bs"

definition of_u8s :: "u8 list \<Rightarrow> bytes" where
  "of_u8s ws = map (\<lambda>w. chr (unat w)) ws"

text \<open>\<open>GenerateKeypair\<close>: the random bytes and X25519 with the base point are arguments; the
  result is the public and the private key.\<close>

definition generate_keypair ::
  "(bytes \<Rightarrow> bytes option) \<Rightarrow> bytes option \<Rightarrow> (string \<times> string) option" where
  "generate_keypair x25519 rnd =
     (case rnd of
        None \<Rightarrow> None
      | Some r \<Rightarrow>
          let sk = of_u8s (clamp (u8s r)) in
          (case x25519 sk of
             None \<Rightarrow> None
           | Some pk \<Rightarrow> Some (b64_encode pk, b64_encode sk)))"

definition public_key_from_private :: "(bytes \<Rightarrow> bytes option) \<Rightarrow> string \<Rightarrow> string option" where
  "public_key_from_private x25519 priv =
     (case b64_decode priv of
        None \<Rightarrow> None
      | Some raw \<Rightarrow>
          if length raw \<noteq> 32 then None else map_option b64_encode (x25519 raw))"

definition pkcs7_pad :: "bytes \<Rightarrow> nat \<Rightarrow> bytes" where
  "pkcs7_pad data blockSize =
     (let pad = blockSize - length data mod blockSize
      in data @ replicate pad (chr (pad mod 256)))"

text \<open>\<open>feilianV1EncryptPassword\<close>, over the primitives; the cipher takes key, IV and
  plaintext.\<close>

definition feilian_v1_encrypt ::
  "(bytes \<Rightarrow> bytes) \<Rightarrow> (bytes \<Rightarrow> bytes) \<Rightarrow> (bytes \<Rightarrow> bytes \<Rightarrow> bytes \<Rightarrow> bytes) \<Rightarrow> string \<Rightarrow> string" where
  "feilian_v1_encrypt md5 sha1 aes_cbc password =
     (let key = hex_encode (md5 ''9007199254740991'');
          iv = take 16 (hex_encode (sha1 key));
          plain = pkcs7_pad password 16
      in hex_encode (aes_cbc key iv plain))"

definition sha256_hex :: "(bytes \<Rightarrow> bytes) \<Rightarrow> string \<Rightarrow> string" where
  "sha256_hex sha256 s = hex_encode (sha256 s)"

section \<open>One-time passwords\<close>

text \<open>\<open>hotp\<close>: the modulus is computed by repeated 32-bit multiplication.\<close>

fun pow10 :: "nat \<Rightarrow> u32" where
  "pow10 0 = 1"
| "pow10 (Suc n) = pow10 n * 10"

definition hotp :: "(bytes \<Rightarrow> bytes \<Rightarrow> bytes) \<Rightarrow> bytes \<Rightarrow> u64 \<Rightarrow> nat \<Rightarrow> u32 option" where
  "hotp hmac key counter digits =
     (let sum = hmac key (map chr (be_digits 256 8 (unat counter))) in
      if sum = [] then None
      else
        let off = byte (last sum) mod 16 in
        if length sum < off + 4 then None
        else
          let value = (word_of_nat (be_val 256 (map byte (take 4 (drop off sum)))) :: u32)
                      AND 0x7fffffff;
              m = pow10 digits
          in if m = 0 then None else Some (value mod m))"

definition totp_digits :: nat where
  "totp_digits = 6"

definition totp_time_step :: nat where
  "totp_time_step = 30"

text \<open>\<open>totpOffset\<close> at the Unix time \<open>now\<close>: code and seconds left in the window.\<close>

definition totp_offset ::
  "(bytes \<Rightarrow> bytes \<Rightarrow> bytes) \<Rightarrow> bytes \<Rightarrow> nat \<Rightarrow> int \<Rightarrow> (u32 \<times> nat) option" where
  "totp_offset hmac key now slot_offset =
     (let slot = int (now div totp_time_step) + slot_offset
      in map_option (\<lambda>c. (c, totp_time_step - now mod totp_time_step))
           (hotp hmac key (word_of_int slot) totp_digits))"

datatype otp_error = DecodeSecret

text \<open>\<open>genOTP\<close> of \<open>client.go\<close>: the configured secret, the clock skew in seconds.\<close>

definition gen_otp ::
  "(bytes \<Rightarrow> bytes \<Rightarrow> bytes) \<Rightarrow> string \<Rightarrow> int \<Rightarrow> nat \<Rightarrow> (otp_error + string) option" where
  "gen_otp hmac code time_offset now =
     (if code = [] then Some (Inr [])
      else case b32_decode (to_upper code) of
        None \<Rightarrow> Some (Inl DecodeSecret)
      | Some key \<Rightarrow>
          map_option (\<lambda>(c, left). Inr (pad_zero 6 (itoa (unat c))))
            (totp_offset hmac key now (go_div time_offset (int totp_time_step))))"

section \<open>Lemmas\<close>

lemma b64_val_char [simp]: "n < 64 \<Longrightarrow> b64_val (b64_char n) = Some n"
proof -
  assume n: "n < 64"
  consider "n < 26" | "26 \<le> n" "n < 52" | "52 \<le> n" "n < 62" | "n = 62" | "n = 63"
    using n by linarith
  then show ?thesis
    by cases (auto simp: b64_val_def b64_char_def is_upper_def is_lower_def is_digit_def byte_def chr_def)
qed

lemma b64_char_no_line_end: "n < 64 \<Longrightarrow> \<not> is_line_end (b64_char n)"
  by (auto simp: b64_char_def is_line_end_def byte_def chr_def)

lemma b64_char_not_pad: "n < 64 \<Longrightarrow> b64_char n \<noteq> CHR ''=''"
  using b64_val_char [of n] by (auto simp: b64_val_def is_upper_def is_lower_def is_digit_def byte_def)

lemma b64_bits:
  fixes a b c :: nat
  assumes "a < 256" "b < 256" "c < 256"
  shows "a div 4 * 4 + (a mod 4 * 16 + b div 16) div 16 = a"
    and "(a mod 4 * 16 + b div 16) mod 16 * 16 + (b mod 16 * 4 + c div 64) div 4 = b"
    and "(b mod 16 * 4 + c div 64) mod 4 * 64 + c mod 64 = c"
proof -
  have "b div 16 < 16" "c div 64 < 4" using assms by (auto simp: div_less_iff_less_mult)
  then show "a div 4 * 4 + (a mod 4 * 16 + b div 16) div 16 = a"
    "(a mod 4 * 16 + b div 16) mod 16 * 16 + (b mod 16 * 4 + c div 64) div 4 = b"
    "(b mod 16 * 4 + c div 64) mod 4 * 64 + c mod 64 = c"
    using assms by (auto simp: div_mult_mod_eq mult.commute)
qed

lemma b64_ranges [simp]:
  "byte a div 4 < 64" "byte a mod 4 * 16 + byte b div 16 < 64"
  "byte b mod 16 * 4 + byte c div 64 < 64" "byte c mod 64 < 64"
  "byte a mod 4 * 16 < 64" "byte b mod 16 * 4 < 64"
proof -
  have "byte a div 4 < 64" "byte b div 16 < 16" "byte c div 64 < 4"
    using byte_bound [of a] byte_bound [of b] byte_bound [of c]
    by (simp_all add: div_less_iff_less_mult)
  moreover have "byte a mod 4 < 4" "byte b mod 16 < 16" "byte c mod 64 < 64" by simp_all
  ultimately show "byte a div 4 < 64" "byte a mod 4 * 16 + byte b div 16 < 64"
    "byte b mod 16 * 4 + byte c div 64 < 64" "byte c mod 64 < 64"
    "byte a mod 4 * 16 < 64" "byte b mod 16 * 4 < 64"
    by linarith+
qed

lemma b64_val_pad [simp]: "b64_val (CHR ''='') = None"
  by (simp add: b64_val_def is_upper_def is_lower_def is_digit_def byte_def)

lemma byte_div [simp]: "byte b div 16 div 16 = 0" "byte b div 64 div 4 = 0"
  "byte b div 16 mod 16 = byte b div 16" "byte b div 64 mod 4 = byte b div 64"
  using byte_bound [of b] by (simp_all add: div_less_iff_less_mult flip: div_mult2_eq)

lemma b64_groups_encode: "b64_groups (b64_encode bs) = Some bs"
  by (induction bs rule: b64_encode.induct) (simp_all add: div_mult_mod_eq b64_bits)

lemma is_line_end_pad [simp]: "\<not> is_line_end (CHR ''='')"
  by (simp add: is_line_end_def byte_def)

lemma b64_encode_no_line_end: "filter (\<lambda>c. \<not> is_line_end c) (b64_encode bs) = b64_encode bs"
proof (induction bs rule: b64_encode.induct)
qed (simp_all add: b64_char_no_line_end)

lemma b64_decode_encode [simp]: "b64_decode (b64_encode bs) = Some bs"
  by (simp add: b64_decode_def b64_encode_no_line_end b64_groups_encode)

lemma length_hex_encode [simp]: "length (hex_encode bs) = 2 * length bs"
  by (induction bs) (simp_all add: hex_encode_def)

lemma hex_digit_inject: "m < 16 \<Longrightarrow> n < 16 \<Longrightarrow> hex_digit m = hex_digit n \<longleftrightarrow> m = n"
  by (auto simp: hex_digit_def chr_inject split: if_splits)

lemma hex_digits_byte:
  "hex_digit (byte x div 16) = hex_digit (byte y div 16) \<and> hex_digit (byte x mod 16) = hex_digit (byte y mod 16)
     \<longleftrightarrow> x = y"
proof -
  have "byte x div 16 < 16" "byte y div 16 < 16" by (simp_all add: div_less_iff_less_mult)
  moreover have "byte x = byte y" if "byte x div 16 = byte y div 16" "byte x mod 16 = byte y mod 16"
    using that by (metis div_mult_mod_eq)
  ultimately show ?thesis by (auto simp: hex_digit_inject)
qed

lemma hex_encode_Cons:
  "hex_encode (x # xs) = hex_digit (byte x div 16) # hex_digit (byte x mod 16) # hex_encode xs"
  by (simp add: hex_encode_def)

lemma hex_encode_inject: "hex_encode xs = hex_encode ys \<longleftrightarrow> xs = ys"
proof (induction xs arbitrary: ys)
  case Nil
  then show ?case using length_hex_encode [of ys] by (cases ys) (auto simp: hex_encode_def)
next
  case (Cons x xs)
  show ?case
  proof (cases ys)
    case Nil
    then show ?thesis by (simp add: hex_encode_def)
  next
    case c: (Cons y zs)
    then show ?thesis
      using hex_digits_byte [of x y] Cons.IH [of zs] by (simp add: hex_encode_Cons) blast
  qed
qed

section \<open>Padding\<close>

lemma pkcs7_pad_amount:
  fixes d :: bytes
  assumes "0 < n" "n < 256"
  defines "pad \<equiv> n - length d mod n"
  shows "0 < pad" and "pad \<le> n" and "(length d + pad) mod n = 0" and "pad mod 256 = pad"
proof -
  have m: "length d mod n < n" using assms by simp
  then show "0 < pad" "pad \<le> n" "pad mod 256 = pad" using assms by auto
  have "length d + pad = n * (length d div n) + n"
    using m mult_div_mod_eq [of n "length d"] unfolding pad_def by linarith
  then show "(length d + pad) mod n = 0" by simp
qed

definition pkcs7_unpad :: "bytes \<Rightarrow> bytes" where
  "pkcs7_unpad p = take (length p - byte (last p)) p"

lemma pkcs7_spec:
  assumes "0 < n" "n < 256"
  shows "length (pkcs7_pad d n) mod n = 0" and "length d < length (pkcs7_pad d n)"
    and "pkcs7_unpad (pkcs7_pad d n) = d"
proof -
  note a = pkcs7_pad_amount [OF assms, of d]
  have p: "pkcs7_pad d n = d @ replicate (n - length d mod n) (chr (n - length d mod n))"
    using a(4) by (simp add: pkcs7_pad_def Let_def)
  show "length (pkcs7_pad d n) mod n = 0" "length d < length (pkcs7_pad d n)"
    using a(1,3) by (simp_all add: p)
  have "byte (last (pkcs7_pad d n)) = n - length d mod n"
    using a(1,4) by (simp add: p mod_eq_self_iff_div_eq_0 div_eq_0_iff)
  then show "pkcs7_unpad (pkcs7_pad d n) = d" by (simp add: pkcs7_unpad_def p)
qed

section \<open>Keys\<close>

lemma u8s_of_u8s [simp]: "u8s (of_u8s ws) = ws"
proof -
  have "word_of_nat (byte (chr (unat w))) = w" for w :: u8
  proof -
    have "unat w < 2 ^ LENGTH(8)" by (rule unsigned_less)
    then show ?thesis by simp
  qed
  then show ?thesis by (simp add: u8s_def of_u8s_def comp_def)
qed

lemma length_clamp [simp]: "length (clamp ws) = length ws"
  by (simp add: clamp_def Let_def)

lemma length_of_u8s [simp]: "length (of_u8s ws) = length ws" "length (u8s bs) = length bs"
  by (simp_all add: of_u8s_def u8s_def)

lemma bit_clamp:
  assumes "length ws = 32" "i < 32" "j < 8"
  shows "bit (clamp ws ! i) j =
    (if i = 0 \<and> j < 3 then False
     else if i = 31 \<and> j = 7 then False
     else if i = 31 \<and> j = 6 then True
     else bit (ws ! i) j)"
proof -
  have e: "248 = (NOT (mask 3) :: u8)" "127 = (mask 7 :: u8)" "64 = (push_bit 6 1 :: u8)"
    by (simp_all add: mask_eq_exp_minus_1 push_bit_eq_mult)
  have "bit (248 :: u8) j = (\<not> j < 3)"
    unfolding e(1) using assms(3) by (auto simp only: bit_simps) auto
  moreover have "bit (127 :: u8) j = (j \<noteq> 7)"
    unfolding e(2) using assms(3) by (auto simp only: bit_simps) auto
  moreover have "bit (64 :: u8) j = (j = 6)"
    unfolding e(3) using assms(3) by (auto simp only: bit_simps) auto
  moreover have "clamp ws ! i =
      (if i = 0 then ws ! 0 AND 248 else if i = 31 then (ws ! 31 AND 127) OR 64 else ws ! i)"
    using assms(1,2) by (simp add: clamp_def nth_list_update)
  ultimately show ?thesis
    using assms(3) by (simp add: bit_and_iff bit_or_iff)
qed

section \<open>One-time passwords are six digits\<close>

lemma hotp_value:
  assumes "length (hmac key (map chr (be_digits 256 8 (unat counter)))) = 20"
  shows "\<exists>v. hotp hmac key counter 6 = Some v \<and> unat v < 1000000"
proof -
  define sum where "sum = hmac key (map chr (be_digits 256 8 (unat counter)))"
  have len: "length sum = 20" using assms by (simp add: sum_def)
  then have ne: "sum \<noteq> []" by auto
  have off: "byte (last sum) mod 16 < 16" by simp
  have m: "pow10 6 = 1000000" by (simp add: numeral_eq_Suc)
  obtain v where v: "hotp hmac key counter 6 = Some (v mod 1000000)"
    using ne off len by (simp add: hotp_def m Let_def flip: sum_def)
  have "unat (v mod 1000000) < 1000000"
    by (simp add: unat_mod_distrib)
  with v show ?thesis by blast
qed

lemma go_div_bound: "0 < b \<Longrightarrow> \<bar>go_div a b\<bar> * b \<le> \<bar>a\<bar> \<and> \<bar>a\<bar> < (\<bar>go_div a b\<bar> + 1) * b"
proof -
  assume b: "0 < b"
  have "\<bar>go_div a b\<bar> = \<bar>a\<bar> div b"
    using b by (cases "a = 0") (simp_all add: go_div_def abs_mult sgn_if pos_imp_zdiv_nonneg_iff)
  moreover have "\<bar>a\<bar> div b * b \<le> \<bar>a\<bar>" "\<bar>a\<bar> < (\<bar>a\<bar> div b + 1) * b"
  proof -
    have "b * (\<bar>a\<bar> div b) + \<bar>a\<bar> mod b = \<bar>a\<bar>" "\<bar>a\<bar> mod b < b" "0 \<le> \<bar>a\<bar> mod b"
      using b by simp_all
    then show "\<bar>a\<bar> div b * b \<le> \<bar>a\<bar>" "\<bar>a\<bar> < (\<bar>a\<bar> div b + 1) * b"
      unfolding mult.commute [of _ b] distrib_left by linarith+
  qed
  ultimately show ?thesis by simp
qed

lemma totp_offset_spec:
  assumes "\<And>k m. length (hmac k m) = 20"
  shows "\<exists>c left. totp_offset hmac key now off = Some (c, left) \<and> unat c < 1000000 \<and>
    1 \<le> left \<and> left \<le> totp_time_step"
proof -
  obtain v where "hotp hmac key (word_of_int (int (now div totp_time_step) + off)) 6 = Some v"
    "unat v < 1000000"
    using hotp_value [of hmac key, OF assms] by blast
  moreover have "now mod totp_time_step < totp_time_step" by (simp add: totp_time_step_def)
  ultimately show ?thesis by (auto simp: totp_offset_def totp_digits_def Let_def)
qed

lemma six_digits:
  assumes "n < 1000000"
  shows "length (pad_zero 6 (itoa n)) = 6" and "list_all is_digit (pad_zero 6 (itoa n))"
    and "dec_val (pad_zero 6 (itoa n)) = n"
proof -
  have "length (itoa n) \<le> 6" using assms by (intro length_itoa) simp_all
  then show "length (pad_zero 6 (itoa n)) = 6" by (rule pad_zero_length)
  show "list_all is_digit (pad_zero 6 (itoa n))"
    using itoa_digits [of n] by (auto simp: pad_zero_def list_all_iff is_digit_def byte_def)
  show "dec_val (pad_zero 6 (itoa n)) = n" by simp
qed

section \<open>Properties\<close>

text \<open>
  C39: \<open>genOTP\<close> with an HMAC of 20 bytes never panics. Without a secret the code is empty, a
  secret that is no base32 is an error, and every other secret gives exactly six decimal digits.
\<close>

theorem gen_otp_six_digits:
  assumes "\<And>k m. length (hmac k m) = 20"
  shows "(code = [] \<longrightarrow> gen_otp hmac code skew now = Some (Inr [])) \<and>
    (code \<noteq> [] \<and> b32_decode (to_upper code) = None \<longrightarrow>
      gen_otp hmac code skew now = Some (Inl DecodeSecret)) \<and>
    (\<forall>key. code \<noteq> [] \<and> b32_decode (to_upper code) = Some key \<longrightarrow>
      (\<exists>otp. gen_otp hmac code skew now = Some (Inr otp) \<and> length otp = 6 \<and> list_all is_digit otp \<and>
        hotp hmac key (word_of_int (int (now div 30) + go_div skew 30)) 6 = Some (word_of_nat (dec_val otp))))"
proof (intro conjI allI impI)
  show "gen_otp hmac code skew now = Some (Inr [])" if "code = []"
    using that by (simp add: gen_otp_def)
  show "gen_otp hmac code skew now = Some (Inl DecodeSecret)"
    if "code \<noteq> [] \<and> b32_decode (to_upper code) = None"
    using that by (simp add: gen_otp_def)
next
  fix key
  assume k: "code \<noteq> [] \<and> b32_decode (to_upper code) = Some key"
  obtain v where v: "hotp hmac key (word_of_int (int (now div 30) + go_div skew 30)) 6 = Some v"
    "unat v < 1000000"
    using hotp_value [of hmac key, OF assms] by blast
  then have "gen_otp hmac code skew now = Some (Inr (pad_zero 6 (itoa (unat v))))"
    using k by (simp add: gen_otp_def totp_offset_def totp_digits_def totp_time_step_def)
  with v six_digits [OF v(2)] show "\<exists>otp. gen_otp hmac code skew now = Some (Inr otp) \<and>
      length otp = 6 \<and> list_all is_digit otp \<and>
      hotp hmac key (word_of_int (int (now div 30) + go_div skew 30)) 6 = Some (word_of_nat (dec_val otp))"
    by auto
qed

theorem gen_otp_six_digits_witness:
  "\<exists>otp. gen_otp (\<lambda>k m. replicate 20 (CHR ''a'')) ''jbswy3dp'' 31 1700000000 = Some (Inr otp) \<and> length otp = 6"
proof -
  have "b32_decode (to_upper ''jbswy3dp'') = Some ''Hello''" by code_simp
  then show ?thesis
    using gen_otp_six_digits [of "\<lambda>k m. replicate 20 (CHR ''a'')" "''jbswy3dp''" 31 1700000000] by auto
qed

text \<open>
  the key pair of \<open>GenerateKeypair\<close> is consistent with \<open>PublicKeyFromPrivate\<close>: deriving
  the public key of the private key it returns gives the public key it returns. The scalar is
  clamped: three low bits cleared, the top bit cleared, the bit below it set.
\<close>

theorem generate_keypair_consistent:
  assumes "length r = 32" and "generate_keypair x25519 (Some r) = Some (pub, priv)"
  shows "public_key_from_private x25519 priv = Some pub \<and>
    (\<exists>sk. b64_decode priv = Some (of_u8s sk) \<and> length sk = 32 \<and>
      (\<forall>j<3. \<not> bit (sk ! 0) j) \<and> \<not> bit (sk ! 31) 7 \<and> bit (sk ! 31) 6)"
proof -
  define sk where "sk = clamp (u8s r)"
  from assms(2) obtain pk where pk: "x25519 (of_u8s sk) = Some pk"
    "pub = b64_encode pk" "priv = b64_encode (of_u8s sk)"
    by (auto simp: generate_keypair_def Let_def sk_def split: option.splits)
  have len: "length sk = 32" using assms(1) by (simp add: sk_def)
  moreover have "public_key_from_private x25519 priv = Some pub"
    using pk len by (simp add: public_key_from_private_def)
  moreover have "\<forall>j<3. \<not> bit (sk ! 0) j" "\<not> bit (sk ! 31) 7" "bit (sk ! 31) 6"
    using bit_clamp [of "u8s r"] assms(1) by (simp_all add: sk_def)
  ultimately show ?thesis using pk by auto
qed

theorem generate_keypair_consistent_witness:
  "\<exists>pub priv. generate_keypair Some (Some (replicate 32 (CHR ''x''))) = Some (pub, priv) \<and>
     public_key_from_private Some priv = Some pub"
proof -
  obtain pub priv where "generate_keypair Some (Some (replicate 32 (CHR ''x''))) = Some (pub, priv)"
    by (auto simp: generate_keypair_def Let_def)
  then show ?thesis using generate_keypair_consistent [of "replicate 32 (CHR ''x'')" Some pub priv] by auto
qed

text \<open>
  \<open>feilianV1EncryptPassword\<close> calls the block cipher within its contract (a 32-byte key, a
  16-byte IV, a plaintext of whole blocks), for every password, and the padded plaintext
  determines the password.
\<close>

theorem feilian_v1_cipher_contract:
  assumes "\<And>m. length (md5 m) = 16" and "\<And>m. length (sha1 m) = 20"
  shows "\<exists>key iv plain. feilian_v1_encrypt md5 sha1 aes_cbc password = hex_encode (aes_cbc key iv plain) \<and>
    length key = 32 \<and> length iv = 16 \<and> plain \<noteq> [] \<and> length plain mod 16 = 0 \<and>
    pkcs7_unpad plain = password"
proof -
  define key where "key = hex_encode (md5 ''9007199254740991'')"
  define iv where "iv = take 16 (hex_encode (sha1 key))"
  have "length key = 32" "length iv = 16" by (simp_all add: key_def iv_def assms)
  moreover have "pkcs7_pad password 16 \<noteq> []" using pkcs7_spec(2) [of 16 password] by auto
  moreover have "feilian_v1_encrypt md5 sha1 aes_cbc password =
      hex_encode (aes_cbc key iv (pkcs7_pad password 16))"
    by (simp add: feilian_v1_encrypt_def Let_def key_def iv_def)
  moreover have "length (pkcs7_pad password 16) mod 16 = 0"
    "pkcs7_unpad (pkcs7_pad password 16) = password"
    using pkcs7_spec [of 16 password] by simp_all
  ultimately show ?thesis
    by (intro exI [of _ key] exI [of _ iv] exI [of _ "pkcs7_pad password 16"]) simp
qed

theorem feilian_v1_cipher_contract_witness:
  "\<exists>key iv plain. feilian_v1_encrypt (\<lambda>m. replicate 16 (CHR ''m'')) (\<lambda>m. replicate 20 (CHR ''s''))
     (\<lambda>k i p. p) ''secret'' = hex_encode plain \<and> length (key :: bytes) = 32 \<and> length (iv :: bytes) = 16 \<and>
     pkcs7_unpad plain = ''secret''"
  using feilian_v1_cipher_contract [of "\<lambda>m. replicate 16 (CHR ''m'')" "\<lambda>m. replicate 20 (CHR ''s'')"
      "\<lambda>k i p. p" "''secret''"] by auto

end
