(* ===== verification/Net.thy ===== *)
theory Net
  imports NetIP
begin

text \<open>
  What the program uses of Go's packages \<open>net\<close> and \<open>net/url\<close>: \<open>SplitHostPort\<close>,
  \<open>JoinHostPort\<close>, \<open>url.Parse\<close>, \<open>URL.Hostname\<close> and \<open>URL.String\<close>. Paths and queries are
  kept as they are written (the program never looks inside them); userinfo and host are
  unescaped and checked as the library does.
\<close>

section \<open>Host and port\<close>

definition split_host_port :: "string \<Rightarrow> (string \<times> string) option" where
  "split_host_port s =
     (case last_index_byte (CHR '':'') s of
        None \<Rightarrow> None
      | Some i \<Rightarrow>
          (case s of
             (CHR ''['') # r \<Rightarrow>
               (case index_byte (CHR '']'') s of
                  None \<Rightarrow> None
                | Some e \<Rightarrow>
                    if e + 1 = i \<and> CHR ''['' \<notin> set (drop 1 s) \<and> CHR '']'' \<notin> set (drop (e + 1) s)
                    then Some (take (e - 1) (drop 1 s), drop (i + 1) s) else None)
           | _ \<Rightarrow>
               if CHR '':'' \<in> set (take i s) \<or> CHR ''['' \<in> set s \<or> CHR '']'' \<in> set s then None
               else Some (take i s, drop (i + 1) s)))"

definition join_host_port :: "string \<Rightarrow> string \<Rightarrow> string" where
  "join_host_port host port =
     (if CHR '':'' \<in> set host then ''['' @ host @ '']:'' @ port else host @ '':'' @ port)"

section \<open>URLs\<close>

record userinfo =
  ui_name :: string
  ui_pass :: "string option"

record url =
  u_scheme :: string
  u_opaque :: string
  u_user :: "userinfo option"
  u_host :: string
  u_path :: string
  u_query :: "string option"
  u_fragment :: string

definition is_alpha :: "char \<Rightarrow> bool" where
  "is_alpha c = (is_upper c \<or> is_lower c)"

definition is_alnum :: "char \<Rightarrow> bool" where
  "is_alnum c = (is_alpha c \<or> is_digit c)"

text \<open>\<open>getScheme\<close>; the outer \<open>None\<close> is its error.\<close>

fun scheme_len :: "nat \<Rightarrow> string \<Rightarrow> nat option" where
  "scheme_len i [] = None"
| "scheme_len i (c # s) =
     (if is_alpha c \<or> (0 < i \<and> (is_digit c \<or> c \<in> {CHR ''+'', CHR ''-'', CHR ''.''}))
      then scheme_len (i + 1) s
      else if c = CHR '':'' then Some i else None)"

definition get_scheme :: "string \<Rightarrow> (string \<times> string) option" where
  "get_scheme s =
     (case scheme_len 0 s of
        None \<Rightarrow> Some ([], s)
      | Some 0 \<Rightarrow> None
      | Some n \<Rightarrow> Some (take n s, drop (n + 1) s))"

text \<open>\<open>unescape\<close>: percent decoding; in a host only non-ASCII bytes may be escaped.\<close>

fun unescape :: "bool \<Rightarrow> string \<Rightarrow> string option" where
  "unescape in_host [] = Some []"
| "unescape in_host (c # s) =
     (if c = CHR ''%'' then
        (case s of
           h # l # r \<Rightarrow>
             (case (hex_val h, hex_val l) of
                (Some a, Some b) \<Rightarrow>
                  if in_host \<and> a < 8 then None
                  else map_option ((#) (chr (a * 16 + b))) (unescape in_host r)
              | _ \<Rightarrow> None)
         | _ \<Rightarrow> None)
      else map_option ((#) c) (unescape in_host s))"

definition host_char :: "char \<Rightarrow> bool" where
  "host_char c = (128 \<le> byte c \<or> is_alnum c \<or> c \<in> set ''-_.~!$&()*+,;=:[]<>%'' \<or> byte c = 34 \<or> byte c = 39)"

definition userinfo_char :: "char \<Rightarrow> bool" where
  "userinfo_char c = (is_alnum c \<or> c \<in> set ''-._:~!$&()*+,;=%@'' \<or> byte c = 39)"

definition valid_optional_port :: "string \<Rightarrow> bool" where
  "valid_optional_port s =
     (case s of [] \<Rightarrow> True | c # r \<Rightarrow> c = CHR '':'' \<and> list_all is_digit r)"

text \<open>\<open>parseHost\<close>, without IPv6 zones.\<close>

definition parse_host :: "string \<Rightarrow> string option" where
  "parse_host h =
     (if (case h of (CHR ''['') # _ \<Rightarrow> True | _ \<Rightarrow> False) then
        (case last_index_byte (CHR '']'') h of
           None \<Rightarrow> None
         | Some i \<Rightarrow>
             if valid_optional_port (drop (i + 1) h) \<and> list_all host_char h
             then unescape True h else None)
      else
        (case last_index_byte (CHR '':'') h of
           None \<Rightarrow> if list_all host_char h then unescape True h else None
         | Some i \<Rightarrow>
             if valid_optional_port (drop i h) \<and> list_all host_char h
             then unescape True h else None))"

definition parse_userinfo :: "string \<Rightarrow> userinfo option" where
  "parse_userinfo s =
     (if \<not> list_all userinfo_char s then None
      else case cut_byte (CHR '':'') s of
        (n, p, True) \<Rightarrow>
          (case (unescape False n, unescape False p) of
             (Some n', Some p') \<Rightarrow> Some \<lparr>ui_name = n', ui_pass = Some p'\<rparr>
           | _ \<Rightarrow> None)
      | (n, _, False) \<Rightarrow> map_option (\<lambda>n'. \<lparr>ui_name = n', ui_pass = None\<rparr>) (unescape False n))"

definition parse_authority :: "string \<Rightarrow> (userinfo option \<times> string) option" where
  "parse_authority s =
     (case last_index_byte (CHR ''@'') s of
        None \<Rightarrow> map_option (Pair None) (parse_host s)
      | Some i \<Rightarrow>
          (case (parse_host (drop (i + 1) s), parse_userinfo (take i s)) of
             (Some h, Some u) \<Rightarrow> Some (Some u, h)
           | _ \<Rightarrow> None))"

definition is_ctl :: "char \<Rightarrow> bool" where
  "is_ctl c = (byte c < 32 \<or> byte c = 127)"

text \<open>\<open>url.Parse\<close>\<close>

definition url_parse :: "string \<Rightarrow> url option" where
  "url_parse raw =
     (let (s, frag, _) = cut_byte (CHR ''#'') raw in
      if list_all (\<lambda>c. \<not> is_ctl c) s then
        (case get_scheme s of
           None \<Rightarrow> None
         | Some (sch, rest0) \<Rightarrow>
             let (rest, q, hasq) = cut_byte (CHR ''?'') rest0;
                 mk = (\<lambda>opq usr h p. \<lparr>u_scheme = to_lower sch, u_opaque = opq, u_user = usr,
                   u_host = h, u_path = p, u_query = (if hasq then Some q else None),
                   u_fragment = frag\<rparr>)
             in if \<not> has_prefix rest ''/'' \<and> sch \<noteq> [] then Some (mk rest None [] [])
                else if \<not> has_prefix rest ''/'' \<and>
                    CHR '':'' \<in> set (fst (cut_byte (CHR ''/'') rest)) then None
                else if has_prefix rest ''//'' \<and> (sch \<noteq> [] \<or> \<not> has_prefix rest ''///'') then
                  (let a = drop 2 rest;
                       (auth, p) = (case index_byte (CHR ''/'') a of
                                      None \<Rightarrow> (a, []) | Some i \<Rightarrow> (take i a, drop i a))
                   in case (parse_authority auth, unescape False p) of
                        (Some (usr, h), Some _) \<Rightarrow> Some (mk [] usr h p)
                      | _ \<Rightarrow> None)
                else map_option (\<lambda>_. mk [] None [] rest) (unescape False rest))
      else None)"

text \<open>\<open>URL.Hostname\<close>\<close>

definition hostname :: "url \<Rightarrow> string" where
  "hostname u =
     (let h = u_host u;
          h1 = (case last_index_byte (CHR '':'') h of
                  None \<Rightarrow> h
                | Some i \<Rightarrow> if valid_optional_port (drop i h) then take i h else h)
      in if has_prefix h1 ''['' \<and> has_suffix h1 '']'' then take (length h1 - 2) (drop 1 h1) else h1)"

text \<open>\<open>URL.String\<close> of a URL whose userinfo, host and path need no escapes.\<close>

definition userinfo_string :: "userinfo \<Rightarrow> string" where
  "userinfo_string u = ui_name u @ (case ui_pass u of None \<Rightarrow> [] | Some p \<Rightarrow> '':'' @ p)"

definition url_string :: "url \<Rightarrow> string" where
  "url_string u =
     (if u_scheme u = [] then [] else u_scheme u @ '':'') @
     (if u_opaque u \<noteq> [] then u_opaque u
      else (if u_scheme u \<noteq> [] \<or> u_host u \<noteq> [] \<or> u_user u \<noteq> None then
              (if u_host u \<noteq> [] \<or> u_path u \<noteq> [] \<or> u_user u \<noteq> None then ''//'' else []) @
              (case u_user u of None \<Rightarrow> [] | Some i \<Rightarrow> userinfo_string i @ ''@'') @ u_host u
            else []) @
           (if u_path u \<noteq> [] \<and> \<not> has_prefix (u_path u) ''/'' \<and> u_host u \<noteq> [] then ''/'' else []) @
           u_path u) @
     (case u_query u of None \<Rightarrow> [] | Some q \<Rightarrow> ''?'' @ q) @
     (if u_fragment u = [] then [] else ''#'' @ u_fragment u)"

section \<open>Lemmas\<close>

lemma split_join_host_port:
  assumes "CHR ''['' \<notin> set h" "CHR '']'' \<notin> set h"
    and "CHR '':'' \<notin> set p" "CHR ''['' \<notin> set p" "CHR '']'' \<notin> set p"
  shows "split_host_port (join_host_port h p) = Some (h, p)"
proof (cases "CHR '':'' \<in> set h")
  case True
  have "last_index_byte (CHR '':'') ((''['' @ h @ '']'') @ CHR '':'' # p) = Some (length h + 2)"
    using assms by (subst last_index_byte_append) simp_all
  moreover have "index_byte (CHR '']'') ((CHR ''['' # h) @ CHR '']'' # CHR '':'' # p) = Some (length h + 1)"
    using assms by (subst index_byte_append) simp_all
  ultimately show ?thesis
    using assms True by (simp add: split_host_port_def join_host_port_def)
next
  case False
  have "last_index_byte (CHR '':'') (h @ CHR '':'' # p) = Some (length h)"
    using assms by simp
  moreover have "case h @ CHR '':'' # p of (CHR ''['') # r \<Rightarrow> False | _ \<Rightarrow> True"
    using assms by (cases h) (auto split: list.splits char.splits bool.splits)
  ultimately show ?thesis
    using assms False
    by (cases h) (auto simp: split_host_port_def join_host_port_def split: list.splits char.splits bool.splits)
qed

end
