(* ===== verification/Codec.thy ===== *)
theory Codec
  imports Prelude
begin

text \<open>
  The contract of a self-delimiting wire format: decoding an encoded value followed by anything
  gives the value back and leaves what follows. The target address of SOCKS5 is an interpretation
  (theory Socks5). The locale's lemmas are what a stream reader needs: the encoding is unambiguous, and a sequence of encoded values
  is read back one by one.
\<close>

text \<open>\<open>io.ReadFull\<close> on a stream whose remaining bytes are \<open>s\<close>; \<open>None\<close> when it ends early.\<close>

definition read_full :: "nat \<Rightarrow> bytes \<Rightarrow> (bytes \<times> bytes) option" where
  "read_full n s = (if length s < n then None else Some (take n s, drop n s))"

lemma read_full_append [simp]: "length a = n \<Longrightarrow> read_full n (a @ s) = Some (a, s)"
  by (auto simp: read_full_def)

lemma read_full_Some: "read_full n s = Some (a, r) \<longleftrightarrow> s = a @ r \<and> length a = n"
  by (auto simp: read_full_def split: if_splits)

fun decode_many :: "(bytes \<Rightarrow> ('b \<times> bytes) option) \<Rightarrow> nat \<Rightarrow> bytes \<Rightarrow> 'b list \<times> bytes" where
  "decode_many dec 0 s = ([], s)"
| "decode_many dec (Suc n) s =
     (case dec s of
        None \<Rightarrow> ([], s)
      | Some (x, r) \<Rightarrow> (case decode_many dec n r of (xs, r') \<Rightarrow> (x # xs, r')))"

locale codec =
  fixes enc :: "'a \<Rightarrow> bytes"
    and dec :: "bytes \<Rightarrow> ('b \<times> bytes) option"
    and norm :: "'a \<Rightarrow> 'b"
    and ok :: "'a \<Rightarrow> bool"
  assumes dec_enc: "ok x \<Longrightarrow> dec (enc x @ r) = Some (norm x, r)"
begin

lemma dec_enc_only: "ok x \<Longrightarrow> dec (enc x) = Some (norm x, [])"
  using dec_enc [of x "[]"] by simp

lemma enc_unambiguous:
  assumes "ok x" "ok y" "enc x @ r = enc y @ s"
  shows "norm x = norm y \<and> r = s"
  using dec_enc [OF assms(1), of r] dec_enc [OF assms(2), of s] assms(3) by simp

lemma decode_many_enc:
  assumes "\<forall>x \<in> set xs. ok x" and "dec r = None" and "length xs \<le> n"
  shows "decode_many dec n (concat (map enc xs) @ r) = (map norm xs, r)"
  using assms
proof (induction xs arbitrary: n)
  case Nil
  then show ?case by (cases n) auto
next
  case (Cons x xs)
  then obtain m where "n = Suc m" by (cases n) auto
  with Cons show ?case by (simp add: dec_enc)
qed

end

end
