(* ===== verification/Socks5.thy ===== *)
theory Socks5
  imports Net Codec
begin

text \<open>
  SOCKS5 on both sides. The server side is \<open>proxy.go\<close>: \<open>handleSocks5\<close>, \<open>socks5Auth\<close>,
  \<open>readSocksAddr\<close>, \<open>socks5Reply\<close>. The client side is \<open>upstream.go\<close>: \<open>socks5Connect\<close>,
  \<open>socks5Greet\<close>, \<open>socks5Request\<close>, \<open>socks5ReadAddr\<close>. A connection is what it will still
  deliver (\<open>rx\<close>, then end of file, a reset or the deadline), what has been written to it
  (\<open>tx\<close>) and how many writes succeed. The server ignores write errors, so for it the bytes
  written are a list.
\<close>

record conn =
  rx :: bytes
  tx :: bytes
  writes_left :: nat

definition conn_write :: "bytes \<Rightarrow> conn \<Rightarrow> conn option" where
  "conn_write b c =
     (if writes_left c = 0 then None
      else Some (c\<lparr>tx := tx c @ b, writes_left := writes_left c - 1\<rparr>))"

definition conn_read_full :: "nat \<Rightarrow> conn \<Rightarrow> (bytes \<times> conn) option" where
  "conn_read_full n c = map_option (\<lambda>(b, r). (b, c\<lparr>rx := r\<rparr>)) (read_full n (rx c))"

definition bytes_of :: "nat list \<Rightarrow> bytes" where
  "bytes_of ns = map chr ns"

definition be16 :: "bytes \<Rightarrow> u16" where
  "be16 b = word_of_nat (be_val 256 (map byte b))"

definition put_be16 :: "u16 \<Rightarrow> bytes" where
  "put_be16 w = bytes_of (be_digits 256 2 (unat w))"

section \<open>Addresses\<close>

definition ip4_bytes :: "u32 \<Rightarrow> bytes" where
  "ip4_bytes w = bytes_of (be_digits 256 4 (unat w))"

definition ip16_bytes :: "128 word \<Rightarrow> bytes" where
  "ip16_bytes w = bytes_of (be_digits 256 16 (unat w))"

text \<open>\<open>net.IP(buf)\<close> of four or sixteen bytes.\<close>

definition ip_of_bytes :: "bytes \<Rightarrow> addr" where
  "ip_of_bytes b =
     (if length b = 4 then V4 (word_of_nat (be_val 256 (map byte b)))
      else V6 (word_of_nat (be_val 256 (map byte b))) [])"

text \<open>\<open>IP.To4\<close>\<close>

definition to4 :: "addr \<Rightarrow> u32 option" where
  "to4 a = (case a of V4 w \<Rightarrow> Some w | V6 w _ \<Rightarrow> if is4in6 w then Some (low4 w) else None)"

definition ip_bits :: "addr \<Rightarrow> 128 word" where
  "ip_bits a = (case a of V4 w \<Rightarrow> ucast w | V6 w _ \<Rightarrow> w)"

datatype socks_err =
  DialFailed | WriteFailed | ReadFailed | BadVersion nat | AuthRequired | NoMethod nat
| BadAddr | BadPort string | DomainTooLong | ConnectFailed nat | UnknownAtyp nat

section \<open>The server (\<open>proxy.go\<close>)\<close>

record proxy_auth =
  au_user :: string
  au_pass :: string

definition required :: "proxy_auth option \<Rightarrow> bool" where
  "required a = (case a of None \<Rightarrow> False | Some x \<Rightarrow> au_user x \<noteq> [])"

definition contains_byte :: "bytes \<Rightarrow> nat \<Rightarrow> bool" where
  "contains_byte b t = list_ex (\<lambda>x. byte x = t) b"

definition socks5_reply :: "nat \<Rightarrow> bytes" where
  "socks5_reply code = bytes_of [5, code, 0, 1, 0, 0, 0, 0, 0, 0]"

text \<open>\<open>br.ReadByte\<close>\<close>

definition read_byte :: "bytes \<Rightarrow> (nat \<times> bytes) option" where
  "read_byte s = (case s of [] \<Rightarrow> None | c # r \<Rightarrow> Some (byte c, r))"

text \<open>A byte that counts the bytes after it.\<close>

definition read_counted :: "bytes \<Rightarrow> (bytes \<times> bytes) option" where
  "read_counted s = (case read_byte s of None \<Rightarrow> None | Some (n, r) \<Rightarrow> read_full n r)"

text \<open>\<open>socks5Auth\<close>: the bytes written, whether the client is accepted, the rest of the input.\<close>

definition socks5_auth :: "proxy_auth \<Rightarrow> bytes \<Rightarrow> bytes \<times> bool \<times> bytes" where
  "socks5_auth a s =
     (case read_byte s of
        None \<Rightarrow> ([], False, s)
      | Some (ver, s1) \<Rightarrow>
          if ver \<noteq> 1 then ([], False, s1)
          else case read_counted s1 of
            None \<Rightarrow> ([], False, s1)
          | Some (uname, s2) \<Rightarrow>
              (case read_counted s2 of
                 None \<Rightarrow> ([], False, s2)
               | Some (passwd, s3) \<Rightarrow>
                   let ok = (uname = au_user a \<and> passwd = au_pass a)
                   in (bytes_of [1, if ok then 0 else 1], ok, s3)))"

definition read_socks_addr :: "nat \<Rightarrow> bytes \<Rightarrow> (string \<times> bytes) option" where
  "read_socks_addr atyp s =
     (if atyp = 1 then map_option (\<lambda>(b, r). (show_ip (ip_of_bytes b), r)) (read_full 4 s)
      else if atyp = 3 then read_counted s
      else if atyp = 4 then map_option (\<lambda>(b, r). (show_ip (ip_of_bytes b), r)) (read_full 16 s)
      else None)"

text \<open>\<open>handleSocks5\<close> up to the dial: what the server writes and, when it goes on, the target
  and the input that is left for the relay.\<close>

record socks_target =
  t_host :: string
  t_port :: u16
  t_rest :: bytes

definition socks5_request_phase :: "bytes \<Rightarrow> bytes \<times> socks_target option" where
  "socks5_request_phase s =
     (case read_full 4 s of
        None \<Rightarrow> ([], None)
      | Some (h, s1) \<Rightarrow>
          if byte (h ! 0) \<noteq> 5 then ([], None)
          else if byte (h ! 1) \<noteq> 1 then (socks5_reply 7, None)
          else case read_socks_addr (byte (h ! 3)) s1 of
            None \<Rightarrow> (socks5_reply 8, None)
          | Some (host, s2) \<Rightarrow>
              (case read_full 2 s2 of
                 None \<Rightarrow> ([], None)
               | Some (pb, s3) \<Rightarrow> ([], Some \<lparr>t_host = host, t_port = be16 pb, t_rest = s3\<rparr>)))"

definition socks5_handshake :: "proxy_auth option \<Rightarrow> bytes \<Rightarrow> bytes \<times> socks_target option" where
  "socks5_handshake auth s =
     (case read_byte s of
        None \<Rightarrow> ([], None)
      | Some (ver, s1) \<Rightarrow>
          if ver \<noteq> 5 then ([], None)
          else case read_counted s1 of
            None \<Rightarrow> ([], None)
          | Some (methods, s2) \<Rightarrow>
              (case auth of
                 Some a \<Rightarrow>
                   if required auth then
                     if \<not> contains_byte methods 2 then (bytes_of [5, 255], None)
                     else (case socks5_auth a s2 of
                       (w, ok, s3) \<Rightarrow>
                         if \<not> ok then (bytes_of [5, 2] @ w, None)
                         else (case socks5_request_phase s3 of
                           (w', t) \<Rightarrow> (bytes_of [5, 2] @ w @ w', t)))
                   else (case socks5_request_phase s2 of (w', t) \<Rightarrow> (bytes_of [5, 0] @ w', t))
               | None \<Rightarrow> (case socks5_request_phase s2 of (w', t) \<Rightarrow> (bytes_of [5, 0] @ w', t))))"

text \<open>\<open>handleSocks5\<close>: the dial of the target decides between a refusal and the relay, which is
  handed the connection and the client bytes already read ahead.\<close>

definition handle_socks5 ::
  "proxy_auth option \<Rightarrow> (string \<Rightarrow> string \<Rightarrow> 'e + 'c) \<Rightarrow> bytes \<Rightarrow> bytes \<times> ('c \<times> bytes) option" where
  "handle_socks5 auth dial s =
     (case socks5_handshake auth s of
        (w, None) \<Rightarrow> (w, None)
      | (w, Some t) \<Rightarrow>
          (case dial (t_host t) (itoa (unat (t_port t))) of
             Inl e \<Rightarrow> (w @ socks5_reply 5, None)
           | Inr c \<Rightarrow> (w @ socks5_reply 0, Some (c, t_rest t))))"

section \<open>The client (\<open>upstream.go\<close>)\<close>

definition socks5_greet :: "string \<Rightarrow> conn \<Rightarrow> socks_err + conn" where
  "socks5_greet user c =
     (case conn_write (if user = [] then bytes_of [5, 1, 0] else bytes_of [5, 1, 2]) c of
        None \<Rightarrow> Inl WriteFailed
      | Some c1 \<Rightarrow>
          (case conn_read_full 2 c1 of
             None \<Rightarrow> Inl ReadFailed
           | Some (resp, c2) \<Rightarrow>
               if byte (resp ! 0) \<noteq> 5 then Inl (BadVersion (byte (resp ! 0)))
               else if byte (resp ! 1) = 0 then Inr c2
               else if byte (resp ! 1) = 2 then Inl AuthRequired
               else Inl (NoMethod (byte (resp ! 1)))))"

definition socks5_host_bytes :: "string \<Rightarrow> bytes option" where
  "socks5_host_bytes host =
     (case parse_ip host of
        Some ip \<Rightarrow>
          (case to4 ip of
             Some w \<Rightarrow> Some (chr 1 # ip4_bytes w)
           | None \<Rightarrow> Some (chr 4 # ip16_bytes (ip_bits ip)))
      | None \<Rightarrow> if 255 < length host then None else Some (chr 3 # chr (length host) # host))"

definition socks5_request :: "nat \<Rightarrow> string \<Rightarrow> socks_err + bytes" where
  "socks5_request cmd addr =
     (case split_host_port addr of
        None \<Rightarrow> Inl BadAddr
      | Some (host, portStr) \<Rightarrow>
          (case atoi portStr of
             None \<Rightarrow> Inl (BadPort portStr)
           | Some port \<Rightarrow>
               (case socks5_host_bytes host of
                  None \<Rightarrow> Inl DomainTooLong
                | Some hb \<Rightarrow> Inr (bytes_of [5, cmd, 0] @ hb @ put_be16 (word_of_int port)))))"

definition socks5_read_addr :: "nat \<Rightarrow> conn \<Rightarrow> socks_err + (string \<times> u16 \<times> conn)" where
  "socks5_read_addr atyp c =
     (if atyp \<noteq> 1 \<and> atyp \<noteq> 3 \<and> atyp \<noteq> 4 then Inl (UnknownAtyp atyp)
      else case (if atyp = 3 then read_counted (rx c)
                 else map_option (\<lambda>(b, r). (show_ip (ip_of_bytes b), r))
                        (read_full (if atyp = 1 then 4 else 16) (rx c))) of
        None \<Rightarrow> Inl ReadFailed
      | Some (host, r) \<Rightarrow>
          (case read_full 2 r of
             None \<Rightarrow> Inl ReadFailed
           | Some (pb, r') \<Rightarrow> Inr (host, be16 pb, c\<lparr>rx := r'\<rparr>)))"

text \<open>\<open>socks5Connect\<close>; the dial of the proxy itself is an argument.\<close>

definition socks5_connect :: "conn option \<Rightarrow> string \<Rightarrow> string \<Rightarrow> socks_err + conn" where
  "socks5_connect dialled user addr =
     (case dialled of
        None \<Rightarrow> Inl DialFailed
      | Some c \<Rightarrow>
          bind_res (socks5_greet user c) (\<lambda>c1.
          bind_res (socks5_request 1 addr) (\<lambda>req.
          case conn_write req c1 of
            None \<Rightarrow> Inl WriteFailed
          | Some c2 \<Rightarrow>
              (case conn_read_full 4 c2 of
                 None \<Rightarrow> Inl ReadFailed
               | Some (rep, c3) \<Rightarrow>
                   if byte (rep ! 1) \<noteq> 0 then Inl (ConnectFailed (byte (rep ! 1)))
                   else bind_res (socks5_read_addr (byte (rep ! 3)) c3) (\<lambda>(_, _, c4). Inr c4)))))"

section \<open>Wire formats\<close>

lemma map_byte_bytes_of [simp]: "\<forall>n \<in> set ns. n < 256 \<Longrightarrow> map byte (bytes_of ns) = ns"
  by (induction ns) (auto simp: bytes_of_def)

lemma length_bytes_of [simp]: "length (bytes_of ns) = length ns"
  by (simp add: bytes_of_def)

lemma bytes_of_Cons [simp]: "bytes_of (n # ns) = chr n # bytes_of ns" "bytes_of [] = []"
  by (simp_all add: bytes_of_def)

lemma be_val_bytes [simp]: "be_val 256 (map byte (bytes_of (be_digits 256 n v))) = v mod 256 ^ n"
  by (simp add: be_digits_bound be_val_digits)

lemma word_be_val:
  fixes w :: "'a :: len word"
  assumes "256 ^ n = (2 :: nat) ^ LENGTH('a)"
  shows "word_of_nat (be_val 256 (map byte (bytes_of (be_digits 256 n (unat w))))) = w"
proof -
  have "unat w < 2 ^ LENGTH('a)" by (rule unsigned_less)
  then show ?thesis by (simp add: assms)
qed

lemma be16_put [simp]: "be16 (put_be16 w) = w"
  unfolding be16_def put_be16_def by (rule word_be_val) simp

lemma length_put_be16 [simp]: "length (put_be16 w) = 2"
  by (simp add: put_be16_def)

lemma ip_of_ip4_bytes [simp]: "ip_of_bytes (ip4_bytes w) = V4 w"
proof -
  have "(256 :: nat) ^ 4 = 2 ^ LENGTH(32)" by simp
  from word_be_val [OF this] show ?thesis by (simp add: ip_of_bytes_def ip4_bytes_def)
qed

lemma ip_of_ip16_bytes [simp]: "ip_of_bytes (ip16_bytes w) = V6 w []"
proof -
  have "(256 :: nat) ^ 16 = 2 ^ LENGTH(128)" by simp
  from word_be_val [OF this] show ?thesis by (simp add: ip_of_bytes_def ip16_bytes_def)
qed

lemma length_ip_bytes [simp]: "length (ip4_bytes w) = 4" "length (ip16_bytes v) = 16"
  by (simp_all add: ip4_bytes_def ip16_bytes_def)

lemma read_counted_Some:
  "read_counted s = Some (a, r) \<longleftrightarrow> s = chr (length a) # a @ r \<and> length a < 256"
  by (cases s) (auto simp: read_counted_def read_byte_def read_full_Some)

lemma read_counted_append [simp]:
  "length a < 256 \<Longrightarrow> read_counted (chr (length a) # a @ r) = Some (a, r)"
  by (simp add: read_counted_Some)

text \<open>The host as the server reads it back: an IP literal in its canonical spelling, with an
  IPv4-mapped address as IPv4, and every other name unchanged.\<close>

definition host_canon :: "string \<Rightarrow> string" where
  "host_canon h = (case parse_ip h of Some ip \<Rightarrow> show_ip ip | None \<Rightarrow> h)"

lemma host_bytes_read:
  assumes "socks5_host_bytes host = Some hb"
  shows "\<exists>t b. hb = chr t # b \<and> t \<in> {1, 3, 4} \<and>
    (\<forall>r. read_socks_addr t (b @ r) = Some (host_canon host, r))"
proof (cases "parse_ip host")
  case None
  then have "hb = chr 3 # chr (length host) # host" "length host < 256"
    using assms by (auto simp: socks5_host_bytes_def split: if_splits)
  then show ?thesis
    using None by (intro exI [of _ 3] exI [of _ "chr (length host) # host"])
      (simp add: read_socks_addr_def host_canon_def)
next
  case (Some ip)
  show ?thesis
  proof (cases "to4 ip")
    case None
    then obtain w z where ip: "ip = V6 w z" "\<not> is4in6 w" by (cases ip) (auto simp: to4_def split: if_splits)
    then show ?thesis
      using assms Some None by (intro exI [of _ 4] exI [of _ "ip16_bytes w"])
        (simp add: socks5_host_bytes_def read_socks_addr_def host_canon_def ip_bits_def show_ip_def)
  next
    case t: (Some w)
    then have "show_ip ip = show_ip (V4 w)"
      by (cases ip) (auto simp: to4_def show_ip_def split: if_splits)
    then show ?thesis
      using assms Some t by (intro exI [of _ 1] exI [of _ "ip4_bytes w"])
        (simp add: socks5_host_bytes_def read_socks_addr_def host_canon_def)
  qed
qed

text \<open>The address block of a request, as the client writes it and the server reads it.\<close>

definition enc_target :: "string \<times> u16 \<Rightarrow> bytes" where
  "enc_target = (\<lambda>(h, p). (case socks5_host_bytes h of None \<Rightarrow> [] | Some hb \<Rightarrow> hb) @ put_be16 p)"

definition dec_target :: "bytes \<Rightarrow> ((string \<times> u16) \<times> bytes) option" where
  "dec_target s =
     (case read_byte s of
        None \<Rightarrow> None
      | Some (t, s1) \<Rightarrow>
          (case read_socks_addr t s1 of
             None \<Rightarrow> None
           | Some (h, s2) \<Rightarrow> map_option (\<lambda>(pb, s3). ((h, be16 pb), s3)) (read_full 2 s2)))"

definition target_ok :: "string \<times> u16 \<Rightarrow> bool" where
  "target_ok = (\<lambda>(h, p). socks5_host_bytes h \<noteq> None)"

interpretation target: codec enc_target dec_target "\<lambda>(h, p). (host_canon h, p)" target_ok
proof unfold_locales
  fix x r
  assume ok: "target_ok x"
  obtain h p where x: "x = (h, p)" by (cases x)
  with ok obtain hb where hb: "socks5_host_bytes h = Some hb" by (auto simp: target_ok_def)
  then obtain t b where t: "hb = chr t # b" "t \<in> {1, 3, 4}"
    "\<forall>r. read_socks_addr t (b @ r) = Some (host_canon h, r)"
    using host_bytes_read by blast
  then have "byte (chr t) = t" by auto
  with t hb show "dec_target (enc_target x @ r) = Some (case x of (h, p) \<Rightarrow> (host_canon h, p), r)"
    by (simp add: x enc_target_def dec_target_def read_byte_def)
qed

lemma request_phase_target:
  assumes "length h = 3" "byte (h ! 0) = 5" "byte (h ! 1) = 1" "dec_target s = Some ((host, port), r)"
  shows "socks5_request_phase (h @ s) = ([], Some \<lparr>t_host = host, t_port = port, t_rest = r\<rparr>)"
proof -
  from assms(4) obtain c s1 where s: "s = c # s1" by (cases s) (auto simp: dec_target_def read_byte_def)
  have "read_full 4 (h @ s) = Some (h @ [c], s1)" using assms(1) by (simp add: read_full_Some s)
  moreover have "(h @ [c]) ! 3 = c" "(h @ [c]) ! 0 = h ! 0" "(h @ [c]) ! 1 = h ! 1"
    using assms(1) by (simp_all add: nth_append)
  ultimately show ?thesis
    using assms(2-4) by (auto simp: socks5_request_phase_def dec_target_def s read_byte_def
        split: option.splits)
qed

section \<open>Authentication\<close>

lemma socks5_auth_True:
  assumes "socks5_auth a s = (w, True, r)"
  shows "w = bytes_of [1, 0] \<and> length (au_user a) < 256 \<and> length (au_pass a) < 256 \<and>
     s = chr 1 # chr (length (au_user a)) # au_user a @ chr (length (au_pass a)) # au_pass a @ r"
  using assms
  by (cases s) (auto simp: socks5_auth_def read_byte_def read_counted_Some Let_def byte_eq_iff
      split: option.splits if_splits)

lemma socks5_auth_intro:
  assumes "length (au_user a) < 256" "length (au_pass a) < 256"
  shows "socks5_auth a (chr 1 # chr (length (au_user a)) # au_user a @
      chr (length (au_pass a)) # au_pass a @ r) = (bytes_of [1, 0], True, r)"
  using assms by (simp add: socks5_auth_def read_byte_def)

lemma request_phase_no_output: "socks5_request_phase s = (w, Some t) \<Longrightarrow> w = []"
  by (auto simp: socks5_request_phase_def split: option.splits if_splits prod.splits)

lemma handshake_auth:
  assumes "required (Some a)" and "socks5_handshake (Some a) s = (w, Some t)"
  shows "\<exists>methods s'. s = chr 5 # chr (length methods) # methods @
      chr 1 # chr (length (au_user a)) # au_user a @ chr (length (au_pass a)) # au_pass a @ s' \<and>
    chr 2 \<in> set methods \<and> socks5_request_phase s' = ([], Some t) \<and> w = bytes_of [5, 2, 1, 0]"
proof -
  have b5: "byte c = 5 \<longleftrightarrow> c = chr 5" and b2: "byte c = 2 \<longleftrightarrow> c = chr 2" for c
    by (simp_all add: byte_eq_iff)
  from assms obtain s1 where s: "s = chr 5 # s1"
    by (cases s) (auto simp: socks5_handshake_def read_byte_def b5 split: if_splits)
  from assms obtain methods s2 where m: "read_counted s1 = Some (methods, s2)"
    by (auto simp: socks5_handshake_def s read_byte_def split: option.splits if_splits)
  with assms have two: "contains_byte methods 2"
    by (auto simp: socks5_handshake_def s read_byte_def split: if_splits)
  obtain w1 ok s3 where au: "socks5_auth a s2 = (w1, ok, s3)" by (cases "socks5_auth a s2") auto
  with assms m two have ok: "ok" by (auto simp: socks5_handshake_def s read_byte_def split: if_splits)
  obtain w2 t2 where rp: "socks5_request_phase s3 = (w2, t2)" by fastforce
  with assms m two au ok have t: "t2 = Some t" "w = bytes_of [5, 2] @ w1 @ w2"
    by (auto simp: socks5_handshake_def s read_byte_def)
  with rp have w2: "w2 = []" using request_phase_no_output by blast
  from au ok have "s2 = chr 1 # chr (length (au_user a)) # au_user a @ chr (length (au_pass a)) # au_pass a @ s3"
    "w1 = bytes_of [1, 0]"
    using socks5_auth_True [of a s2 w1 s3] by simp_all
  moreover have "chr 2 \<in> set methods" using two by (auto simp: contains_byte_def list_ex_iff b2)
  ultimately show ?thesis using s m t w2 rp by (auto simp: read_counted_Some)
qed

text \<open>The start of a client that presents the configured credentials.\<close>

definition presents :: "proxy_auth \<Rightarrow> bytes \<Rightarrow> bool" where
  "presents a s =
     (\<exists>methods r. s = chr 5 # chr (length methods) # methods @
        chr 1 # chr (length (au_user a)) # au_user a @ chr (length (au_pass a)) # au_pass a @ r \<and>
        chr 2 \<in> set methods)"

lemma handshake_refused: "required (Some a) \<Longrightarrow> \<not> presents a s \<Longrightarrow> snd (socks5_handshake (Some a) s) = None"
  using handshake_auth [of a s] unfolding presents_def
  by (cases "socks5_handshake (Some a) s"; cases "snd (socks5_handshake (Some a) s)") auto

section \<open>The client's request\<close>

lemma atoi_port: "atoi (itoa (unat (port :: u16))) = Some (int (unat port))"
proof -
  have "unat port < 2 ^ LENGTH(16)" by (rule unsigned_less)
  then have "int (unat port) < 9223372036854775808" by (simp del: of_nat_unat)
  then show ?thesis by (rule atoi_itoa)
qed

lemma itoa_plain:
  "CHR '':'' \<notin> set (itoa n)" "CHR ''['' \<notin> set (itoa n)" "CHR '']'' \<notin> set (itoa n)"
  using itoa_digits_set [of "CHR '':''" n] itoa_digits_set [of "CHR ''[''" n] itoa_digits_set [of "CHR '']''" n]
  by (auto simp: is_digit_def byte_def)

lemma socks5_request_join:
  assumes "CHR ''['' \<notin> set h" "CHR '']'' \<notin> set h" "target_ok (h, port)"
  shows "socks5_request cmd (join_host_port h (itoa (unat port))) =
    Inr (bytes_of [5, cmd, 0] @ enc_target (h, port))"
  using assms split_join_host_port [OF assms(1,2) itoa_plain] atoi_port [of port]
  by (auto simp: socks5_request_def target_ok_def enc_target_def)

lemma handshake_open:
  assumes "target_ok (h, port)"
  shows "socks5_handshake None (bytes_of [5, 1, 0] @ (bytes_of [5, 1, 0] @ enc_target (h, port)) @ r) =
    (bytes_of [5, 0], Some \<lparr>t_host = host_canon h, t_port = port, t_rest = r\<rparr>)"
proof -
  have "dec_target (enc_target (h, port) @ r) = Some ((host_canon h, port), r)"
    using target.dec_enc [OF assms, of r] by simp
  then have "socks5_request_phase (bytes_of [5, 1, 0] @ enc_target (h, port) @ r) =
      ([], Some \<lparr>t_host = host_canon h, t_port = port, t_rest = r\<rparr>)"
    by (intro request_phase_target) simp_all
  moreover have "read_counted (chr 1 # chr 0 # q) = Some ([chr 0], q)" for q
    using read_counted_append [of "[chr 0]" q] by simp
  ultimately show ?thesis by (simp add: socks5_handshake_def read_byte_def)
qed

lemma reply_read:
  "conn_read_full 4 (c\<lparr>rx := socks5_reply code @ r\<rparr>) =
     Some (bytes_of [5, code, 0, 1], c\<lparr>rx := bytes_of [0, 0, 0, 0, 0, 0] @ r\<rparr>)"
  by (simp add: conn_read_full_def read_full_def socks5_reply_def numeral_eq_Suc)

lemma reply_addr_read:
  "\<exists>h p. socks5_read_addr 1 (c\<lparr>rx := bytes_of [0, 0, 0, 0, 0, 0] @ r\<rparr>) = Inr (h, p, c\<lparr>rx := r\<rparr>)"
  by (simp add: socks5_read_addr_def read_full_def numeral_eq_Suc)

lemma socks5_connect_replies:
  assumes "socks5_request 1 addr = Inr req" and "code < 256"
  shows "socks5_connect (Some \<lparr>rx = bytes_of [5, 0] @ socks5_reply code @ r, tx = [], writes_left = Suc (Suc n)\<rparr>) [] addr =
    (if code = 0 then Inr \<lparr>rx = r, tx = bytes_of [5, 1, 0] @ req, writes_left = n\<rparr>
     else Inl (ConnectFailed code))"
proof -
  let ?c1 = "\<lparr>rx = socks5_reply code @ r, tx = bytes_of [5, 1, 0], writes_left = Suc n\<rparr>"
  let ?c2 = "\<lparr>rx = [], tx = bytes_of [5, 1, 0] @ req, writes_left = n\<rparr>"
  have g: "socks5_greet [] \<lparr>rx = bytes_of [5, 0] @ socks5_reply code @ r, tx = [], writes_left = Suc (Suc n)\<rparr> = Inr ?c1"
    by (simp add: socks5_greet_def conn_write_def conn_read_full_def read_full_def numeral_eq_Suc)
  have w: "conn_write req ?c1 = Some (?c2\<lparr>rx := socks5_reply code @ r\<rparr>)"
    by (simp add: conn_write_def)
  show ?thesis
    using reply_addr_read [where c = ?c2 and r = r] assms(2)
      reply_read [where c = ?c2 and r = r and code = code]
    by (auto simp: socks5_connect_def g assms(1) w simp del: bytes_of_Cons One_nat_def)
      (simp_all add: bytes_of_Cons)
qed

lemma greet_tx:
  "socks5_greet user c = Inr c' \<Longrightarrow> tx c' = tx c @ bytes_of [5, 1, if user = [] then 0 else 2]"
  by (auto simp: socks5_greet_def conn_write_def conn_read_full_def split: option.splits if_splits)

lemma conn_read_tx: "conn_read_full n c = Some (b, c') \<Longrightarrow> tx c' = tx c"
  by (auto simp: conn_read_full_def)

lemma read_addr_tx: "socks5_read_addr t c = Inr (h, p, c') \<Longrightarrow> tx c' = tx c"
  by (auto simp: socks5_read_addr_def split: option.splits if_splits)

lemma connect_success:
  assumes "socks5_connect (Some c) user addr = Inr c'"
  shows "\<exists>c1 req. socks5_greet user c = Inr c1 \<and> socks5_request 1 addr = Inr req \<and> tx c' = tx c1 @ req"
proof -
  from assms obtain c1 where g: "socks5_greet user c = Inr c1"
    by (cases "socks5_greet user c") (auto simp: socks5_connect_def)
  from assms g obtain req where r: "socks5_request 1 addr = Inr req"
    by (cases "socks5_request 1 addr") (auto simp: socks5_connect_def)
  from assms g r obtain c2 where w: "conn_write req c1 = Some c2"
    by (cases "conn_write req c1") (auto simp: socks5_connect_def)
  from assms g r w obtain rep c3 where f: "conn_read_full 4 c2 = Some (rep, c3)"
    by (cases "conn_read_full 4 c2") (auto simp: socks5_connect_def)
  from assms g r w f obtain h p where "socks5_read_addr (byte (rep ! 3)) c3 = Inr (h, p, c')"
    by (auto simp: socks5_connect_def bind_res_Inr split: if_splits)
  then have "tx c' = tx c3" by (rule read_addr_tx)
  moreover have "tx c3 = tx c2" using f by (rule conn_read_tx)
  moreover have "tx c2 = tx c1 @ req" using w by (auto simp: conn_write_def split: if_splits)
  ultimately show ?thesis using g r by auto
qed

section \<open>Properties\<close>

text \<open>
  C17: when proxy credentials are configured, a SOCKS5 client that does not present them gets no
  connection, and nothing is dialled for it: the outcome does not depend on what a dial would do.
\<close>

theorem socks5_auth_gate:
  assumes "required (Some a)" and "\<not> presents a s"
  shows "snd (handle_socks5 (Some a) dial s) = None \<and>
    handle_socks5 (Some a) dial s = handle_socks5 (Some a) dial' s"
  using handshake_refused [OF assms] by (auto simp: handle_socks5_def split: prod.splits option.splits)

theorem socks5_auth_gate_witness:
  "snd (handle_socks5 (Some \<lparr>au_user = ''u'', au_pass = ''p''\<rparr>) (\<lambda>h p. Inr () :: string + unit)
     (bytes_of [5, 1, 0, 5, 1, 0, 1, 1, 2, 3, 4, 0, 80])) = None"
proof -
  have "\<not> presents \<lparr>au_user = ''u'', au_pass = ''p''\<rparr> (bytes_of [5, 1, 0, 5, 1, 0, 1, 1, 2, 3, 4, 0, 80])"
  proof
    assume "presents \<lparr>au_user = ''u'', au_pass = ''p''\<rparr> (bytes_of [5, 1, 0, 5, 1, 0, 1, 1, 2, 3, 4, 0, 80])"
    then obtain methods r where m: "[chr 1, chr 0, chr 5, chr 1, chr 0, chr 1, chr 1, chr 2, chr 3, chr 4, chr 0, chr 80] =
        chr (length methods) # methods @ chr 1 # r" "chr 2 \<in> set methods"
      by (auto simp: presents_def)
    then have len: "length methods \<le> 10" by (auto dest: arg_cong [where f = length])
    with m have "length methods = 1" by (simp add: chr_inject)
    then show False using m by (auto simp: length_Suc_conv chr_inject)
  qed
  moreover have "required (Some \<lparr>au_user = ''u'', au_pass = ''p''\<rparr>)" by (simp add: required_def)
  ultimately show ?thesis by (simp add: socks5_auth_gate [THEN conjunct1])
qed

text \<open>
  C35: the two SOCKS5 implementations agree. A request that \<open>socks5Connect\<close> writes for a target is
  read by \<open>handleSocks5\<close> as that target (an IP literal in canonical form), nothing of the
  payload behind it is consumed, and the client reports success exactly when the dial succeeded,
  with the server's payload unread.
\<close>

theorem socks5_client_server_agree:
  assumes "CHR ''['' \<notin> set h" "CHR '']'' \<notin> set h" "target_ok (h, port)"
  shows "\<exists>req. socks5_request 1 (join_host_port h (itoa (unat port))) = Inr req \<and>
    (case dial (host_canon h) (itoa (unat port)) of
       Inr c \<Rightarrow>
         handle_socks5 None dial (bytes_of [5, 1, 0] @ req @ payload) =
           (bytes_of [5, 0] @ socks5_reply 0, Some (c, payload)) \<and>
         socks5_connect (Some \<lparr>rx = bytes_of [5, 0] @ socks5_reply 0 @ data, tx = [], writes_left = Suc (Suc n)\<rparr>)
             [] (join_host_port h (itoa (unat port))) =
           Inr \<lparr>rx = data, tx = bytes_of [5, 1, 0] @ req, writes_left = n\<rparr>
     | Inl e \<Rightarrow>
         handle_socks5 None dial (bytes_of [5, 1, 0] @ req @ payload) =
           (bytes_of [5, 0] @ socks5_reply 5, None) \<and>
         socks5_connect (Some \<lparr>rx = bytes_of [5, 0] @ socks5_reply 5 @ data, tx = [], writes_left = Suc (Suc n)\<rparr>)
             [] (join_host_port h (itoa (unat port))) = Inl (ConnectFailed 5))"
proof -
  note req = socks5_request_join [OF assms, of 1]
  show ?thesis
    using req handshake_open [OF assms(3), of payload] socks5_connect_replies [OF req, of 0 data n]
      socks5_connect_replies [OF req, of 5 data n]
    by (intro exI [of _ "bytes_of [5, 1, 0] @ enc_target (h, port)"])
      (simp add: handle_socks5_def del: bytes_of_Cons split: sum.split)
qed

theorem socks5_client_server_agree_witness:
  "handle_socks5 None (\<lambda>h p. Inr (h, p) :: string + string \<times> string)
     (bytes_of [5, 1, 0] @ (bytes_of [5, 1, 0] @ enc_target (''example.com'', 443)) @ ''GET'') =
     (bytes_of [5, 0] @ socks5_reply 0, Some ((''example.com'', ''443''), ''GET''))"
proof -
  have p: "parse_ip ''example.com'' = None" by code_simp
  have ok: "target_ok (''example.com'', 443)"
    by (simp add: target_ok_def socks5_host_bytes_def p)
  have c: "host_canon ''example.com'' = ''example.com''" by (simp add: host_canon_def p)
  have i: "itoa 443 = ''443''" by code_simp
  have r: "socks5_request 1 (join_host_port ''example.com'' (itoa (unat (443 :: u16)))) =
      Inr (bytes_of [5, 1, 0] @ enc_target (''example.com'', 443))"
    by (rule socks5_request_join) (simp_all add: ok)
  show ?thesis
    using socks5_client_server_agree [of "''example.com''" 443 "\<lambda>h p. Inr (h, p) :: string + string \<times> string" "''GET''" "[]" 0]
      ok r c i by (simp del: bytes_of_Cons)
qed

text \<open>
  the SOCKS5 client never sends its credentials. Whatever user is configured, a successful
  connect has written the greeting and the request only; and a server that selects
  username/password authentication, the only method offered when a user is configured, is always
  an error.
\<close>

theorem socks5_credentials_never_sent:
  shows "(\<forall>c'. socks5_connect (Some c) user addr = Inr c' \<longrightarrow>
      (\<exists>req. socks5_request 1 addr = Inr req \<and>
        tx c' = tx c @ bytes_of [5, 1, if user = [] then 0 else 2] @ req)) \<and>
    (rx c = bytes_of [5, 2] @ r \<longrightarrow> writes_left c \<noteq> 0 \<longrightarrow>
      socks5_connect (Some c) user addr = Inl AuthRequired)"
proof (intro conjI allI impI)
  fix c'
  assume "socks5_connect (Some c) user addr = Inr c'"
  then obtain c1 req where c1: "socks5_greet user c = Inr c1" "socks5_request 1 addr = Inr req"
    and c': "tx c' = tx c1 @ req"
    using connect_success by blast
  with greet_tx [OF c1(1)] show "\<exists>req. socks5_request 1 addr = Inr req \<and>
      tx c' = tx c @ bytes_of [5, 1, if user = [] then 0 else 2] @ req"
    by (auto split: if_splits)
next
  assume "rx c = bytes_of [5, 2] @ r" "writes_left c \<noteq> 0"
  then show "socks5_connect (Some c) user addr = Inl AuthRequired"
    by (simp add: socks5_connect_def socks5_greet_def conn_write_def conn_read_full_def read_full_def
        numeral_eq_Suc)
qed

theorem socks5_credentials_never_sent_witness:
  "socks5_connect (Some \<lparr>rx = bytes_of [5, 2], tx = [], writes_left = 9\<rparr>) ''user'' ''10.0.0.1:1080'' = Inl AuthRequired"
  using socks5_credentials_never_sent [of "\<lparr>rx = bytes_of [5, 2], tx = [], writes_left = 9\<rparr>" "''user''" "''10.0.0.1:1080''" "[]"]
  by simp

end
