(* ===== verification/Upstream.thy ===== *)
theory Upstream
  imports Socks5 Crypto
begin

text \<open>
  The upstream proxy of \<open>upstream.go\<close>: parsing its URL (\<open>containsScheme\<close>,
  \<open>ParseUpstreamProxy\<close>), its kinds, \<open>ProxyURL\<close>, dialling through it (\<open>DialContext\<close>), the HTTP
  CONNECT handshake with its line reader, and the connection wrapper that replays bytes read
  ahead (\<open>leftoverConn\<close>). Keep-alive settings and deadlines are not modelled: a deadline
  that passes is a stream that ends early.
\<close>

section \<open>The proxy URL\<close>

record upstream_cfg =
  up_raw :: string
  up_scheme :: string
  up_host :: string
  up_user :: string
  up_pass :: string

datatype upstream_err = UrlError | BadScheme string | NoHost

definition scheme_char :: "char \<Rightarrow> bool" where
  "scheme_char c = (is_alnum c \<or> c = CHR ''+'' \<or> c = CHR ''-'' \<or> c = CHR ''.'')"

definition contains_scheme :: "string \<Rightarrow> bool" where
  "contains_scheme s =
     (case index_str s ''://'' of
        None \<Rightarrow> False
      | Some i \<Rightarrow> i \<noteq> 0 \<and> list_all scheme_char (take i s))"

definition parse_upstream_proxy :: "string \<Rightarrow> upstream_err + upstream_cfg option" where
  "parse_upstream_proxy raw0 =
     (let raw1 = trim_space raw0 in
      if raw1 = [] then Inr None
      else let raw = (if contains_scheme raw1 then raw1 else ''http://'' @ raw1) in
        case url_parse raw of
          None \<Rightarrow> Inl UrlError
        | Some u \<Rightarrow>
            let scheme = (if u_scheme u = ''http'' \<or> u_scheme u = ''https'' then Some ''http''
                          else if u_scheme u = ''socks5'' \<or> u_scheme u = ''socks5h'' then Some ''socks5''
                          else None)
            in case scheme of
                 None \<Rightarrow> Inl (BadScheme (u_scheme u))
               | Some sch \<Rightarrow>
                   if u_host u = [] then Inl NoHost
                   else Inr (Some \<lparr>up_raw = raw, up_scheme = sch, up_host = u_host u,
                     up_user = (case u_user u of None \<Rightarrow> [] | Some i \<Rightarrow> ui_name i),
                     up_pass = (case u_user u of None \<Rightarrow> []
                                | Some i \<Rightarrow> (case ui_pass i of None \<Rightarrow> [] | Some p \<Rightarrow> p))\<rparr>))"

definition enabled :: "upstream_cfg option \<Rightarrow> bool" where
  "enabled p = (case p of None \<Rightarrow> False | Some c \<Rightarrow> up_host c \<noteq> [])"

definition is_socks5 :: "upstream_cfg option \<Rightarrow> bool" where
  "is_socks5 p = (enabled p \<and> (case p of None \<Rightarrow> False | Some c \<Rightarrow> up_scheme c = ''socks5''))"

definition is_http :: "upstream_cfg option \<Rightarrow> bool" where
  "is_http p = (enabled p \<and> (case p of None \<Rightarrow> False | Some c \<Rightarrow> up_scheme c = ''http''))"

definition proxy_url :: "upstream_cfg option \<Rightarrow> url option" where
  "proxy_url p =
     (if \<not> enabled p then None
      else case p of
        None \<Rightarrow> None
      | Some c \<Rightarrow>
          Some \<lparr>u_scheme = up_scheme c, u_opaque = [],
            u_user = (if up_user c = [] then None
                      else if up_pass c \<noteq> [] then Some \<lparr>ui_name = up_user c, ui_pass = Some (up_pass c)\<rparr>
                      else Some \<lparr>ui_name = up_user c, ui_pass = None\<rparr>),
            u_host = up_host c, u_path = [], u_query = None, u_fragment = []\<rparr>)"

definition proxy_string :: "upstream_cfg option \<Rightarrow> string" where
  "proxy_string p = (if enabled p then (case p of None \<Rightarrow> [] | Some c \<Rightarrow> up_raw c) else [])"

section \<open>HTTP CONNECT\<close>

text \<open>The line reader: the bytes up to and including the delimiter, first from its buffer, then
  byte by byte from the connection. \<open>None\<close> when the stream ends first.\<close>

fun take_line :: "char \<Rightarrow> bytes \<Rightarrow> (bytes \<times> bytes) option" where
  "take_line d [] = None"
| "take_line d (c # s) =
     (if c = d then Some ([c], s) else map_option (\<lambda>(l, r). (c # l, r)) (take_line d s))"

record line_reader =
  lr_buf :: bytes
  lr_conn :: conn

definition read_string :: "char \<Rightarrow> line_reader \<Rightarrow> (string \<times> line_reader) option" where
  "read_string d l =
     (case take_line d (lr_buf l) of
        Some (ln, b) \<Rightarrow> Some (ln, l\<lparr>lr_buf := b\<rparr>)
      | None \<Rightarrow>
          (case take_line d (rx (lr_conn l)) of
             Some (ln, s) \<Rightarrow> Some (lr_buf l @ ln, \<lparr>lr_buf = [], lr_conn = (lr_conn l)\<lparr>rx := s\<rparr>\<rparr>)
           | None \<Rightarrow> None))"

definition newline :: char where
  "newline = chr 10"

definition crlf :: string where
  "crlf = [chr 13, chr 10]"

lemma take_line_length: "take_line d s = Some (l, r) \<Longrightarrow> length r < length s"
  by (induction s arbitrary: l) (auto split: if_splits)

lemma read_string_length:
  "read_string d l = Some (ln, l') \<Longrightarrow>
   length (lr_buf l') + length (rx (lr_conn l')) < length (lr_buf l) + length (rx (lr_conn l))"
  using take_line_length by (fastforce simp: read_string_def split: option.splits prod.splits)

function skip_headers :: "line_reader \<Rightarrow> line_reader option" where
  "skip_headers l =
     (case read_string newline l of
        None \<Rightarrow> None
      | Some (line, l') \<Rightarrow> if line = crlf \<or> line = [newline] then Some l' else skip_headers l')"
  by pat_completeness auto
termination
  by (relation "measure (\<lambda>l. length (lr_buf l) + length (rx (lr_conn l)))") (auto dest: read_string_length)

declare skip_headers.simps [simp del]

datatype connect_err = CDial | CSend | CReadStatus | CRefused string | CReadHeaders | CSocks socks_err

definition connect_request :: "string \<Rightarrow> string \<Rightarrow> string \<Rightarrow> string" where
  "connect_request user pass addr =
     ''CONNECT '' @ addr @ '' HTTP/1.1'' @ crlf @ ''Host: '' @ addr @ crlf @
     (if user \<noteq> [] then ''Proxy-Authorization: Basic '' @ b64_encode (user @ '':'' @ pass) @ crlf else []) @
     crlf"

text \<open>\<open>leftoverConn\<close>: the bytes read ahead and the connection.\<close>

record leftover_conn =
  lo_buf :: bytes
  lo_conn :: conn

definition http_connect ::
  "conn option \<Rightarrow> string \<Rightarrow> string \<Rightarrow> string \<Rightarrow> connect_err + leftover_conn" where
  "http_connect dialled user pass addr =
     (case dialled of
        None \<Rightarrow> Inl CDial
      | Some c \<Rightarrow>
          (case conn_write (connect_request user pass addr) c of
             None \<Rightarrow> Inl CSend
           | Some c1 \<Rightarrow>
               (case read_string newline \<lparr>lr_buf = [], lr_conn = c1\<rparr> of
                  None \<Rightarrow> Inl CReadStatus
                | Some (status, l) \<Rightarrow>
                    if \<not> contains status '' 200 '' then Inl (CRefused (trim_space status))
                    else (case skip_headers l of
                      None \<Rightarrow> Inl CReadHeaders
                    | Some l' \<Rightarrow> Inr \<lparr>lo_buf = lr_buf l', lo_conn = lr_conn l'\<rparr>))))"

text \<open>\<open>leftoverConn.Read\<close> into a buffer of \<open>n\<close> bytes; \<open>avail\<close> is how much the network has
  ready.\<close>

definition leftover_read :: "nat \<Rightarrow> nat \<Rightarrow> leftover_conn \<Rightarrow> bytes \<times> leftover_conn" where
  "leftover_read n avail c =
     (if lo_buf c \<noteq> [] then (take n (lo_buf c), c\<lparr>lo_buf := drop n (lo_buf c)\<rparr>)
      else (take (min n avail) (rx (lo_conn c)),
            c\<lparr>lo_conn := (lo_conn c)\<lparr>rx := drop (min n avail) (rx (lo_conn c))\<rparr>\<rparr>))"

text \<open>\<open>DialContext\<close>: \<open>dial\<close> opens a connection to an address, or fails.\<close>

definition upstream_dial ::
  "upstream_cfg option \<Rightarrow> (string \<Rightarrow> conn option) \<Rightarrow> string \<Rightarrow> connect_err + leftover_conn" where
  "upstream_dial p dial addr =
     (if \<not> enabled p then
        (case dial addr of None \<Rightarrow> Inl CDial | Some c \<Rightarrow> Inr \<lparr>lo_buf = [], lo_conn = c\<rparr>)
      else case p of
        None \<Rightarrow> Inl CDial
      | Some cfg \<Rightarrow>
          if is_socks5 p then
            (case socks5_connect (dial (up_host cfg)) (up_user cfg) addr of
               Inl e \<Rightarrow> Inl (CSocks e)
             | Inr c \<Rightarrow> Inr \<lparr>lo_buf = [], lo_conn = c\<rparr>)
          else http_connect (dial (up_host cfg)) (up_user cfg) (up_pass cfg) addr)"

section \<open>Lemmas\<close>

lemma parse_upstream_ok:
  assumes "parse_upstream_proxy raw = Inr p" and "trim_space raw \<noteq> []"
  shows "enabled p \<and> (is_socks5 p \<longleftrightarrow> \<not> is_http p)"
  using assms
  by (auto simp: parse_upstream_proxy_def Let_def enabled_def is_socks5_def is_http_def
      split: option.splits if_splits)

lemma parse_upstream_empty: "parse_upstream_proxy raw = Inr None \<longleftrightarrow> trim_space raw = []"
  using parse_upstream_ok [of raw None] by (auto simp: enabled_def) (simp add: parse_upstream_proxy_def)

lemma take_line_append: "d \<notin> set l \<Longrightarrow> take_line d (l @ d # s) = Some (l @ [d], s)"
  by (induction l) auto

lemma read_string_line:
  "newline \<notin> set l \<Longrightarrow> rx c = l @ newline # s \<Longrightarrow>
   read_string newline \<lparr>lr_buf = [], lr_conn = c\<rparr> = Some (l @ [newline], \<lparr>lr_buf = [], lr_conn = c\<lparr>rx := s\<rparr>\<rparr>)"
  by (simp add: read_string_def take_line_append)

text \<open>A header line: no line end inside, and not blank.\<close>

definition header_line :: "string \<Rightarrow> bool" where
  "header_line l = (newline \<notin> set l \<and> l \<noteq> [] \<and> l \<noteq> [chr 13])"

lemma skip_headers_lines:
  assumes "\<forall>l \<in> set ls. header_line l" and "rx c = concat (map (\<lambda>l. l @ [newline]) ls) @ crlf @ s"
  shows "skip_headers \<lparr>lr_buf = [], lr_conn = c\<rparr> = Some \<lparr>lr_buf = [], lr_conn = c\<lparr>rx := s\<rparr>\<rparr>"
  using assms
proof (induction ls arbitrary: c)
  case Nil
  then have "read_string newline \<lparr>lr_buf = [], lr_conn = c\<rparr> =
      Some ([chr 13] @ [newline], \<lparr>lr_buf = [], lr_conn = c\<lparr>rx := s\<rparr>\<rparr>)"
    by (intro read_string_line) (auto simp: crlf_def newline_def chr_inject)
  then show ?case by (subst skip_headers.simps) (simp add: crlf_def newline_def)
next
  case (Cons l ls)
  let ?c = "c\<lparr>rx := concat (map (\<lambda>l. l @ [newline]) ls) @ crlf @ s\<rparr>"
  have "read_string newline \<lparr>lr_buf = [], lr_conn = c\<rparr> =
      Some (l @ [newline], \<lparr>lr_buf = [], lr_conn = ?c\<rparr>)"
    using Cons.prems by (intro read_string_line) (auto simp: header_line_def)
  moreover have "l @ [newline] \<noteq> crlf" "l @ [newline] \<noteq> [newline]"
    using Cons.prems by (auto simp: header_line_def crlf_def newline_def)
  moreover have "skip_headers \<lparr>lr_buf = [], lr_conn = ?c\<rparr> =
      Some \<lparr>lr_buf = [], lr_conn = ?c\<lparr>rx := s\<rparr>\<rparr>"
    using Cons.prems by (intro Cons.IH) auto
  ultimately show ?case by (subst skip_headers.simps) simp
qed

definition unread :: "leftover_conn \<Rightarrow> bytes" where
  "unread c = lo_buf c @ rx (lo_conn c)"

section \<open>Properties\<close>

text \<open>
  C28: an upstream proxy that parses is usable, and is either a SOCKS5 or an HTTP proxy, never
  both: a dial through it always goes to the proxy's host and never directly to the address. Only
  a blank setting means a direct dial.
\<close>

theorem upstream_never_bypassed:
  assumes "parse_upstream_proxy raw = Inr p"
  shows "(p = None \<longleftrightarrow> trim_space raw = []) \<and>
    (\<forall>cfg. p = Some cfg \<longrightarrow>
      enabled p \<and> (is_socks5 p \<longleftrightarrow> \<not> is_http p) \<and>
      (\<forall>dial dial' addr. dial (up_host cfg) = dial' (up_host cfg) \<longrightarrow>
        upstream_dial p dial addr = upstream_dial p dial' addr) \<and>
      (\<forall>addr. upstream_dial p (\<lambda>_. None) addr =
        Inl (if is_socks5 p then CSocks DialFailed else CDial)))"
proof (intro conjI allI impI)
  show "p = None \<longleftrightarrow> trim_space raw = []" using parse_upstream_empty [of raw] assms by auto
  fix cfg
  assume p: "p = Some cfg"
  then have ne: "trim_space raw \<noteq> []" using parse_upstream_empty [of raw] assms by auto
  note ok = parse_upstream_ok [OF assms ne]
  show "enabled p" "is_socks5 p \<longleftrightarrow> \<not> is_http p" using ok by auto
  show "upstream_dial p dial addr = upstream_dial p dial' addr"
    if "dial (up_host cfg) = dial' (up_host cfg)" for dial dial' addr
    using that ok by (simp add: upstream_dial_def p)
  show "upstream_dial p (\<lambda>_. None) addr = Inl (if is_socks5 p then CSocks DialFailed else CDial)" for addr
    using ok by (simp add: upstream_dial_def p socks5_connect_def http_connect_def)
qed

theorem upstream_never_bypassed_witness:
  "\<exists>cfg. parse_upstream_proxy ''host.docker.internal:7890'' = Inr (Some cfg) \<and> up_host cfg = ''host.docker.internal:7890'' \<and>
     enabled (Some cfg) \<and> is_http (Some cfg)"
proof -
  have p: "parse_upstream_proxy ''host.docker.internal:7890'' =
      Inr (Some \<lparr>up_raw = ''http://host.docker.internal:7890'', up_scheme = ''http'',
        up_host = ''host.docker.internal:7890'', up_user = [], up_pass = []\<rparr>)"
    by code_simp
  then show ?thesis using upstream_never_bypassed [OF p] by (auto simp: is_socks5_def)
qed

text \<open>
  C36: HTTP CONNECT loses no tunnel byte. For a response of a status line with the code 200, any
  header lines and a blank line, the handshake succeeds, nothing is held back in the reader's
  buffer, and the connection delivers exactly what followed the blank line; any other status line
  is a refusal.
\<close>

theorem http_connect_exact:
  assumes "newline \<notin> set status" and "\<forall>l \<in> set ls. header_line l" and "writes_left c = Suc n"
    and "rx c = status @ newline # concat (map (\<lambda>l. l @ [newline]) ls) @ crlf @ payload"
  shows "http_connect (Some c) user pass addr =
    (if contains (status @ [newline]) '' 200 ''
     then Inr \<lparr>lo_buf = [], lo_conn = \<lparr>rx = payload, tx = tx c @ connect_request user pass addr, writes_left = n\<rparr>\<rparr>
     else Inl (CRefused (trim_space (status @ [newline]))))"
proof -
  let ?c1 = "c\<lparr>tx := tx c @ connect_request user pass addr, writes_left := n\<rparr>"
  let ?c2 = "?c1\<lparr>rx := concat (map (\<lambda>l. l @ [newline]) ls) @ crlf @ payload\<rparr>"
  have w: "conn_write (connect_request user pass addr) c = Some ?c1"
    using assms(3) by (simp add: conn_write_def)
  have r: "read_string newline \<lparr>lr_buf = [], lr_conn = ?c1\<rparr> =
      Some (status @ [newline], \<lparr>lr_buf = [], lr_conn = ?c2\<rparr>)"
    using assms(1,4) by (subst read_string_line [where l = status]) auto
  have h: "skip_headers \<lparr>lr_buf = [], lr_conn = ?c2\<rparr> = Some \<lparr>lr_buf = [], lr_conn = ?c2\<lparr>rx := payload\<rparr>\<rparr>"
    using assms(2) by (intro skip_headers_lines) auto
  show ?thesis by (cases c) (use w r h in \<open>simp add: http_connect_def\<close>)
qed

theorem http_connect_exact_witness:
  "http_connect (Some \<lparr>rx = ''HTTP/1.1 200 OK'' @ newline # (''Via: x'' @ [newline]) @ crlf @ ''data'', tx = [], writes_left = 1\<rparr>)
     [] [] ''10.0.0.1:443'' =
   Inr \<lparr>lo_buf = [], lo_conn = \<lparr>rx = ''data'', tx = connect_request [] [] ''10.0.0.1:443'', writes_left = 0\<rparr>\<rparr>"
proof -
  have c: "contains (''HTTP/1.1 200 OK'' @ [newline]) '' 200 ''" by code_simp
  have n: "newline \<notin> set ''HTTP/1.1 200 OK''" "header_line ''Via: x''" by code_simp+
  show ?thesis
    using http_connect_exact [of "''HTTP/1.1 200 OK''" "[''Via: x'']"
        "\<lparr>rx = ''HTTP/1.1 200 OK'' @ newline # (''Via: x'' @ [newline]) @ crlf @ ''data'', tx = [], writes_left = 1\<rparr>"
        0 "''data''" "[]" "[]" "''10.0.0.1:443''"] c n
    by simp
qed

text \<open>reads through \<open>leftoverConn\<close> deliver the unread stream in order, nothing lost or
  repeated, whatever the buffer sizes and however the network delivers.\<close>

theorem leftover_read_stream:
  "case leftover_read n avail c of (got, c') \<Rightarrow> unread c = got @ unread c' \<and> length got \<le> n"
  by (auto simp: leftover_read_def unread_def)

end
