(* ===== verification/AssetCache.thy ===== *)
theory AssetCache
  imports GoStrings
begin

text \<open>
  The asset cache of \<open>proxy_cache.go\<close>: \<open>isImmutableAssetPath\<close>, the byte-budgeted LRU of
  complete responses (a doubly linked list of elements and a map from keys to elements) and the
  partial prefixes of interrupted transfers. A list element is its identity and its entry, so
  that moving and removing an element is by identity, as in \<open>container/list\<close>. The map
  iterations that pick an arbitrary partial to evict take the choice as an argument.
  The abstract cache is one list of key and response, the most recently used first.
\<close>

section \<open>Immutable asset names\<close>

definition seg_char :: "char \<Rightarrow> bool" where
  "seg_char c = (is_upper c \<or> is_lower c \<or> is_digit c \<or> c = CHR ''_'' \<or> c = CHR ''-'')"

definition sep_char :: "char \<Rightarrow> bool" where
  "sep_char c = (c = CHR ''-'' \<or> c = CHR ''.'' \<or> c = CHR ''_'')"

definition static_exts :: "string list" where
  "static_exts = [''.js'', ''.mjs'', ''.css'', ''.woff'', ''.woff2'', ''.ttf'', ''.otf'', ''.eot'',
     ''.svg'', ''.png'', ''.jpg'', ''.jpeg'', ''.gif'', ''.webp'', ''.avif'', ''.ico'', ''.wasm'', ''.map'']"

text \<open>What may follow the hash segment up to the end of the name.\<close>

definition asset_tail :: "string \<Rightarrow> bool" where
  "asset_tail t = (t \<in> set static_exts \<or> (has_prefix t ''.chunk'' \<and> drop 6 t \<in> set static_exts))"

text \<open>The submatch of the leftmost match of \<open>immutableAssetRe\<close>. The segment's class has no dot,
  so from a separator the segment is the whole run of its characters.\<close>

fun hash_segment :: "string \<Rightarrow> string option" where
  "hash_segment [] = None"
| "hash_segment (c # s) =
     (if sep_char c \<and> 6 \<le> length (takeWhile seg_char s) \<and> asset_tail (dropWhile seg_char s)
      then Some (takeWhile seg_char s) else hash_segment s)"

definition base_name :: "string \<Rightarrow> string" where
  "base_name path =
     (let p = takeWhile (\<lambda>c. c \<noteq> CHR ''?'' \<and> c \<noteq> CHR ''#'') path
      in case last_index_byte (CHR ''/'') p of None \<Rightarrow> p | Some i \<Rightarrow> drop (i + 1) p)"

definition is_immutable_asset_path :: "string \<Rightarrow> bool" where
  "is_immutable_asset_path path =
     (case hash_segment (base_name path) of
        None \<Rightarrow> False
      | Some seg \<Rightarrow> list_ex is_digit seg \<or> (list_ex is_upper seg \<and> list_ex is_lower seg))"

section \<open>State\<close>

record cached_response =
  cr_header :: bytes
  cr_body :: bytes
  cr_close :: bool

record partial_asset =
  pa_header :: bytes
  pa_body :: bytes
  pa_total :: int
  pa_close :: bool

record cache_entry =
  ce_key :: string
  ce_resp :: cached_response

record element =
  el_id :: nat
  el_entry :: cache_entry

record asset_cache =
  budget :: int
  used :: int
  order :: "element list"
  items :: "(string, element) gomap"
  partials :: "(string, partial_asset) gomap"
  next_id :: nat

definition asset_cache_budget :: int where
  "asset_cache_budget = 67108864"

definition asset_cache_max_object :: int where
  "asset_cache_max_object = 8388608"

definition max_partials :: nat where
  "max_partials = 32"

definition new_asset_cache :: "int \<Rightarrow> asset_cache" where
  "new_asset_cache b = \<lparr>budget = b, used = 0, order = [], items = [], partials = [], next_id = 0\<rparr>"

definition resp_size :: "cached_response \<Rightarrow> int" where
  "resp_size r = int (length (cr_body r)) + int (length (cr_header r))"

abbreviation el_key :: "element \<Rightarrow> string" where
  "el_key e \<equiv> ce_key (el_entry e)"

abbreviation el_resp :: "element \<Rightarrow> cached_response" where
  "el_resp e \<equiv> ce_resp (el_entry e)"

section \<open>Operations\<close>

text \<open>\<open>list.Remove\<close> and \<open>list.MoveToFront\<close> of an element of the list.\<close>

definition list_remove :: "element \<Rightarrow> element list \<Rightarrow> element list" where
  "list_remove e xs = filter (\<lambda>x. el_id x \<noteq> el_id e) xs"

definition move_to_front :: "element \<Rightarrow> element list \<Rightarrow> element list" where
  "move_to_front e xs = e # list_remove e xs"

definition cache_get :: "string \<Rightarrow> asset_cache \<Rightarrow> cached_response option \<times> asset_cache" where
  "cache_get key c =
     (case map_of (items c) key of
        None \<Rightarrow> (None, c)
      | Some el \<Rightarrow> (Some (el_resp el), c\<lparr>order := move_to_front el (order c)\<rparr>))"

definition drop_element :: "element \<Rightarrow> asset_cache \<Rightarrow> asset_cache" where
  "drop_element el c =
     c\<lparr>used := used c - resp_size (el_resp el),
       order := list_remove el (order c),
       items := map_del (el_key el) (items c)\<rparr>"

function evict_loop :: "int \<Rightarrow> asset_cache \<Rightarrow> asset_cache" where
  "evict_loop sz c =
     (if used c + sz \<le> budget c then c
      else if order c = [] then c
      else evict_loop sz (drop_element (last (order c)) c))"
  by pat_completeness auto
termination
proof (relation "measure (\<lambda>(s, c). length (order c))", simp, clarsimp)
  fix c :: asset_cache
  assume "order c \<noteq> []"
  then have "last (order c) \<in> set (order c)" by simp
  then show "length (order (drop_element (last (order c)) c)) < length (order c)"
    by (auto simp: drop_element_def list_remove_def intro!: length_filter_less)
qed

declare evict_loop.simps [simp del]

definition cache_put :: "string \<Rightarrow> cached_response \<Rightarrow> asset_cache \<Rightarrow> asset_cache" where
  "cache_put key resp c =
     (let sz = resp_size resp in
      if budget c < sz then c
      else
        let c1 = (case map_of (items c) key of None \<Rightarrow> c | Some el \<Rightarrow> drop_element el c);
            c2 = evict_loop sz c1;
            el = \<lparr>el_id = next_id c2, el_entry = \<lparr>ce_key = key, ce_resp = resp\<rparr>\<rparr>
        in c2\<lparr>order := el # order c2,
              items := map_put key el (items c2),
              used := used c2 + sz,
              partials := map_del key (partials c2),
              next_id := next_id c2 + 1\<rparr>)"

definition put_partial ::
  "((string, partial_asset) gomap \<Rightarrow> string) \<Rightarrow> string \<Rightarrow> partial_asset \<Rightarrow> asset_cache \<Rightarrow> asset_cache" where
  "put_partial pick key pa c =
     (if asset_cache_max_object < int (length (pa_body pa)) \<or> pa_body pa = [] then c
      else if map_of (items c) key \<noteq> None then c
      else if (case map_of (partials c) key of
                 None \<Rightarrow> False | Some old \<Rightarrow> length (pa_body pa) \<le> length (pa_body old)) then c
      else
        let ps = (if max_partials \<le> length (partials c)
                  then map_del (pick (partials c)) (partials c) else partials c)
        in c\<lparr>partials := map_put key pa ps\<rparr>)"

definition get_partial :: "string \<Rightarrow> asset_cache \<Rightarrow> partial_asset option" where
  "get_partial key c = map_of (partials c) key"

section \<open>Invariant\<close>

definition order_size :: "element list \<Rightarrow> int" where
  "order_size es = (\<Sum>e\<leftarrow>es. resp_size (el_resp e))"

definition cache_inv :: "asset_cache \<Rightarrow> bool" where
  "cache_inv c =
     (distinct (map el_id (order c)) \<and> distinct (map el_key (order c)) \<and>
      map_wf (items c) \<and> set (items c) = (\<lambda>e. (el_key e, e)) ` set (order c) \<and>
      used c = order_size (order c) \<and> used c \<le> budget c \<and> 0 \<le> budget c \<and>
      (\<forall>e \<in> set (order c). el_id e < next_id c) \<and>
      map_wf (partials c) \<and> length (partials c) \<le> max_partials \<and>
      el_key ` set (order c) \<inter> fst ` set (partials c) = {})"

lemma resp_size_nonneg [simp]: "0 \<le> resp_size r"
  by (simp add: resp_size_def)

lemma order_size_nonneg [simp]: "0 \<le> order_size es"
  by (auto simp: order_size_def intro!: sum_list_nonneg)

lemma order_size_simps [simp]: "order_size [] = 0"
  "order_size (e # es) = resp_size (el_resp e) + order_size es"
  "order_size (es @ fs) = order_size es + order_size fs"
  by (simp_all add: order_size_def)

lemma items_lookup:
  assumes "cache_inv c"
  shows "map_of (items c) k = Some e \<longleftrightarrow> e \<in> set (order c) \<and> el_key e = k"
  using assms map_of_eq_Some_iff [of "items c" k e]
  by (auto simp: cache_inv_def map_wf_def)

lemma list_remove_split:
  assumes "distinct (map el_id (a @ e # b))"
  shows "list_remove e (a @ e # b) = a @ b"
proof -
  have "filter (\<lambda>x. el_id x \<noteq> el_id e) a = a" "filter (\<lambda>x. el_id x \<noteq> el_id e) b = b"
    using assms by (auto simp: filter_id_conv intro: rev_image_eqI)
  then show ?thesis by (simp add: list_remove_def)
qed

lemma list_remove_key:
  assumes "distinct (map el_id es)" "distinct (map el_key es)" "e \<in> set es"
  shows "list_remove e es = filter (\<lambda>x. el_key x \<noteq> el_key e) es"
  unfolding list_remove_def
proof (rule filter_cong [OF refl])
  fix x assume "x \<in> set es"
  with assms show "(el_id x \<noteq> el_id e) = (el_key x \<noteq> el_key e)"
    by (metis (mono_tags, lifting) distinct_map inj_onD)
qed

lemma order_size_remove:
  assumes "distinct (map el_id es)" "e \<in> set es"
  shows "order_size (list_remove e es) = order_size es - resp_size (el_resp e)"
proof -
  obtain a b where es: "es = a @ e # b" using assms(2) by (meson split_list)
  show ?thesis using list_remove_split [of a e b] assms(1) by (simp add: es)
qed

lemma distinct_list_remove: "distinct (map f es) \<Longrightarrow> distinct (map f (list_remove e es))"
  by (simp add: list_remove_def distinct_map_filter)

lemma set_list_remove:
  assumes "distinct (map el_id es)" "e \<in> set es"
  shows "set (list_remove e es) = set es - {e}"
  using assms by (auto simp: list_remove_def distinct_map inj_on_def)

lemma drop_element_inv:
  assumes "cache_inv c" "e \<in> set (order c)"
  shows "cache_inv (drop_element e c)"
proof -
  have d: "distinct (map el_id (order c))" "distinct (map el_key (order c))"
    and wf: "map_wf (items c)" and it: "set (items c) = (\<lambda>e. (el_key e, e)) ` set (order c)"
    using assms(1) by (auto simp: cache_inv_def)
  have sub: "set (list_remove e (order c)) = set (order c) - {e}" using set_list_remove d assms(2) by blast
  have "x \<in> set (order c) \<Longrightarrow> el_key x = el_key e \<longleftrightarrow> x = e" for x
    using d(2) assms(2) by (auto simp: distinct_map inj_on_def)
  then have "set (map_del (el_key e) (items c)) = (\<lambda>e. (el_key e, e)) ` (set (order c) - {e})"
    unfolding set_map_del it by auto
  moreover have "used c - resp_size (el_resp e) \<le> budget c"
    using assms(1) resp_size_nonneg [of "el_resp e"] by (simp only: cache_inv_def) linarith
  moreover have "el_key ` (set (order c) - {e}) \<inter> fst ` set (partials c) = {}"
    using assms(1) unfolding cache_inv_def by blast
  moreover have "\<forall>x \<in> set (order c) - {e}. el_id x < next_id c"
    using assms(1) by (simp add: cache_inv_def)
  moreover have "0 \<le> budget c \<and> map_wf (partials c) \<and> length (partials c) \<le> max_partials"
    "used c = order_size (order c)"
    using assms(1) by (simp_all only: cache_inv_def)
  ultimately show ?thesis
    using d wf order_size_remove [OF d(1) assms(2)]
    by (simp add: cache_inv_def drop_element_def distinct_list_remove sub del: set_map_del)
qed

section \<open>The abstract cache\<close>

text \<open>The longest prefix of a list whose sizes sum up to at most \<open>b\<close>.\<close>

fun fit :: "('a \<Rightarrow> int) \<Rightarrow> int \<Rightarrow> 'a list \<Rightarrow> 'a list" where
  "fit f b [] = []"
| "fit f b (x # xs) = (if f x \<le> b then x # fit f (b - f x) xs else [])"

type_synonym lru = "(string \<times> cached_response) list"

definition lru_get :: "string \<Rightarrow> lru \<Rightarrow> cached_response option \<times> lru" where
  "lru_get k l =
     (case map_of l k of
        None \<Rightarrow> (None, l)
      | Some r \<Rightarrow> (Some r, (k, r) # filter (\<lambda>(k', _). k' \<noteq> k) l))"

definition lru_put :: "int \<Rightarrow> string \<Rightarrow> cached_response \<Rightarrow> lru \<Rightarrow> lru" where
  "lru_put b k r l =
     (if b < resp_size r then l
      else (k, r) # fit (\<lambda>(_, r). resp_size r) (b - resp_size r) (filter (\<lambda>(k', _). k' \<noteq> k) l))"

definition el_pair :: "element \<Rightarrow> string \<times> cached_response" where
  "el_pair e = (el_key e, el_resp e)"

definition lru_of :: "asset_cache \<Rightarrow> lru" where
  "lru_of c = map el_pair (order c)"

lemma fit_all:
  assumes "\<And>x. 0 \<le> f x" and "(\<Sum>x\<leftarrow>xs. f x) \<le> b"
  shows "fit f b xs = xs"
  using assms(2)
proof (induction xs arbitrary: b)
  case (Cons x xs)
  moreover have "0 \<le> (\<Sum>x\<leftarrow>xs. f x)" by (rule sum_list_nonneg) (auto simp: assms(1))
  ultimately have "f x \<le> b" by simp
  with Cons show ?case by simp
qed simp

lemma fit_snoc:
  assumes "\<And>x. 0 \<le> f x" and "b < (\<Sum>x\<leftarrow>xs @ [y]. f x)"
  shows "fit f b (xs @ [y]) = fit f b xs"
  using assms(2) by (induction xs arbitrary: b) auto

lemma fit_map: "fit f b (map g xs) = map g (fit (\<lambda>x. f (g x)) b xs)"
  by (induction xs arbitrary: b) auto

lemma fit_sum: "0 \<le> b \<Longrightarrow> (\<Sum>x\<leftarrow>fit f b xs. f x) \<le> b"
  by (induction xs arbitrary: b) (auto, smt (verit, ccfv_SIG))

lemma fit_take: "\<exists>n. fit f b xs = take n xs"
proof (induction xs arbitrary: b)
  case (Cons x xs)
  then obtain n where "fit f (b - f x) xs = take n xs" by blast
  then show ?case by (cases "f x \<le> b") (auto intro: exI [of _ "Suc n"] exI [of _ 0])
qed simp

abbreviation fit_order :: "int \<Rightarrow> element list \<Rightarrow> element list" where
  "fit_order \<equiv> fit (\<lambda>e. resp_size (el_resp e))"

lemma evict_loop_spec:
  assumes "cache_inv c" and "sz \<le> budget c"
  shows "cache_inv (evict_loop sz c) \<and> used (evict_loop sz c) + sz \<le> budget c \<and>
    budget (evict_loop sz c) = budget c \<and> partials (evict_loop sz c) = partials c \<and>
    order (evict_loop sz c) = fit_order (budget c - sz) (order c)"
  using assms
proof (induction sz c rule: evict_loop.induct)
  case (1 sz c)
  have u: "used c = order_size (order c)" using "1.prems" by (simp add: cache_inv_def)
  show ?case
  proof (cases "used c + sz \<le> budget c")
    case True
    then have "fit_order (budget c - sz) (order c) = order c"
      using u by (intro fit_all) (auto simp: order_size_def)
    then show ?thesis using True "1.prems" by (subst (1 2 3 4 5) evict_loop.simps) simp
  next
    case False
    then have ne: "order c \<noteq> []" using u "1.prems"(2) by auto
    then obtain es e where o: "order c = es @ [e]" by (metis append_butlast_last_id)
    let ?d = "drop_element (last (order c)) c"
    have inv: "cache_inv ?d" using drop_element_inv [OF "1.prems"(1)] ne by simp
    have "distinct (map el_id (order c))" using "1.prems"(1) by (simp add: cache_inv_def)
    then have od: "order ?d = es"
      using list_remove_split [of es e "[]"] by (simp add: drop_element_def o)
    have "fit_order (budget c - sz) (order c) = fit_order (budget c - sz) es"
      unfolding o using False u by (intro fit_snoc) (auto simp: order_size_def o)
    moreover have "budget ?d = budget c" "partials ?d = partials c" by (simp_all add: drop_element_def)
    ultimately show ?thesis
      using "1.IH" [OF False ne inv] "1.prems"(2) False ne od by (subst (1 2 3 4 5) evict_loop.simps) simp
  qed
qed

lemma cache_inv_put_front:
  assumes "cache_inv c" and "map_of (items c) k = None" and "used c + resp_size r \<le> budget c"
  defines "el \<equiv> \<lparr>el_id = next_id c, el_entry = \<lparr>ce_key = k, ce_resp = r\<rparr>\<rparr>"
  shows "cache_inv (c\<lparr>order := el # order c, items := map_put k el (items c),
    used := used c + resp_size r, partials := map_del k (partials c), next_id := next_id c + 1\<rparr>)"
proof -
  have k: "k \<notin> el_key ` set (order c)"
    using assms(2) items_lookup [OF assms(1), of k] by force
  have id: "next_id c \<notin> el_id ` set (order c)" using assms(1) by (auto simp: cache_inv_def)
  have "k \<notin> fst ` set (items c)" using assms(2) by (simp add: map_of_eq_None_iff)
  then have "map_put k el (items c) = items c @ [(k, el)]" by (rule map_put_new)
  moreover have "map_wf (map_put k el (items c))"
    using assms(1) by (intro map_wf_put) (simp add: cache_inv_def)
  moreover have "length (map_del k (partials c)) \<le> max_partials"
    using assms(1) length_map_del_le [of k "partials c"] by (simp add: cache_inv_def)
  ultimately show ?thesis
    using assms(1,3) k id by (auto simp: cache_inv_def el_def)
qed

section \<open>Refinement\<close>

lemma new_cache_inv: "0 \<le> b \<Longrightarrow> cache_inv (new_asset_cache b)"
  by (simp add: cache_inv_def new_asset_cache_def)

lemma lru_lookup:
  assumes "cache_inv c"
  shows "map_of (lru_of c) k = map_option el_resp (map_of (items c) k)"
proof -
  have wf: "distinct (map fst (lru_of c))"
    using assms by (simp add: lru_of_def el_pair_def comp_def cache_inv_def)
  show ?thesis
  proof (cases "map_of (items c) k")
    case None
    then have "k \<notin> el_key ` set (order c)" using items_lookup [OF assms, of k] by force
    then have "k \<notin> fst ` set (lru_of c)" by (auto simp: lru_of_def el_pair_def)
    then show ?thesis using None by (simp add: map_of_eq_None_iff [THEN iffD2])
  next
    case (Some e)
    then have "e \<in> set (order c)" "el_key e = k" using items_lookup [OF assms, of k] by auto
    then have "(k, el_resp e) \<in> set (lru_of c)" by (auto simp: lru_of_def el_pair_def)
    then show ?thesis using wf Some by simp
  qed
qed

lemma lru_filter:
  "map el_pair (filter (\<lambda>e. el_key e \<noteq> k) es) = filter (\<lambda>(k', _). k' \<noteq> k) (map el_pair es)"
  by (simp add: filter_map comp_def el_pair_def)

lemma cache_get_refines:
  assumes "cache_inv c"
  shows "cache_inv (snd (cache_get k c))"
    and "fst (cache_get k c) = fst (lru_get k (lru_of c))"
    and "lru_of (snd (cache_get k c)) = snd (lru_get k (lru_of c))"
proof (atomize (full), cases "map_of (items c) k")
  case None
  then show "cache_inv (snd (cache_get k c)) \<and> fst (cache_get k c) = fst (lru_get k (lru_of c)) \<and>
      lru_of (snd (cache_get k c)) = snd (lru_get k (lru_of c))"
    using assms lru_lookup [OF assms, of k] by (simp add: cache_get_def lru_get_def)
next
  case (Some e)
  then have e: "e \<in> set (order c)" "el_key e = k" using items_lookup [OF assms, of k] by auto
  have d: "distinct (map el_id (order c))" "distinct (map el_key (order c))"
    using assms by (auto simp: cache_inv_def)
  let ?o = "move_to_front e (order c)"
  have rem: "list_remove e (order c) = filter (\<lambda>x. el_key x \<noteq> k) (order c)"
    using list_remove_key [OF d e(1)] e(2) by simp
  have st: "set ?o = set (order c)" using set_list_remove [OF d(1) e(1)] e(1) by (auto simp: move_to_front_def)
  have "el_id e \<notin> el_id ` set (list_remove e (order c))" by (auto simp: list_remove_def)
  moreover have "el_key e \<notin> el_key ` set (list_remove e (order c))" by (auto simp: rem e(2))
  ultimately have "distinct (map el_id ?o)" "distinct (map el_key ?o)"
    using d by (simp_all add: move_to_front_def distinct_list_remove)
  moreover have "order_size ?o = order_size (order c)"
    using order_size_remove [OF d(1) e(1)] by (simp add: move_to_front_def)
  ultimately have "cache_inv (c\<lparr>order := ?o\<rparr>)"
    using assms st by (simp add: cache_inv_def)
  then show "cache_inv (snd (cache_get k c)) \<and> fst (cache_get k c) = fst (lru_get k (lru_of c)) \<and>
      lru_of (snd (cache_get k c)) = snd (lru_get k (lru_of c))"
    using Some lru_lookup [OF assms, of k] e(2)
    by (simp add: cache_get_def lru_get_def move_to_front_def lru_of_def rem lru_filter)
      (simp add: el_pair_def)
qed

lemma cache_put_remove_old:
  fixes k :: string
  assumes "cache_inv c"
  defines "c1 \<equiv> (case map_of (items c) k of None \<Rightarrow> c | Some el \<Rightarrow> drop_element el c)"
  shows "cache_inv c1 \<and> order c1 = filter (\<lambda>e. el_key e \<noteq> k) (order c) \<and> budget c1 = budget c \<and>
    partials c1 = partials c"
proof (cases "map_of (items c) k")
  case None
  then have "k \<notin> el_key ` set (order c)" using items_lookup [OF assms(1), of k] by force
  then have "filter (\<lambda>e. el_key e \<noteq> k) (order c) = order c" by (auto simp: filter_id_conv)
  then show ?thesis using None assms(1) by (simp add: c1_def)
next
  case (Some e)
  then have e: "e \<in> set (order c)" "el_key e = k" using items_lookup [OF assms(1), of k] by auto
  have "distinct (map el_id (order c))" "distinct (map el_key (order c))"
    using assms(1) by (auto simp: cache_inv_def)
  with e have "list_remove e (order c) = filter (\<lambda>x. el_key x \<noteq> k) (order c)"
    using list_remove_key by blast
  then show ?thesis
    using Some drop_element_inv [OF assms(1) e(1)] by (simp add: c1_def drop_element_def)
qed

lemma cache_put_refines:
  assumes "cache_inv c"
  shows "cache_inv (cache_put k r c)" and "budget (cache_put k r c) = budget c"
    and "lru_of (cache_put k r c) = lru_put (budget c) k r (lru_of c)"
proof (atomize (full), cases "budget c < resp_size r")
  case True
  then show "cache_inv (cache_put k r c) \<and> budget (cache_put k r c) = budget c \<and>
      lru_of (cache_put k r c) = lru_put (budget c) k r (lru_of c)"
    using assms by (simp add: cache_put_def lru_put_def Let_def)
next
  case False
  define c1 where "c1 = (case map_of (items c) k of None \<Rightarrow> c | Some el \<Rightarrow> drop_element el c)"
  define c2 where "c2 = evict_loop (resp_size r) c1"
  note old = cache_put_remove_old [OF assms, of k, folded c1_def]
  then have ev: "cache_inv c2" "used c2 + resp_size r \<le> budget c" "budget c2 = budget c"
    "order c2 = fit_order (budget c - resp_size r) (order c1)"
    using evict_loop_spec [of c1 "resp_size r"] False by (auto simp: c2_def)
  have "set (order c2) \<subseteq> set (order c1)"
    using fit_take [of _ _ "order c1"] set_take_subset [of _ "order c1"] unfolding ev(4) by metis
  then have "map_of (items c2) k = None"
    using items_lookup [OF ev(1), of k] old by (cases "map_of (items c2) k") auto
  note front = cache_inv_put_front [OF ev(1) this, of r]
  have put: "cache_put k r c = c2\<lparr>order := \<lparr>el_id = next_id c2, el_entry = \<lparr>ce_key = k, ce_resp = r\<rparr>\<rparr> # order c2,
      items := map_put k \<lparr>el_id = next_id c2, el_entry = \<lparr>ce_key = k, ce_resp = r\<rparr>\<rparr> (items c2),
      used := used c2 + resp_size r, partials := map_del k (partials c2), next_id := next_id c2 + 1\<rparr>"
    using False by (simp add: cache_put_def Let_def c1_def c2_def)
  have "map el_pair (fit_order b es) = fit (\<lambda>(_, r). resp_size r) b (map el_pair es)" for b es
    by (simp add: fit_map el_pair_def)
  then show "cache_inv (cache_put k r c) \<and> budget (cache_put k r c) = budget c \<and>
      lru_of (cache_put k r c) = lru_put (budget c) k r (lru_of c)"
    using front ev False old unfolding put
    by (simp add: lru_of_def lru_put_def lru_filter) (simp add: el_pair_def)
qed

section \<open>Partial prefixes\<close>

text \<open>The choice of the partial to evict: one that is there.\<close>

definition pick_ok :: "((string, partial_asset) gomap \<Rightarrow> string) \<Rightarrow> bool" where
  "pick_ok pick = (\<forall>m. m \<noteq> [] \<longrightarrow> pick m \<in> fst ` set m)"

lemma put_partial_inv:
  assumes "cache_inv c" and "pick_ok pick"
  shows "cache_inv (put_partial pick k pa c)"
proof -
  let ?ps = "if max_partials \<le> length (partials c) then map_del (pick (partials c)) (partials c) else partials c"
  have wf: "map_wf (partials c)" "length (partials c) \<le> max_partials"
    "el_key ` set (order c) \<inter> fst ` set (partials c) = {}"
    using assms(1) by (auto simp: cache_inv_def)
  have wf': "map_wf ?ps" using wf by simp
  have sub: "set ?ps \<subseteq> set (partials c)" by auto
  have len: "length ?ps < max_partials"
  proof (cases "max_partials \<le> length (partials c)")
    case True
    then have "partials c \<noteq> []" by (auto simp: max_partials_def)
    then have "pick (partials c) \<in> fst ` set (partials c)" using assms(2) by (simp add: pick_ok_def)
    then show ?thesis using True wf by (simp add: length_map_del max_partials_def)
  qed simp
  have put: "fst ` set (map_put k pa ?ps) = insert k (fst ` set ?ps)"
    by (metis dom_gomap dom_fun_upd map_of_put option.distinct(1))
  have "cache_inv (c\<lparr>partials := map_put k pa ?ps\<rparr>)" if "map_of (items c) k = None"
  proof -
    have "k \<notin> el_key ` set (order c)" using items_lookup [OF assms(1), of k] that by force
    then have "el_key ` set (order c) \<inter> fst ` set (map_put k pa ?ps) = {}"
      unfolding put using wf(3) sub by blast
    moreover have "length (map_put k pa ?ps) \<le> max_partials" using len by (simp add: length_map_put)
    moreover have "map_wf (map_put k pa ?ps)" using wf' by (rule map_wf_put)
    ultimately show ?thesis using assms(1) by (simp add: cache_inv_def)
  qed
  then show ?thesis using assms(1) by (simp add: put_partial_def Let_def)
qed

lemma put_partial_frame [simp]:
  "order (put_partial pick k pa c) = order c" "items (put_partial pick k pa c) = items c"
  "budget (put_partial pick k pa c) = budget c"
  by (simp_all add: put_partial_def Let_def)

section \<open>The contract of a response store\<close>

text \<open>
  What the forward proxy relies on: a lookup only ever returns what was stored under that key.
  \<open>step\<close> runs one operation, \<open>writes\<close> is the key and response that an operation stores.
\<close>

locale response_store = op_invariant step "\<lambda>op. True" inv
  for step :: "'op \<Rightarrow> 'c \<Rightarrow> 'c"
    and inv :: "'c \<Rightarrow> bool" +
  fixes lookup :: "'k \<Rightarrow> 'c \<Rightarrow> 'r option"
    and writes :: "'op \<Rightarrow> ('k \<times> 'r) option"
    and empty_store :: "'c"
  assumes inv_empty: "inv empty_store"
    and lookup_empty: "lookup k empty_store = None"
    and lookup_step: "inv c \<Longrightarrow> lookup k (step op c) = Some r \<Longrightarrow>
      writes op = Some (k, r) \<or> lookup k c = Some r"
begin

definition run :: "'op list \<Rightarrow> 'c" where
  "run ops = foldl (\<lambda>c op. step op c) empty_store ops"

lemma run_snoc [simp]: "run (ops @ [op]) = step op (run ops)" "run [] = empty_store"
  by (simp_all add: run_def)

lemma run_inv: "inv (run ops)"
  unfolding run_def by (rule foldl_inv) (simp_all add: inv_empty list_all_iff)

lemma lookup_written: "lookup k (run ops) = Some r \<Longrightarrow> \<exists>op \<in> set ops. writes op = Some (k, r)"
proof (induction ops rule: rev_induct)
  case Nil
  then show ?case by (simp add: lookup_empty)
next
  case (snoc op ops)
  from snoc.prems have "writes op = Some (k, r) \<or> lookup k (run ops) = Some r"
    using lookup_step [OF run_inv] by simp
  with snoc.IH show ?case by auto
qed

lemma lookup_provenance:
  assumes "\<forall>op \<in> set ops. \<forall>k r. writes op = Some (k, r) \<longrightarrow> P k r" and "lookup k (run ops) = Some r"
  shows "P k r"
  using assms lookup_written by blast

end

text \<open>The key that a map iteration meets first, for any order of iteration: a choice of a key of a
  non-empty map.\<close>

definition first_key :: "(string, partial_asset) gomap \<Rightarrow> string" where
  "first_key m = fst (hd m)"

lemma first_key_ok: "pick_ok first_key"
  by (auto simp: pick_ok_def first_key_def intro: imageI)

typedef chooser = "{f. pick_ok f}" morphisms pick_of Chooser
  using first_key_ok by blast

lemma pick_of_ok [simp]: "pick_ok (pick_of f)"
  using pick_of [of f] by simp

datatype cache_op = Get string | Put string cached_response | PutPartial chooser string partial_asset

definition run_op :: "cache_op \<Rightarrow> asset_cache \<Rightarrow> asset_cache" where
  "run_op op c =
     (case op of
        Get k \<Rightarrow> snd (cache_get k c)
      | Put k r \<Rightarrow> cache_put k r c
      | PutPartial f k pa \<Rightarrow> put_partial (pick_of f) k pa c)"

definition op_writes :: "cache_op \<Rightarrow> (string \<times> cached_response) option" where
  "op_writes op = (case op of Put k r \<Rightarrow> Some (k, r) | _ \<Rightarrow> None)"

definition cache_lookup :: "string \<Rightarrow> asset_cache \<Rightarrow> cached_response option" where
  "cache_lookup k c = fst (cache_get k c)"

lemma run_op_inv: "cache_inv c \<Longrightarrow> cache_inv (run_op op c)"
  by (cases op) (simp_all add: run_op_def cache_get_refines cache_put_refines put_partial_inv)

lemma op_writes_iff: "op_writes op = Some (k, r) \<longleftrightarrow> op = Put k r"
  by (cases op) (auto simp: op_writes_def)

lemma cache_lookup_lru: "cache_inv c \<Longrightarrow> cache_lookup k c = map_of (lru_of c) k"
  by (simp add: cache_lookup_def cache_get_refines lru_get_def split: option.splits)

lemma map_of_filter_other: "map_of (filter (\<lambda>(k', _). k' \<noteq> j) l) k = (if k = j then None else map_of l k)"
  by (induction l) auto

lemma map_of_take: "map_of (take n l) k = Some r \<Longrightarrow> map_of l k = Some r"
  by (metis append_take_drop_id map_of_append map_add_Some_iff)

lemma lru_put_lookup:
  assumes "map_of (lru_put b j q l) k = Some r"
  shows "(j = k \<and> q = r) \<or> map_of l k = Some r"
proof (cases "b < resp_size q \<or> j = k")
  case True
  with assms show ?thesis by (auto simp: lru_put_def split: if_splits)
next
  case False
  then have "map_of (fit (\<lambda>(_, r). resp_size r) (b - resp_size q) (filter (\<lambda>(k', _). k' \<noteq> j) l)) k = Some r"
    using assms by (auto simp: lru_put_def)
  then have "map_of (filter (\<lambda>(k', _). k' \<noteq> j) l) k = Some r"
    using fit_take [of _ _ "filter (\<lambda>(k', _). k' \<noteq> j) l"] map_of_take by metis
  then show ?thesis by (simp add: map_of_filter_other split: if_splits)
qed

lemma run_op_lookup:
  assumes "cache_inv c" "cache_lookup k (run_op op c) = Some r"
  shows "op_writes op = Some (k, r) \<or> cache_lookup k c = Some r"
proof (cases op)
  case (Get j)
  then have "lru_of (run_op op c) = snd (lru_get j (lru_of c))"
    using assms(1) by (simp add: run_op_def cache_get_refines)
  then have "map_of (snd (lru_get j (lru_of c))) k = Some r"
    using assms run_op_inv cache_lookup_lru by metis
  then show ?thesis
    using cache_lookup_lru [OF assms(1), of k]
    by (auto simp: lru_get_def map_of_filter_other split: option.splits if_splits)
next
  case (Put j q)
  then have "lru_of (run_op op c) = lru_put (budget c) j q (lru_of c)"
    using assms(1) by (simp add: run_op_def cache_put_refines)
  then have "map_of (lru_put (budget c) j q (lru_of c)) k = Some r"
    using assms run_op_inv cache_lookup_lru by metis
  then show ?thesis
    using lru_put_lookup cache_lookup_lru [OF assms(1), of k] Put by (auto simp: op_writes_def)
next
  case (PutPartial f j pa)
  then show ?thesis
    using assms(2) by (simp add: run_op_def cache_lookup_def cache_get_def split: option.splits)
qed

interpretation assets: response_store run_op cache_inv cache_lookup op_writes
  "new_asset_cache asset_cache_budget"
proof unfold_locales
  show "cache_inv (new_asset_cache asset_cache_budget)"
    by (rule new_cache_inv) (simp add: asset_cache_budget_def)
  show "cache_lookup k (new_asset_cache asset_cache_budget) = None" for k
    by (simp add: cache_lookup_def cache_get_def new_asset_cache_def)
qed (use run_op_inv run_op_lookup in auto)

section \<open>Properties\<close>

text \<open>
  C25: the asset cache refines a byte-budgeted LRU list. With the invariant (the element list and
  the key map agree, \<open>used\<close> is the sum of the entry sizes and never exceeds the budget, a complete
  entry has no partial), a lookup returns and moves to the front what the abstract list says, an
  insertion is the abstract insertion, which keeps the longest most recent part that fits the
  budget, and both keep the invariant.
\<close>

theorem asset_cache_refines_lru:
  assumes "cache_inv c"
  shows "fst (cache_get k c) = fst (lru_get k (lru_of c)) \<and>
    lru_of (snd (cache_get k c)) = snd (lru_get k (lru_of c)) \<and>
    cache_inv (snd (cache_get k c)) \<and>
    lru_of (cache_put k r c) = lru_put (budget c) k r (lru_of c) \<and>
    cache_inv (cache_put k r c) \<and>
    (resp_size r \<le> budget c \<longrightarrow> fst (cache_get k (cache_put k r c)) = Some r)"
  using cache_get_refines [OF assms] cache_put_refines [OF assms]
    cache_get_refines(2) [OF cache_put_refines(1) [OF assms]]
  by (simp add: lru_put_def lru_get_def)

theorem asset_cache_refines_lru_witness:
  "fst (cache_get ''/a-b1c2d3.js'' (cache_put ''/a-b1c2d3.js'' \<lparr>cr_header = ''H'', cr_body = ''B'', cr_close = False\<rparr>
     (new_asset_cache 100))) = Some \<lparr>cr_header = ''H'', cr_body = ''B'', cr_close = False\<rparr>"
proof -
  have "cache_inv (new_asset_cache 100)" by (rule new_cache_inv) simp
  then show ?thesis
    using asset_cache_refines_lru [of "new_asset_cache 100" "''/a-b1c2d3.js''"
        "\<lparr>cr_header = ''H'', cr_body = ''B'', cr_close = False\<rparr>"]
    by (simp add: resp_size_def new_asset_cache_def)
qed

text \<open>
  Over any sequence of lookups, insertions and saved prefixes from the empty cache, the bytes
  held stay within the 64 MiB budget and the prefixes within their bound, and a lookup returns
  only a response that was inserted under that very key.
\<close>

theorem asset_cache_history:
  defines "c ops \<equiv> foldl (\<lambda>c op. run_op op c) (new_asset_cache asset_cache_budget) ops"
  shows "0 \<le> used (c ops) \<and> used (c ops) \<le> budget (c ops) \<and> length (partials (c ops)) \<le> 32 \<and>
    (\<forall>k r. fst (cache_get k (c ops)) = Some r \<longrightarrow> Put k r \<in> set ops)"
proof -
  have c: "c ops = assets.run ops" by (simp add: c_def assets.run_def)
  have "cache_inv (c ops)" unfolding c by (rule assets.run_inv)
  moreover have "Put k r \<in> set ops" if "fst (cache_get k (c ops)) = Some r" for k r
    using assets.lookup_written [of k ops r] that
    by (auto simp: c cache_lookup_def op_writes_iff)
  ultimately show ?thesis by (auto simp: cache_inv_def max_partials_def)
qed

theorem asset_cache_history_witness:
  "used (foldl (\<lambda>c op. run_op op c) (new_asset_cache asset_cache_budget)
      [Put ''k'' \<lparr>cr_header = ''H'', cr_body = ''B'', cr_close = False\<rparr>, Get ''k'']) = 2 \<and>
   (2 :: int) \<le> asset_cache_budget"
proof -
  let ?ops = "[Put ''k'' \<lparr>cr_header = ''H'', cr_body = ''B'', cr_close = False\<rparr>, Get ''k'']"
  have b: "budget (foldl (\<lambda>c op. run_op op c) (new_asset_cache asset_cache_budget) ?ops) = asset_cache_budget"
    and u: "used (foldl (\<lambda>c op. run_op op c) (new_asset_cache asset_cache_budget) ?ops) = 2"
    by code_simp+
  show ?thesis using asset_cache_history [of ?ops] b u by simp
qed

text \<open>
  Saved progress is monotonic. Saving a prefix of an interrupted transfer of a key that is not
  complete leaves for that key a prefix at least as long as the one before and, within the object
  limit, at least as long as the new one; it never touches complete entries, and a complete entry
  supersedes every prefix of its key.
\<close>

theorem partial_progress_monotonic:
  assumes "cache_inv c" and "pick_ok pick" and "cache_lookup k c = None" and "pa_body pa \<noteq> []"
    and "int (length (pa_body pa)) \<le> asset_cache_max_object"
  shows "\<exists>p. get_partial k (put_partial pick k pa c) = Some p \<and> (p = pa \<or> get_partial k c = Some p) \<and>
      length (pa_body pa) \<le> length (pa_body p) \<and>
      (\<forall>old. get_partial k c = Some old \<longrightarrow> length (pa_body old) \<le> length (pa_body p)) \<and>
      cache_inv (put_partial pick k pa c) \<and>
      (\<forall>j. cache_lookup j (put_partial pick k pa c) = cache_lookup j c) \<and>
      (\<forall>r. resp_size r \<le> budget c \<longrightarrow> get_partial k (cache_put k r (put_partial pick k pa c)) = None)"
proof -
  have none: "map_of (items c) k = None"
    using assms(3) by (simp add: cache_lookup_def cache_get_def split: option.splits)
  have sup: "get_partial k (cache_put k r (put_partial pick k pa c)) = None" if "resp_size r \<le> budget c" for r
    using that by (simp add: get_partial_def cache_put_def Let_def)
  have look: "cache_lookup j (put_partial pick k pa c) = cache_lookup j c" for j
    by (simp add: cache_lookup_def cache_get_def split: option.splits)
  note rest = put_partial_inv [OF assms(1,2), of k pa] look sup
  show ?thesis
  proof (cases "map_of (partials c) k")
    case None
    then have "get_partial k (put_partial pick k pa c) = Some pa"
      using none assms(4,5) by (simp add: put_partial_def get_partial_def Let_def)
    then show ?thesis using None rest by (auto simp: get_partial_def)
  next
    case (Some old)
    then have "get_partial k (put_partial pick k pa c) =
        Some (if length (pa_body pa) \<le> length (pa_body old) then old else pa)"
      using none assms(4,5) by (simp add: put_partial_def get_partial_def Let_def)
    then show ?thesis using Some rest by (auto simp: get_partial_def split: if_splits)
  qed
qed

theorem partial_progress_monotonic_witness:
  "\<exists>p. get_partial ''k'' (put_partial first_key ''k''
      \<lparr>pa_header = ''H'', pa_body = ''abc'', pa_total = 9, pa_close = False\<rparr> (new_asset_cache 100)) = Some p \<and>
    3 \<le> length (pa_body p)"
proof -
  have "cache_inv (new_asset_cache 100)" by (rule new_cache_inv) simp
  moreover have "cache_lookup ''k'' (new_asset_cache 100) = None"
    by (simp add: cache_lookup_def cache_get_def new_asset_cache_def)
  ultimately show ?thesis
    using partial_progress_monotonic [OF _ first_key_ok, of "new_asset_cache 100" "''k''"
        "\<lparr>pa_header = ''H'', pa_body = ''abc'', pa_total = 9, pa_close = False\<rparr>"]
    by (auto simp: asset_cache_max_object_def)
qed

end
