(* ===== verification/CookieJar.thy ===== *)
theory CookieJar
  imports Net
begin

text \<open>
  The persistent cookie jar of \<open>cookiejar.go\<close>: a map from hosts to maps from names to cookies,
  written to a file after every change. The file holds the flat list of the cookies, in the
  order of the map iteration; the JSON text around it is not modelled. A cookie without an
  expiry has the zero time, \<open>None\<close> here.
\<close>

section \<open>State\<close>

record stored_cookie =
  ck_name :: string
  ck_value :: string
  ck_host :: string
  ck_path :: string
  ck_expires :: "instant option"

type_synonym jar_store = "(string, (string, stored_cookie) gomap) gomap"

record jar =
  jar_store :: jar_store
  jar_file :: "stored_cookie list option"

text \<open>A cookie of a response, as \<open>net/http\<close> parses it; the jar looks at no other attribute.\<close>

record http_cookie =
  hc_name :: string
  hc_value :: string
  hc_path :: string
  hc_expires :: "instant option"

section \<open>Operations\<close>

definition set_locked :: "stored_cookie \<Rightarrow> jar_store \<Rightarrow> jar_store" where
  "set_locked c0 s =
     (let c = (if ck_path c0 = [] then c0\<lparr>ck_path := ''/''\<rparr> else c0);
          by_name = (case map_of s (ck_host c) of None \<Rightarrow> [] | Some m \<Rightarrow> m)
      in map_put (ck_host c) (map_put (ck_name c) c by_name) s)"

definition flatten_store :: "jar_store \<Rightarrow> stored_cookie list" where
  "flatten_store s = concat (map (\<lambda>(h, m). map snd m) s)"

definition persist :: "jar \<Rightarrow> jar" where
  "persist j = j\<lparr>jar_file := Some (flatten_store (jar_store j))\<rparr>"

text \<open>\<open>newPersistentJar\<close> and \<open>load\<close>; \<open>None\<close> is a file that is missing or does not parse.\<close>

definition new_jar :: "stored_cookie list option \<Rightarrow> jar" where
  "new_jar f =
     \<lparr>jar_store = foldl (\<lambda>s c. set_locked c s) [] (case f of None \<Rightarrow> [] | Some cs \<Rightarrow> cs), jar_file = f\<rparr>"

definition set_cookies :: "string \<Rightarrow> http_cookie list \<Rightarrow> jar \<Rightarrow> jar" where
  "set_cookies host cs j =
     (if cs = [] then j
      else persist (j\<lparr>jar_store := foldl (\<lambda>s c. set_locked
        \<lparr>ck_name = hc_name c, ck_value = hc_value c, ck_host = host, ck_path = hc_path c,
         ck_expires = hc_expires c\<rparr> s) (jar_store j) cs\<rparr>))"

definition cookies_for :: "string \<Rightarrow> instant \<Rightarrow> jar \<Rightarrow> http_cookie list" where
  "cookies_for host now j =
     (let m = (case map_of (jar_store j) host of None \<Rightarrow> [] | Some m \<Rightarrow> m)
      in map (\<lambda>(_, c). \<lparr>hc_name = ck_name c, hc_value = ck_value c, hc_path = ck_path c, hc_expires = None\<rparr>)
           (filter (\<lambda>(_, c). case ck_expires c of None \<Rightarrow> True | Some e \<Rightarrow> \<not> e < now) m))"

definition jar_set :: "string \<Rightarrow> string \<Rightarrow> string \<Rightarrow> jar \<Rightarrow> jar" where
  "jar_set host name val j =
     persist (j\<lparr>jar_store := set_locked
       \<lparr>ck_name = name, ck_value = val, ck_host = host, ck_path = ''/'', ck_expires = None\<rparr> (jar_store j)\<rparr>)"

definition jar_get :: "string \<Rightarrow> string \<Rightarrow> jar \<Rightarrow> string option" where
  "jar_get host name j =
     (case map_of (jar_store j) host of
        None \<Rightarrow> None
      | Some m \<Rightarrow> map_option ck_value (map_of m name))"

definition copy_host :: "string \<Rightarrow> string \<Rightarrow> jar \<Rightarrow> jar" where
  "copy_host src dst j =
     (let m = (case map_of (jar_store j) src of None \<Rightarrow> [] | Some m \<Rightarrow> m)
      in persist (j\<lparr>jar_store := foldl (\<lambda>s (_, c). set_locked (c\<lparr>ck_host := dst\<rparr>) s) (jar_store j) m\<rparr>))"

definition jar_clear :: "jar \<Rightarrow> jar" where
  "jar_clear j = persist (j\<lparr>jar_store := []\<rparr>)"

section \<open>Invariant and abstraction\<close>

text \<open>The abstract jar: the cookie of a host and a name.\<close>

definition cookie_of :: "jar_store \<Rightarrow> string \<Rightarrow> string \<Rightarrow> stored_cookie option" where
  "cookie_of s host name = (case map_of s host of None \<Rightarrow> None | Some m \<Rightarrow> map_of m name)"

definition jar_wf :: "jar_store \<Rightarrow> bool" where
  "jar_wf s =
     (map_wf s \<and> (\<forall>(h, m) \<in> set s. map_wf m \<and>
        (\<forall>(n, c) \<in> set m. ck_host c = h \<and> ck_name c = n \<and> ck_path c \<noteq> [])))"

definition with_path :: "stored_cookie \<Rightarrow> stored_cookie" where
  "with_path c = (if ck_path c = [] then c\<lparr>ck_path := ''/''\<rparr> else c)"

lemma with_path_simps [simp]:
  "ck_host (with_path c) = ck_host c" "ck_name (with_path c) = ck_name c"
  "ck_value (with_path c) = ck_value c" "ck_path (with_path c) \<noteq> []"
  "ck_path c \<noteq> [] \<Longrightarrow> with_path c = c"
  by (simp_all add: with_path_def)

lemma cookie_of_set:
  "cookie_of (set_locked c s) h n =
     (if h = ck_host c \<and> n = ck_name c then Some (with_path c) else cookie_of s h n)"
  by (auto simp: cookie_of_def set_locked_def Let_def with_path_def split: option.splits)

lemma jar_wf_Nil [simp]: "jar_wf []"
  by (simp add: jar_wf_def)

lemma jar_wf_bucket:
  assumes "jar_wf s" "map_of s h = Some m"
  shows "map_wf m" and "(n, c) \<in> set m \<Longrightarrow> ck_host c = h \<and> ck_name c = n \<and> ck_path c \<noteq> []"
proof -
  have "(h, m) \<in> set s" using assms(2) by (rule map_of_SomeD)
  with assms(1) have "map_wf m \<and> (\<forall>(n, c) \<in> set m. ck_host c = h \<and> ck_name c = n \<and> ck_path c \<noteq> [])"
    unfolding jar_wf_def by blast
  then show "map_wf m" "(n, c) \<in> set m \<Longrightarrow> ck_host c = h \<and> ck_name c = n \<and> ck_path c \<noteq> []" by auto
qed

lemma jar_wf_cookie:
  "jar_wf s \<Longrightarrow> cookie_of s h n = Some c \<Longrightarrow> ck_host c = h \<and> ck_name c = n \<and> ck_path c \<noteq> []"
  using jar_wf_bucket(2) by (auto simp: cookie_of_def split: option.splits dest!: map_of_SomeD [of _ n])

lemma jar_wf_set: "jar_wf s \<Longrightarrow> jar_wf (set_locked c s)"
proof -
  assume wf: "jar_wf s"
  define m where "m = (case map_of s (ck_host c) of None \<Rightarrow> [] | Some m \<Rightarrow> m)"
  have ws: "map_wf s" using wf by (simp add: jar_wf_def)
  have m: "map_wf m \<and> (\<forall>(n, d) \<in> set m. ck_host d = ck_host c \<and> ck_name d = n \<and> ck_path d \<noteq> [])"
    using jar_wf_bucket [OF wf] by (cases "map_of s (ck_host c)") (auto simp: m_def)
  have s: "set_locked c s = map_put (ck_host c) (map_put (ck_name c) (with_path c) m) s"
    by (simp add: set_locked_def Let_def with_path_def m_def)
  have "\<forall>(n, d) \<in> set (map_put (ck_name c) (with_path c) m).
      ck_host d = ck_host c \<and> ck_name d = n \<and> ck_path d \<noteq> []"
    using m by (auto simp: set_map_put)
  then show ?thesis
    using wf ws m by (auto simp: jar_wf_def s set_map_put)
qed

lemma jar_wf_fold: "jar_wf s \<Longrightarrow> jar_wf (foldl (\<lambda>s x. set_locked (f x) s) s xs)"
  by (induction xs arbitrary: s) (simp_all add: jar_wf_set)

lemma jar_ops_wf:
  "jar_wf (jar_store j) \<Longrightarrow> jar_wf (jar_store (set_cookies host cs j))"
  "jar_wf (jar_store j) \<Longrightarrow> jar_wf (jar_store (jar_set host name val j))"
  "jar_wf (jar_store j) \<Longrightarrow> jar_wf (jar_store (copy_host src dst j))"
  "jar_wf (jar_store (jar_clear j))" "jar_wf (jar_store (new_jar f))"
  using jar_wf_fold [of _ "\<lambda>p. (snd p)\<lparr>ck_host := dst\<rparr>"]
  by (simp_all add: set_cookies_def jar_set_def copy_host_def jar_clear_def new_jar_def persist_def
      jar_wf_set jar_wf_fold [where f = id, simplified] jar_wf_fold Let_def case_prod_beta')

lemma jar_get_cookie: "jar_get h n j = map_option ck_value (cookie_of (jar_store j) h n)"
  by (simp add: jar_get_def cookie_of_def split: option.splits)

text \<open>The last cookie of a list for a host and name.\<close>

definition find_last :: "stored_cookie list \<Rightarrow> string \<Rightarrow> string \<Rightarrow> stored_cookie option" where
  "find_last cs h n = find (\<lambda>c. ck_host c = h \<and> ck_name c = n) (rev cs)"

lemma cookie_of_fold:
  "cookie_of (foldl (\<lambda>s c. set_locked c s) s cs) h n =
     (case find_last cs h n of Some c \<Rightarrow> Some (with_path c) | None \<Rightarrow> cookie_of s h n)"
proof (induction cs rule: rev_induct)
  case Nil
  then show ?case by (simp add: find_last_def)
next
  case (snoc c cs)
  then show ?case by (auto simp: find_last_def cookie_of_set)
qed

lemma mem_flatten: "c \<in> set (flatten_store s) \<longleftrightarrow> (\<exists>h m n. (h, m) \<in> set s \<and> (n, c) \<in> set m)"
proof (induction s)
  case Nil
  then show ?case by (simp add: flatten_store_def)
next
  case (Cons p s)
  obtain h m where p: "p = (h, m)" by (cases p)
  have "c \<in> set (flatten_store (p # s)) \<longleftrightarrow> (\<exists>n. (n, c) \<in> set m) \<or> c \<in> set (flatten_store s)"
  proof -
    have "c \<in> snd ` set m \<longleftrightarrow> (\<exists>n. (n, c) \<in> set m)" by force
    then show ?thesis by (simp add: flatten_store_def p)
  qed
  then show ?case using Cons.IH by (auto simp: p)
qed

lemma in_flatten:
  assumes "jar_wf s"
  shows "c \<in> set (flatten_store s) \<longleftrightarrow> cookie_of s (ck_host c) (ck_name c) = Some c"
proof -
  have ws: "map_wf s" using assms by (simp add: jar_wf_def)
  show ?thesis
  proof
    assume "c \<in> set (flatten_store s)"
    then obtain h m n where m: "(h, m) \<in> set s" "(n, c) \<in> set m" unfolding mem_flatten by blast
    then have h: "map_of s h = Some m" using map_of_wf_in [OF ws] by blast
    then have "map_of m n = Some c" "ck_host c = h" "ck_name c = n"
      using jar_wf_bucket [OF assms h] m map_of_wf_in [of m n c] by auto
    with h show "cookie_of s (ck_host c) (ck_name c) = Some c" by (simp add: cookie_of_def)
  next
    assume "cookie_of s (ck_host c) (ck_name c) = Some c"
    then obtain m where "map_of s (ck_host c) = Some m" "map_of m (ck_name c) = Some c"
      by (auto simp: cookie_of_def split: option.splits)
    then have "(ck_host c, m) \<in> set s" "(ck_name c, c) \<in> set m" by (simp_all add: map_of_SomeD)
    then show "c \<in> set (flatten_store s)" unfolding mem_flatten by blast
  qed
qed

lemma find_SomeD: "find P xs = Some x \<Longrightarrow> x \<in> set xs \<and> P x"
  by (induction xs) (auto split: if_splits)

lemma find_last_flatten:
  assumes "jar_wf s"
  shows "find_last (flatten_store s) h n = cookie_of s h n"
proof (cases "find_last (flatten_store s) h n")
  case None
  then have no: "\<forall>c \<in> set (flatten_store s). \<not> (ck_host c = h \<and> ck_name c = n)"
    by (auto simp: find_last_def find_None_iff)
  have "ck_host c = h \<and> ck_name c = n" if "cookie_of s h n = Some c" for c
    using jar_wf_cookie [OF assms that] by simp
  then have "cookie_of s h n = None" using no in_flatten [OF assms] by (cases "cookie_of s h n") auto
  with None show ?thesis by simp
next
  case (Some c)
  then have "c \<in> set (flatten_store s)" "ck_host c = h" "ck_name c = n"
    unfolding find_last_def by (auto dest: find_SomeD)
  then show ?thesis using Some in_flatten [OF assms, of c] by simp
qed

lemma wf_path: "jar_wf s \<Longrightarrow> cookie_of s h n = Some c \<Longrightarrow> with_path c = c"
  using jar_wf_cookie by auto

lemma cookie_of_copy_fold:
  assumes "map_wf m" "\<forall>(n, c) \<in> set m. ck_name c = n \<and> ck_path c \<noteq> []"
  shows "cookie_of (foldl (\<lambda>s (_, c). set_locked (c\<lparr>ck_host := dst\<rparr>) s) s m) h n =
    (if h = dst then (case map_of m n of Some c \<Rightarrow> Some (c\<lparr>ck_host := dst\<rparr>) | None \<Rightarrow> cookie_of s h n)
     else cookie_of s h n)"
  using assms
proof (induction m arbitrary: s)
  case Nil
  then show ?case by simp
next
  case (Cons p m)
  obtain k c where p: "p = (k, c)" by (cases p)
  have k: "ck_name c = k" "ck_path c \<noteq> []" "map_wf m" "map_of m k = None"
    using Cons.prems by (auto simp: p map_wf_def map_of_eq_None_iff)
  then have "with_path (c\<lparr>ck_host := dst\<rparr>) = c\<lparr>ck_host := dst\<rparr>" by simp
  then show ?case
    using Cons.IH [of "set_locked (c\<lparr>ck_host := dst\<rparr>) s"] Cons.prems k
    by (auto simp: p cookie_of_set split: option.splits)
qed

lemma copy_host_cookie:
  assumes "jar_wf (jar_store j)"
  shows "cookie_of (jar_store (copy_host src dst j)) h n =
    (if h = dst then (case cookie_of (jar_store j) src n of
        Some c \<Rightarrow> Some (c\<lparr>ck_host := dst\<rparr>) | None \<Rightarrow> cookie_of (jar_store j) h n)
     else cookie_of (jar_store j) h n)"
proof (cases "map_of (jar_store j) src")
  case None
  then show ?thesis by (simp add: copy_host_def persist_def cookie_of_def)
next
  case (Some m)
  then have "map_wf m" "\<forall>(n, c) \<in> set m. ck_name c = n \<and> ck_path c \<noteq> []"
    using jar_wf_bucket [OF assms Some] by auto
  from cookie_of_copy_fold [OF this, of dst "jar_store j" h n] Some show ?thesis
    by (simp add: copy_host_def persist_def cookie_of_def [of _ src] split: option.splits)
qed

section \<open>Properties\<close>



text \<open>
  \<open>copyHost\<close> carries the session to the node: afterwards the node's host has every cookie of
  the source host, keeps its own others, and no other host's cookies change.
\<close>

theorem copy_host_session:
  assumes "jar_wf (jar_store j)"
  shows "jar_get dst n (copy_host src dst j) =
      (case jar_get src n j of Some v \<Rightarrow> Some v | None \<Rightarrow> jar_get dst n j) \<and>
    (h \<noteq> dst \<longrightarrow> jar_get h n (copy_host src dst j) = jar_get h n j)"
  using copy_host_cookie [OF assms] by (simp add: jar_get_cookie split: option.splits)

theorem copy_host_session_witness:
  "jar_get ''10.0.0.1'' ''session'' (copy_host ''vpn.example'' ''10.0.0.1''
     (jar_set ''vpn.example'' ''session'' ''s1'' (new_jar None))) = Some ''s1''"
proof -
  have "jar_wf (jar_store (jar_set ''vpn.example'' ''session'' ''s1'' (new_jar None)))"
    by (simp add: jar_ops_wf)
  moreover have "jar_get ''vpn.example'' ''session'' (jar_set ''vpn.example'' ''session'' ''s1'' (new_jar None)) = Some ''s1''"
    by (simp add: jar_get_def jar_set_def persist_def set_locked_def new_jar_def)
  ultimately show ?thesis
    using copy_host_session [of "jar_set ''vpn.example'' ''session'' ''s1'' (new_jar None)" "''10.0.0.1''" "''session''" "''vpn.example''"]
    by simp
qed

end
