(* ===== verification/Config.thy ===== *)
theory Config
  imports Upstream Routes
begin

text \<open>
  The configuration: \<open>config.go\<close> (loading, defaults, validation, atomic saving) and
  \<open>config_ops.go\<close> of the manager (\<open>ConfigView\<close>, \<open>UpdateConfig\<close>). The persisted form is the
  record without its runtime fields; the JSON text is not modelled, since encoding and decoding a
  struct of strings, numbers and flags is lossless. The file system is a map from paths to files.
\<close>

section \<open>State\<close>

record config =
  company_name :: string
  username :: string
  password :: string
  platform :: string
  otp_code :: string
  server :: string
  device_name :: string
  device_id :: string
  android_release :: string
  security_patch :: string
  public_key :: string
  private_key :: string
  vpn_server_id :: int
  vpn_server_name :: string
  vpn_select_strategy :: string
  route_mode :: string
  force_protocol :: string
  socks_listen :: string
  socks_udp_enabled :: bool
  proxy_auth_enabled :: bool
  proxy_username :: string
  proxy_password :: string
  upstream_raw :: string
  admin_auth_enabled :: bool
  admin_username :: string
  admin_password :: string
  strict_mode :: bool
  upstream_parsed :: "upstream_cfg option"
  conf_path :: string

definition empty_config :: config where
  "empty_config = \<lparr>company_name = [], username = [], password = [], platform = [], otp_code = [],
     server = [], device_name = [], device_id = [], android_release = [], security_patch = [],
     public_key = [], private_key = [], vpn_server_id = 0, vpn_server_name = [],
     vpn_select_strategy = [], route_mode = [], force_protocol = [], socks_listen = [],
     socks_udp_enabled = False, proxy_auth_enabled = False, proxy_username = [],
     proxy_password = [], upstream_raw = [], admin_auth_enabled = False, admin_username = [],
     admin_password = [], strict_mode = False, upstream_parsed = None, conf_path = []\<rparr>"

text \<open>What \<open>json.Marshal\<close> keeps: the exported fields.\<close>

definition serialized :: "config \<Rightarrow> config" where
  "serialized c = c\<lparr>upstream_parsed := None, conf_path := []\<rparr>"

definition route_mode_full :: string where "route_mode_full = ''full''"
definition route_mode_split :: string where "route_mode_split = ''split''"
definition platform_ldap :: string where "platform_ldap = ''ldap''"
definition platform_corplink :: string where "platform_corplink = ''feilian''"
definition platform_corplink_v1 :: string where "platform_corplink_v1 = ''feilian_v1''"
definition strategy_default :: string where "strategy_default = ''default''"
definition strategy_latency :: string where "strategy_latency = ''latency''"
definition default_device_name :: string where "default_device_name = ''DollarOS''"
definition default_socks_listen :: string where "default_socks_listen = ''0.0.0.0:8989''"

text \<open>The first entries of the device tables of \<open>crypto.go\<close>.\<close>

definition android_models :: "(string \<times> string) list" where
  "android_models = [(''Xiaomi 14 Pro'', ''14''), (''Redmi K70 Pro'', ''14''), (''GooglePixel'', ''10'')]"

definition android_patch_dates :: "string list" where
  "android_patch_dates = [''2024-05-01'', ''2024-03-01'', ''2024-01-01'']"

section \<open>The file system\<close>

datatype cfile = Stored config | Blank | Malformed | Unreadable

type_synonym disk = "string \<Rightarrow> cfile option"

datatype config_err = ParseErr | ReadErr | KeyErr | PathMissing | WriteErr | RenameErr | ProxyErr upstream_err

text \<open>How far a save gets: a write of the temporary file that fails half-way leaves a malformed
  file, and the rename may fail.\<close>

datatype save_fault = NoFault | WriteFails | RenameFails

definition save :: "save_fault \<Rightarrow> config \<Rightarrow> disk \<Rightarrow> disk \<times> config_err option" where
  "save f c d =
     (if conf_path c = [] then (d, Some PathMissing)
      else
        let tmp = conf_path c @ ''.tmp'' in
        case f of
          WriteFails \<Rightarrow> (d(tmp \<mapsto> Malformed), Some WriteErr)
        | RenameFails \<Rightarrow> (d(tmp \<mapsto> Stored (serialized c)), Some RenameErr)
        | NoFault \<Rightarrow> (d(conf_path c \<mapsto> Stored (serialized c), tmp := None), None))"

section \<open>Defaults and loading\<close>

record crypto_env =
  ce_md5 :: "bytes \<Rightarrow> bytes"
  ce_x25519 :: "bytes \<Rightarrow> bytes option"
  ce_rand :: "bytes option"

definition init_android_device :: "config \<Rightarrow> bool \<times> config" where
  "init_android_device c =
     (let (b1, c1) = (if android_release c = []
                      then (True, c\<lparr>android_release := snd (android_models ! 0)\<rparr>) else (False, c));
          (b2, c2) = (if security_patch c1 = []
                      then (True, c1\<lparr>security_patch := android_patch_dates ! 0\<rparr>) else (False, c1))
      in (b1 \<or> b2, c2))"

text \<open>One default: set a field when it is empty and report the change.\<close>

definition default_to :: "(config \<Rightarrow> string) \<Rightarrow> (config \<Rightarrow> config) \<Rightarrow> bool \<times> config \<Rightarrow> bool \<times> config" where
  "default_to field upd = (\<lambda>(b, c). if field c = [] then (True, upd c) else (b, c))"

text \<open>\<open>ensureDefaults\<close>: first the plain fields, then the key pair.\<close>

definition fill_fields :: "crypto_env \<Rightarrow> config \<Rightarrow> bool \<times> config" where
  "fill_fields e c0 =
     (let s1 = default_to device_name (device_name_update (\<lambda>_. default_device_name)) (False, c0);
          s2 = default_to device_id
                 (device_id_update (\<lambda>_. hex_encode (ce_md5 e (device_name (snd s1))))) s1;
          s3 = (case init_android_device (snd s2) of (b, c) \<Rightarrow> (fst s2 \<or> b, c));
          s4 = default_to socks_listen (socks_listen_update (\<lambda>_. default_socks_listen)) s3;
          s5 = default_to route_mode (route_mode_update (\<lambda>_. route_mode_full)) s4
      in default_to vpn_select_strategy (vpn_select_strategy_update (\<lambda>_. strategy_default)) s5)"

definition ensure_keys :: "crypto_env \<Rightarrow> bool \<times> config \<Rightarrow> config_err + bool \<times> config" where
  "ensure_keys e = (\<lambda>(b, c).
     if private_key c \<noteq> [] \<and> public_key c = [] then
       (case public_key_from_private (ce_x25519 e) (private_key c) of
          None \<Rightarrow> Inl KeyErr
        | Some pub \<Rightarrow> Inr (True, c\<lparr>public_key := pub\<rparr>))
     else if private_key c = [] then
       (case generate_keypair (ce_x25519 e) (ce_rand e) of
          None \<Rightarrow> Inl KeyErr
        | Some (pub, priv) \<Rightarrow> Inr (True, c\<lparr>public_key := pub, private_key := priv\<rparr>))
     else Inr (b, c))"

definition ensure_defaults :: "crypto_env \<Rightarrow> config \<Rightarrow> config_err + bool \<times> config" where
  "ensure_defaults e c = ensure_keys e (fill_fields e c)"

definition parse_upstream_field :: "config \<Rightarrow> config" where
  "parse_upstream_field c =
     (if upstream_raw c = [] then c
      else case parse_upstream_proxy (upstream_raw c) of
        Inl _ \<Rightarrow> c
      | Inr up \<Rightarrow> c\<lparr>upstream_parsed := up\<rparr>)"

definition load_config :: "crypto_env \<Rightarrow> save_fault \<Rightarrow> string \<Rightarrow> disk \<Rightarrow> disk \<times> (config_err + config)" where
  "load_config e f path d =
     (case (case d path of
              Some (Stored s) \<Rightarrow> Inr (s\<lparr>conf_path := path, upstream_parsed := None\<rparr>)
            | Some Malformed \<Rightarrow> Inl ParseErr
            | Some Unreadable \<Rightarrow> Inl ReadErr
            | Some Blank \<Rightarrow> Inr (empty_config\<lparr>conf_path := path\<rparr>)
            | None \<Rightarrow> Inr (empty_config\<lparr>conf_path := path\<rparr>)) of
        Inl err \<Rightarrow> (d, Inl err)
      | Inr c \<Rightarrow>
          (case ensure_defaults e c of
             Inl err \<Rightarrow> (d, Inl err)
           | Inr (changed, c') \<Rightarrow>
               if changed then
                 (case save f c' d of
                    (d', Some err) \<Rightarrow> (d', Inl err)
                  | (d', None) \<Rightarrow> (d', Inr (parse_upstream_field c')))
               else (d, Inr (parse_upstream_field c'))))"

definition validate :: "config \<Rightarrow> bool" where
  "validate c = (private_key c \<noteq> [] \<and> public_key c \<noteq> [])"

definition route_mode_or_default :: "config \<Rightarrow> string" where
  "route_mode_or_default c = (if route_mode c = route_mode_split then route_mode_split else route_mode_full)"

text \<open>\<open>deviceReportBody\<close>\<close>

definition device_report_body :: "config \<Rightarrow> (string \<times> string) list" where
  "device_report_body c = [(''device_id'', device_id c), (''device_name'', device_name c),
     (''android_release'', android_release c), (''security_patch'', security_patch c)]"

section \<open>\<open>config_ops.go\<close>\<close>

record config_view =
  cv_socks_listen :: string
  cv_vpn_server_id :: int
  cv_strategy :: string
  cv_route_mode :: string
  cv_force_protocol :: string
  cv_upstream :: string
  cv_company :: string
  cv_username :: string

definition config_view_of :: "config \<Rightarrow> config_view" where
  "config_view_of c = \<lparr>cv_socks_listen = socks_listen c, cv_vpn_server_id = vpn_server_id c,
     cv_strategy = vpn_select_strategy c, cv_route_mode = route_mode_or_default c,
     cv_force_protocol = force_protocol c, cv_upstream = upstream_raw c,
     cv_company = company_name c, cv_username = username c\<rparr>"

record config_update =
  cu_socks_listen :: "string option"
  cu_vpn_server_id :: "int option"
  cu_strategy :: "string option"
  cu_route_mode :: "string option"
  cu_force_protocol :: "string option"
  cu_upstream :: "string option"

text \<open>\<open>Client.SetUpstreamProxy\<close>, on the shared configuration.\<close>

definition set_upstream_proxy :: "string \<Rightarrow> config \<Rightarrow> config_err + config" where
  "set_upstream_proxy raw c =
     (case parse_upstream_proxy raw of
        Inl e \<Rightarrow> Inl (ProxyErr e)
      | Inr up \<Rightarrow> Inr (c\<lparr>upstream_parsed := up\<rparr>))"

definition apply_update :: "config_update \<Rightarrow> config \<Rightarrow> config" where
  "apply_update u c0 =
     (let c1 = (case cu_socks_listen u of None \<Rightarrow> c0
                | Some s \<Rightarrow> if s \<noteq> [] then c0\<lparr>socks_listen := s\<rparr> else c0);
          c2 = (case cu_vpn_server_id u of None \<Rightarrow> c1 | Some i \<Rightarrow> c1\<lparr>vpn_server_id := i\<rparr>);
          c3 = (case cu_strategy u of None \<Rightarrow> c2
                | Some s \<Rightarrow> if s = strategy_default \<or> s = strategy_latency
                            then c2\<lparr>vpn_select_strategy := s\<rparr> else c2);
          c4 = (case cu_route_mode u of None \<Rightarrow> c3
                | Some s \<Rightarrow> if s = route_mode_full \<or> s = route_mode_split
                            then c3\<lparr>route_mode := s\<rparr> else c3);
          c5 = (case cu_force_protocol u of None \<Rightarrow> c4
                | Some s \<Rightarrow> let f = to_lower (trim_space s) in
                    if f = [] \<or> f = ''udp'' \<or> f = ''tcp'' then c4\<lparr>force_protocol := f\<rparr> else c4)
      in (case cu_upstream u of None \<Rightarrow> c5 | Some s \<Rightarrow> c5\<lparr>upstream_raw := trim_space s\<rparr>))"

definition update_config ::
  "save_fault \<Rightarrow> config_update \<Rightarrow> config \<times> disk \<Rightarrow> (config \<times> disk) \<times> config_err option" where
  "update_config f u = (\<lambda>(c0, d).
     let c = apply_update u c0 in
     case (if cu_upstream u \<noteq> None then set_upstream_proxy (upstream_raw c) c else Inr c) of
       Inl e \<Rightarrow> ((c, d), Some e)
     | Inr c' \<Rightarrow> (case save f c' d of (d', r) \<Rightarrow> ((c', d'), r)))"

section \<open>Lemmas\<close>

definition has_fields :: "config \<Rightarrow> bool" where
  "has_fields c =
     (device_name c \<noteq> [] \<and> device_id c \<noteq> [] \<and> android_release c \<noteq> [] \<and> security_patch c \<noteq> [] \<and>
      socks_listen c \<noteq> [] \<and> route_mode c \<noteq> [] \<and> vpn_select_strategy c \<noteq> [])"

definition has_keys :: "config \<Rightarrow> bool" where
  "has_keys c = (private_key c \<noteq> [] \<and> public_key c \<noteq> [])"

text \<open>What the cryptographic functions return, by their documentation.\<close>

definition crypto_ok :: "crypto_env \<Rightarrow> bool" where
  "crypto_ok e =
     ((\<forall>m. length (ce_md5 e m) = 16) \<and> (\<forall>k p. ce_x25519 e k = Some p \<longrightarrow> length p = 32) \<and>
      (\<forall>r. ce_rand e = Some r \<longrightarrow> length r = 32))"

lemma length_b64_encode: "length (b64_encode bs) = 0 \<longleftrightarrow> length bs = 0"
  by (induction bs rule: b64_encode.induct) auto

lemma b64_encode_Nil [simp]: "b64_encode bs = [] \<longleftrightarrow> bs = []"
  using length_b64_encode [of bs] by simp

lemma keypair_not_Nil:
  assumes "crypto_ok e" and "generate_keypair (ce_x25519 e) (ce_rand e) = Some (pub, priv)"
  shows "pub \<noteq> [] \<and> priv \<noteq> []"
proof -
  from assms(2) obtain r pk where r: "ce_rand e = Some r" "ce_x25519 e (of_u8s (clamp (u8s r))) = Some pk"
    and k: "pub = b64_encode pk" "priv = b64_encode (of_u8s (clamp (u8s r)))"
    by (auto simp: generate_keypair_def Let_def split: option.splits)
  from r assms(1) have "length r = 32" "length pk = 32" by (auto simp: crypto_ok_def)
  moreover have "length (of_u8s (clamp (u8s r))) = length r" by simp
  ultimately have "of_u8s (clamp (u8s r)) \<noteq> []" "pk \<noteq> []" by fastforce+
  then show ?thesis by (simp add: k)
qed

lemma public_key_not_Nil:
  assumes "crypto_ok e" and "public_key_from_private (ce_x25519 e) priv = Some pub"
  shows "pub \<noteq> []"
proof -
  from assms(2) obtain raw pk where "ce_x25519 e raw = Some pk" "pub = b64_encode pk"
    by (auto simp: public_key_from_private_def split: option.splits if_splits)
  moreover from this assms(1) have "length pk = 32" by (auto simp: crypto_ok_def)
  ultimately show ?thesis by auto
qed

lemma fill_fields_settled: "has_fields c \<Longrightarrow> fill_fields e c = (False, c)"
  by (simp add: has_fields_def fill_fields_def default_to_def init_android_device_def Let_def)

lemma ensure_keys_settled: "has_keys c \<Longrightarrow> ensure_keys e (b, c) = Inr (b, c)"
  by (simp add: has_keys_def ensure_keys_def)

text \<open>A step that reports whether it changed the configuration, and keeps the runtime fields.\<close>

definition honest :: "config \<Rightarrow> bool \<times> config \<Rightarrow> bool" where
  "honest c0 = (\<lambda>(b, c). (\<not> b \<longrightarrow> c = c0) \<and> conf_path c = conf_path c0 \<and>
     upstream_parsed c = upstream_parsed c0 \<and> upstream_raw c = upstream_raw c0)"

lemma honest_default:
  assumes "honest c0 s" "\<And>c. conf_path (u c) = conf_path c \<and> upstream_parsed (u c) = upstream_parsed c \<and>
    upstream_raw (u c) = upstream_raw c"
  shows "honest c0 (default_to f u s)"
  using assms by (cases s) (auto simp: honest_def default_to_def)

lemma honest_android:
  "honest c0 s \<Longrightarrow> honest c0 (case init_android_device (snd s) of (b, c) \<Rightarrow> (fst s \<or> b, c))"
  by (cases s) (auto simp: honest_def init_android_device_def Let_def)

lemma fill_fields_honest: "honest c (fill_fields e c)"
  unfolding fill_fields_def Let_def
  by (intro honest_default honest_android) (simp_all add: honest_def)

lemma hex_encode_Nil [simp]: "hex_encode bs = [] \<longleftrightarrow> bs = []"
  using hex_encode_inject [of bs "[]"] by (simp add: hex_encode_def)

lemma fill_fields_has:
  assumes "crypto_ok e" shows "has_fields (snd (fill_fields e c))"
proof -
  have "ce_md5 e m \<noteq> []" for m using assms by (auto simp: crypto_ok_def) (metis length_0_conv zero_neq_numeral)
  then show ?thesis
    by (simp add: has_fields_def fill_fields_def default_to_def init_android_device_def Let_def
        default_device_name_def default_socks_listen_def route_mode_full_def strategy_default_def
        android_models_def android_patch_dates_def split: prod.splits)
qed

lemma ensure_defaults_result:
  assumes "crypto_ok e" and "ensure_defaults e c = Inr (b, c')"
  shows "has_fields c' \<and> has_keys c' \<and> honest c (b, c')"
proof -
  obtain b1 c1 where f: "fill_fields e c = (b1, c1)" by (cases "fill_fields e c")
  have h: "has_fields c1" "honest c (b1, c1)"
    using fill_fields_has [OF assms(1), of c] fill_fields_honest [of c e] by (simp_all add: f)
  from assms(2) have k: "ensure_keys e (b1, c1) = Inr (b, c')" by (simp add: ensure_defaults_def f)
  consider "private_key c1 \<noteq> []" "public_key c1 = []" | "private_key c1 = []"
    | "private_key c1 \<noteq> []" "public_key c1 \<noteq> []" by blast
  then show ?thesis
  proof cases
    case 1
    then obtain pub where "public_key_from_private (ce_x25519 e) (private_key c1) = Some pub"
      "b" "c' = c1\<lparr>public_key := pub\<rparr>"
      using k by (auto simp: ensure_keys_def split: option.splits)
    then show ?thesis
      using 1 h public_key_not_Nil [OF assms(1)] by (auto simp: has_fields_def has_keys_def honest_def)
  next
    case 2
    then obtain pub priv where "generate_keypair (ce_x25519 e) (ce_rand e) = Some (pub, priv)"
      "b" "c' = c1\<lparr>public_key := pub, private_key := priv\<rparr>"
      using k by (auto simp: ensure_keys_def split: option.splits)
    then show ?thesis
      using h keypair_not_Nil [OF assms(1)] by (auto simp: has_fields_def has_keys_def honest_def)
  next
    case 3
    then show ?thesis using k h by (auto simp: ensure_keys_def has_keys_def)
  qed
qed

lemma ensure_defaults_settled:
  "has_fields c \<Longrightarrow> has_keys c \<Longrightarrow> ensure_defaults e c = Inr (False, c)"
  by (simp add: ensure_defaults_def fill_fields_settled ensure_keys_settled)

definition settings_ok :: "config \<Rightarrow> bool" where
  "settings_ok c =
     (vpn_select_strategy c \<in> {strategy_default, strategy_latency} \<and>
      route_mode c \<in> {route_mode_full, route_mode_split} \<and>
      force_protocol c \<in> {[], ''udp'', ''tcp''} \<and> socks_listen c \<noteq> [])"

lemma apply_update_ok: "settings_ok c \<Longrightarrow> settings_ok (apply_update u c)"
  by (auto simp: settings_ok_def apply_update_def Let_def split: option.splits)

section \<open>Properties\<close>

text \<open>
  C29: saving is atomic. Whatever step of \<open>Save\<close> fails, the configuration file is afterwards either
  what it was or the complete new configuration, the latter exactly when no error is returned, and
  no file but this one and its temporary sibling changes.
\<close>

theorem save_atomic:
  assumes "conf_path c \<noteq> []" and "save f c d = (d', r)"
  shows "(d' (conf_path c) = d (conf_path c) \<or> d' (conf_path c) = Some (Stored (serialized c))) \<and>
    (r = None \<longrightarrow> d' (conf_path c) = Some (Stored (serialized c))) \<and>
    (r \<noteq> None \<longrightarrow> d' (conf_path c) = d (conf_path c)) \<and>
    (\<forall>p. p \<notin> {conf_path c, conf_path c @ ''.tmp''} \<longrightarrow> d' p = d p)"
  using assms by (auto simp: save_def Let_def split: save_fault.splits)

theorem save_atomic_witness:
  "fst (save WriteFails (empty_config\<lparr>conf_path := ''c.json''\<rparr>) Map.empty) ''c.json'' = None \<and>
   fst (save NoFault (empty_config\<lparr>conf_path := ''c.json''\<rparr>) Map.empty) ''c.json'' \<noteq> None"
proof -
  obtain d1 r1 d2 r2 where s: "save WriteFails (empty_config\<lparr>conf_path := ''c.json''\<rparr>) Map.empty = (d1, r1)"
    "save NoFault (empty_config\<lparr>conf_path := ''c.json''\<rparr>) Map.empty = (d2, r2)" by fastforce
  moreover from s have "r1 \<noteq> None" "r2 = None" by (auto simp: save_def Let_def)
  ultimately show ?thesis using save_atomic [OF _ s(1)] save_atomic [OF _ s(2)] by simp
qed

text \<open>
  C37: loading settles. A configuration that loads is valid and has every default; loading what is
  then on disk gives the same configuration again, under any later source of randomness and
  without writing, so device identity and key pair are stable across restarts.
\<close>

theorem load_config_settles:
  assumes "crypto_ok e" and "path \<noteq> []" and "load_config e f path d = (d', Inr c)"
  shows "validate c \<and> has_fields c \<and> load_config e' f' path d' = (d', Inr c)"
proof -
  obtain c0 where c0: "(case d path of
      Some (Stored s) \<Rightarrow> Inr (s\<lparr>conf_path := path, upstream_parsed := None\<rparr>)
    | Some Malformed \<Rightarrow> Inl ParseErr | Some Unreadable \<Rightarrow> Inl ReadErr
    | Some Blank \<Rightarrow> Inr (empty_config\<lparr>conf_path := path\<rparr>)
    | None \<Rightarrow> Inr (empty_config\<lparr>conf_path := path\<rparr>)) = Inr c0"
    using assms(3) by (auto simp: load_config_def split: option.splits cfile.splits)
  then have c0_fields: "conf_path c0 = path" "upstream_parsed c0 = None"
    by (auto simp: empty_config_def split: option.splits cfile.splits)
  obtain b c1 where e: "ensure_defaults e c0 = Inr (b, c1)"
    using assms(3) c0 by (auto simp: load_config_def split: sum.splits)
  note r = ensure_defaults_result [OF assms(1) e]
  then have c1: "conf_path c1 = path" "upstream_parsed c1 = None" "has_fields c1" "has_keys c1"
    "\<not> b \<longrightarrow> c1 = c0"
    using c0_fields by (auto simp: honest_def)
  have c: "c = parse_upstream_field c1"
    using assms(3) c0 e by (auto simp: load_config_def split: if_splits prod.splits option.splits)
  have "validate c \<and> has_fields c"
    using c1 by (auto simp: c parse_upstream_field_def validate_def has_keys_def has_fields_def split: sum.splits)
  moreover have "load_config e' f' path d' = (d', Inr c)"
  proof (cases b)
    case True
    then obtain r where s: "save f c1 d = (d', r)" "r = None"
      using assms(3) c0 e by (auto simp: load_config_def split: prod.splits option.splits)
    then have "d' path = Some (Stored (serialized c1))"
      using c1 assms(2) by (auto simp: save_def Let_def split: save_fault.splits)
    moreover have "(serialized c1)\<lparr>conf_path := path, upstream_parsed := None\<rparr> = c1"
      using c1 by (simp add: serialized_def)
    ultimately show ?thesis
      using c1 by (simp add: load_config_def ensure_defaults_settled c)
  next
    case False
    then have "d' = d" "c0 = c1" using assms(3) c0 e c1 by (auto simp: load_config_def)
    then show ?thesis
      using c0 c1 by (simp add: load_config_def ensure_defaults_settled c)
  qed
  ultimately show ?thesis by blast
qed

theorem load_config_settles_witness:
  "\<exists>d c. load_config \<lparr>ce_md5 = (\<lambda>_. replicate 16 (CHR ''m'')), ce_x25519 = Some,
      ce_rand = Some (replicate 32 (CHR ''r''))\<rparr> NoFault ''c.json'' Map.empty = (d, Inr c) \<and>
    load_config \<lparr>ce_md5 = id, ce_x25519 = (\<lambda>_. None), ce_rand = None\<rparr> WriteFails ''c.json'' d = (d, Inr c)"
proof -
  let ?e = "\<lparr>ce_md5 = (\<lambda>_. replicate 16 (CHR ''m'')), ce_x25519 = (\<lambda>k. if length k = 32 then Some k else None),
    ce_rand = Some (replicate 32 (CHR ''r''))\<rparr>"
  let ?e1 = "\<lparr>ce_md5 = (\<lambda>_. replicate 16 (CHR ''m'')), ce_x25519 = Some, ce_rand = Some (replicate 32 (CHR ''r''))\<rparr>"
  have ok: "crypto_ok ?e" by (auto simp: crypto_ok_def)
  have k: "generate_keypair (ce_x25519 ?e) (ce_rand ?e) = generate_keypair (ce_x25519 ?e1) (ce_rand ?e1)"
    "generate_keypair (ce_x25519 ?e1) (ce_rand ?e1) \<noteq> None"
    by (simp_all add: generate_keypair_def Let_def)
  obtain b c where f: "fill_fields ?e (empty_config\<lparr>conf_path := ''c.json''\<rparr>) = (b, c)"
    "fill_fields ?e1 (empty_config\<lparr>conf_path := ''c.json''\<rparr>) = (b, c)"
    by (cases "fill_fields ?e (empty_config\<lparr>conf_path := ''c.json''\<rparr>)") (simp add: fill_fields_def)
  have "private_key c = []" "conf_path c = ''c.json''"
    using f(1) by (auto simp: fill_fields_def default_to_def init_android_device_def empty_config_def Let_def
        split: if_splits)
  with f k obtain c' where "ensure_defaults ?e (empty_config\<lparr>conf_path := ''c.json''\<rparr>) = Inr (True, c')"
    "ensure_defaults ?e1 (empty_config\<lparr>conf_path := ''c.json''\<rparr>) = Inr (True, c')" "conf_path c' = ''c.json''"
    by (auto simp: ensure_defaults_def ensure_keys_def)
  then obtain d where l: "load_config ?e NoFault ''c.json'' Map.empty = (d, Inr (parse_upstream_field c'))"
    "load_config ?e1 NoFault ''c.json'' Map.empty = (d, Inr (parse_upstream_field c'))"
    by (auto simp: load_config_def save_def Let_def)
  show ?thesis
    using load_config_settles [OF ok _ l(1), of "\<lparr>ce_md5 = id, ce_x25519 = (\<lambda>_. None), ce_rand = None\<rparr>" WriteFails] l(2)
    by blast
qed

text \<open>
  A configuration update keeps the settings valid: from valid settings, whatever the request
  holds, the node strategy, the route mode, the forced protocol and the listen address are valid
  afterwards; an empty request changes nothing; and without an error the new configuration is the
  one on disk.
\<close>

theorem update_config_keeps_valid:
  assumes "settings_ok c" and "conf_path c \<noteq> []" and "update_config f u (c, d) = ((c', d'), r)"
  shows "settings_ok c' \<and> route_mode_or_default c' \<in> {route_mode_full, route_mode_split} \<and>
    (r = None \<longrightarrow> d' (conf_path c) = Some (Stored (serialized c'))) \<and>
    (u = \<lparr>cu_socks_listen = None, cu_vpn_server_id = None, cu_strategy = None, cu_route_mode = None,
          cu_force_protocol = None, cu_upstream = None\<rparr> \<longrightarrow> c' = c)"
proof -
  have path: "conf_path (apply_update u c) = conf_path c"
    by (auto simp: apply_update_def Let_def split: option.splits)
  have ok: "settings_ok (apply_update u c)" using apply_update_ok [OF assms(1)] .
  have c': "c' = apply_update u c \<or> (\<exists>up. c' = (apply_update u c)\<lparr>upstream_parsed := up\<rparr>)"
    using assms(3) by (auto simp: update_config_def Let_def set_upstream_proxy_def
        split: if_splits sum.splits prod.splits)
  then have "settings_ok c'" using ok by (auto simp: settings_ok_def)
  moreover have "r = None \<longrightarrow> d' (conf_path c) = Some (Stored (serialized c'))"
    using assms(2,3) path by (auto simp: update_config_def Let_def set_upstream_proxy_def save_def
        split: if_splits sum.splits prod.splits save_fault.splits)
  moreover have "c' = c" if "u = \<lparr>cu_socks_listen = None, cu_vpn_server_id = None, cu_strategy = None,
      cu_route_mode = None, cu_force_protocol = None, cu_upstream = None\<rparr>"
    using assms(3) by (auto simp: that update_config_def apply_update_def Let_def split: prod.splits)
  ultimately show ?thesis by (simp add: route_mode_or_default_def)
qed

theorem update_config_keeps_valid_witness:
  "\<exists>c' d' r. update_config NoFault \<lparr>cu_socks_listen = None, cu_vpn_server_id = Some 7, cu_strategy = Some ''fastest'',
      cu_route_mode = Some ''split'', cu_force_protocol = Some '' TCP '', cu_upstream = None\<rparr>
      (empty_config\<lparr>conf_path := ''c'', vpn_select_strategy := ''default'', route_mode := ''full'', socks_listen := ''a''\<rparr>, Map.empty)
      = ((c', d'), r) \<and> settings_ok c'"
proof -
  let ?c = "empty_config\<lparr>conf_path := ''c'', vpn_select_strategy := ''default'', route_mode := ''full'', socks_listen := ''a''\<rparr>"
  let ?u = "\<lparr>cu_socks_listen = None, cu_vpn_server_id = Some 7, cu_strategy = Some ''fastest'',
      cu_route_mode = Some ''split'', cu_force_protocol = Some '' TCP '', cu_upstream = None\<rparr>"
  obtain c' d' r where u: "update_config NoFault ?u (?c, Map.empty) = ((c', d'), r)"
    by (metis prod.exhaust)
  have "settings_ok ?c" by (simp add: settings_ok_def empty_config_def strategy_default_def route_mode_full_def)
  then show ?thesis using update_config_keeps_valid [OF _ _ u] u by auto
qed

text \<open>
  A malformed upstream proxy is reported but not rejected: \<open>UpdateConfig\<close> returns the error
  with the value already stored in the configuration, the proxy in use stays the old one, and the
  next update that succeeds, even an empty one, writes the malformed value to disk.
\<close>

theorem update_config_keeps_malformed_proxy:
  assumes "parse_upstream_proxy (trim_space s) = Inl err" and "cu_upstream u = Some s"
    and "conf_path c \<noteq> []"
  shows "\<exists>c'. update_config f u (c, d) = ((c', d), Some (ProxyErr err)) \<and>
    upstream_raw c' = trim_space s \<and> upstream_parsed c' = upstream_parsed c \<and>
    update_config NoFault \<lparr>cu_socks_listen = None, cu_vpn_server_id = None, cu_strategy = None,
        cu_route_mode = None, cu_force_protocol = None, cu_upstream = None\<rparr> (c', d) =
      ((c', d(conf_path c \<mapsto> Stored (serialized c'), conf_path c @ ''.tmp'' := None)), None)"
proof -
  have a: "upstream_raw (apply_update u c) = trim_space s" "upstream_parsed (apply_update u c) = upstream_parsed c"
    "conf_path (apply_update u c) = conf_path c"
    using assms(2) by (auto simp: apply_update_def Let_def split: option.splits)
  then show ?thesis
    using assms
    by (intro exI [of _ "apply_update u c"])
      (simp add: update_config_def set_upstream_proxy_def Let_def save_def,
       simp add: apply_update_def [of "\<lparr>cu_socks_listen = None, cu_vpn_server_id = None, cu_strategy = None,
        cu_route_mode = None, cu_force_protocol = None, cu_upstream = None\<rparr>"])
qed

theorem update_config_keeps_malformed_proxy_witness:
  "\<exists>c'. update_config NoFault \<lparr>cu_socks_listen = None, cu_vpn_server_id = None, cu_strategy = None,
      cu_route_mode = None, cu_force_protocol = None, cu_upstream = Some ''ftp://host:1''\<rparr>
      (empty_config\<lparr>conf_path := ''c''\<rparr>, Map.empty) = ((c', Map.empty), Some (ProxyErr (BadScheme ''ftp''))) \<and>
    upstream_raw c' = ''ftp://host:1''"
proof -
  have t: "trim_space ''ftp://host:1'' = ''ftp://host:1''" by code_simp
  have p: "parse_upstream_proxy ''ftp://host:1'' = Inl (BadScheme ''ftp'')" by code_simp
  show ?thesis
    using update_config_keeps_malformed_proxy [of "''ftp://host:1''" "BadScheme ''ftp''"
        "\<lparr>cu_socks_listen = None, cu_vpn_server_id = None, cu_strategy = None,
      cu_route_mode = None, cu_force_protocol = None, cu_upstream = Some ''ftp://host:1''\<rparr>"
        "empty_config\<lparr>conf_path := ''c''\<rparr>" NoFault Map.empty] p t
    by auto
qed

end
