(* ===== verification/Client.thy ===== *)
theory Client
  imports Config CookieJar
begin

text \<open>
  The corplink protocol client: \<open>api.go\<close> (endpoint templates), \<open>resp.go\<close> (response types and
  their decoding) and \<open>client.go\<close> (request envelope, login flows, node list and probes, peer
  info, reports, logout). The server is an argument: it answers the \<open>n\<close>-th request of the session
  with a reply of its choice, so every property holds for every server. A JSON document is a
  tree; numbers are integers. The log of requests is a ghost of the network.
\<close>

section \<open>JSON\<close>

datatype json = JNull | JBool bool | JNum int | JStr string | JArr "json list" | JObj "(string \<times> json) list"

text \<open>Decoding a struct: every member whose key is the field's name (up to case) is decoded in
  order; \<open>null\<close> leaves the field alone; a member of the wrong type is an error.\<close>

definition dec_field :: "string \<Rightarrow> 'a \<Rightarrow> (json \<Rightarrow> 'a option) \<Rightarrow> (string \<times> json) list \<Rightarrow> 'a option" where
  "dec_field name zero dec ms =
     foldl (\<lambda>acc (k, v). case acc of
        None \<Rightarrow> None
      | Some x \<Rightarrow> if eq_fold k name then (if v = JNull then Some x else dec v) else Some x) (Some zero) ms"

fun as_str :: "json \<Rightarrow> string option" where
  "as_str (JStr s) = Some s" | "as_str _ = None"

fun as_bool :: "json \<Rightarrow> bool option" where
  "as_bool (JBool b) = Some b" | "as_bool _ = None"

definition as_int :: "int \<Rightarrow> int \<Rightarrow> json \<Rightarrow> int option" where
  "as_int lo hi j = (case j of JNum i \<Rightarrow> if lo \<le> i \<and> i \<le> hi then Some i else None | _ \<Rightarrow> None)"

definition as_int64 :: "json \<Rightarrow> int option" where
  "as_int64 = as_int (- 9223372036854775808) 9223372036854775807"

definition as_u16 :: "json \<Rightarrow> u16 option" where
  "as_u16 j = map_option word_of_int (as_int 0 65535 j)"

definition as_u32 :: "json \<Rightarrow> u32 option" where
  "as_u32 j = map_option word_of_int (as_int 0 4294967295 j)"

fun seq_opt :: "'a option list \<Rightarrow> 'a list option" where
  "seq_opt [] = Some []"
| "seq_opt (x # xs) = (case (x, seq_opt xs) of (Some a, Some as) \<Rightarrow> Some (a # as) | _ \<Rightarrow> None)"

text \<open>An array; the zero value of its element type stands for \<open>null\<close> elements.\<close>

definition as_list :: "'a \<Rightarrow> (json \<Rightarrow> 'a option) \<Rightarrow> json \<Rightarrow> 'a list option" where
  "as_list zero dec j =
     (case j of JArr js \<Rightarrow> seq_opt (map (\<lambda>x. if x = JNull then Some zero else dec x) js) | _ \<Rightarrow> None)"

section \<open>Responses (\<open>resp.go\<close>)\<close>

record raw_resp =
  rr_code :: int
  rr_message :: string
  rr_data :: "json option"
  rr_action :: string

definition dec_envelope :: "json \<Rightarrow> raw_resp option" where
  "dec_envelope j =
     (case j of
        JNull \<Rightarrow> Some \<lparr>rr_code = 0, rr_message = [], rr_data = None, rr_action = []\<rparr>
      | JObj ms \<Rightarrow>
          (case (dec_field ''code'' 0 as_int64 ms, dec_field ''message'' [] as_str ms,
                 dec_field ''action'' [] as_str ms) of
             (Some c, Some m, Some a) \<Rightarrow>
               Some \<lparr>rr_code = c, rr_message = m,
                 rr_data = foldl (\<lambda>acc (k, v). if eq_fold k ''data'' then Some v else acc) None ms,
                 rr_action = a\<rparr>
           | _ \<Rightarrow> None)
      | _ \<Rightarrow> None)"

record vpn_info =
  vi_api_port :: u16
  vi_vpn_port :: u16
  vi_ip :: string
  vi_protocol_mode :: int
  vi_name :: string
  vi_en_name :: string
  vi_icon :: string
  vi_id :: int
  vi_timeout :: int
  vi_latency :: int

definition zero_vpn :: vpn_info where
  "zero_vpn = \<lparr>vi_api_port = 0, vi_vpn_port = 0, vi_ip = [], vi_protocol_mode = 0, vi_name = [],
     vi_en_name = [], vi_icon = [], vi_id = 0, vi_timeout = 0, vi_latency = 0\<rparr>"

definition dec_vpn :: "json \<Rightarrow> vpn_info option" where
  "dec_vpn j =
     (case j of
        JObj ms \<Rightarrow>
          (case (dec_field ''api_port'' 0 as_u16 ms, dec_field ''vpn_port'' 0 as_u16 ms,
                 dec_field ''ip'' [] as_str ms, dec_field ''protocol_mode'' 0 as_int64 ms) of
             (Some ap, Some vp, Some ip, Some pm) \<Rightarrow>
               (case (dec_field ''name'' [] as_str ms, dec_field ''en_name'' [] as_str ms,
                      dec_field ''icon'' [] as_str ms) of
                  (Some nm, Some en, Some ic) \<Rightarrow>
                    (case (dec_field ''id'' 0 as_int64 ms, dec_field ''timeout'' 0 as_int64 ms,
                           dec_field ''latency_ms'' 0 as_int64 ms) of
                       (Some i, Some t, Some l) \<Rightarrow>
                         Some \<lparr>vi_api_port = ap, vi_vpn_port = vp, vi_ip = ip, vi_protocol_mode = pm,
                           vi_name = nm, vi_en_name = en, vi_icon = ic, vi_id = i, vi_timeout = t,
                           vi_latency = l\<rparr>
                     | _ \<Rightarrow> None)
                | _ \<Rightarrow> None)
           | _ \<Rightarrow> None)
      | _ \<Rightarrow> None)"

record wg_setting =
  ws_mtu :: u32
  ws_dns :: string
  ws_dns_backup :: string
  ws_dns_split :: "string list"
  ws_route_full :: "string list"
  ws_route_split :: "string list"
  ws_v6_full :: "string list"
  ws_v6_split :: "string list"

definition zero_setting :: wg_setting where
  "zero_setting = \<lparr>ws_mtu = 0, ws_dns = [], ws_dns_backup = [], ws_dns_split = [], ws_route_full = [],
     ws_route_split = [], ws_v6_full = [], ws_v6_split = []\<rparr>"

definition as_strs :: "json \<Rightarrow> string list option" where
  "as_strs = as_list [] as_str"

definition dec_setting :: "json \<Rightarrow> wg_setting option" where
  "dec_setting j =
     (case j of
        JObj ms \<Rightarrow>
          (case (dec_field ''vpn_mtu'' 0 as_u32 ms, dec_field ''vpn_dns'' [] as_str ms,
                 dec_field ''vpn_dns_backup'' [] as_str ms, dec_field ''vpn_dns_domain_split'' [] as_strs ms) of
             (Some mtu, Some dns, Some bak, Some spl) \<Rightarrow>
               (case (dec_field ''vpn_route_full'' [] as_strs ms, dec_field ''vpn_route_split'' [] as_strs ms,
                      dec_field ''v6_route_full'' [] as_strs ms, dec_field ''v6_route_split'' [] as_strs ms) of
                  (Some rf, Some rs, Some f6, Some s6) \<Rightarrow>
                    Some \<lparr>ws_mtu = mtu, ws_dns = dns, ws_dns_backup = bak, ws_dns_split = spl,
                      ws_route_full = rf, ws_route_split = rs, ws_v6_full = f6, ws_v6_split = s6\<rparr>
                | _ \<Rightarrow> None)
           | _ \<Rightarrow> None)
      | _ \<Rightarrow> None)"

record wg_info =
  wi_ip :: string
  wi_ipv6 :: string
  wi_ip_mask :: string
  wi_public_key :: string
  wi_setting :: wg_setting
  wi_mode :: u32

definition zero_wg_info :: wg_info where
  "zero_wg_info = \<lparr>wi_ip = [], wi_ipv6 = [], wi_ip_mask = [], wi_public_key = [],
     wi_setting = zero_setting, wi_mode = 0\<rparr>"

definition dec_wg_info :: "json \<Rightarrow> wg_info option" where
  "dec_wg_info j =
     (case j of
        JNull \<Rightarrow> Some zero_wg_info
      | JObj ms \<Rightarrow>
          (case (dec_field ''ip'' [] as_str ms, dec_field ''ipv6'' [] as_str ms,
                 dec_field ''ip_mask'' [] as_str ms, dec_field ''public_key'' [] as_str ms) of
             (Some ip, Some ip6, Some msk, Some pk) \<Rightarrow>
               (case (dec_field ''setting'' zero_setting dec_setting ms, dec_field ''mode'' 0 as_u32 ms) of
                  (Some st, Some md) \<Rightarrow>
                    Some \<lparr>wi_ip = ip, wi_ipv6 = ip6, wi_ip_mask = msk, wi_public_key = pk,
                      wi_setting = st, wi_mode = md\<rparr>
                | _ \<Rightarrow> None)
           | _ \<Rightarrow> None)
      | _ \<Rightarrow> None)"

text \<open>The string member of a response with one string that matters (\<open>respLogin\<close>,
  \<open>respLoginV1\<close>; the other member of \<open>respOtp\<close> must be a string too).\<close>

definition dec_member :: "string \<Rightarrow> json \<Rightarrow> string option" where
  "dec_member name j =
     (case j of JNull \<Rightarrow> Some [] | JObj ms \<Rightarrow> dec_field name [] as_str ms | _ \<Rightarrow> None)"

definition dec_otp :: "json \<Rightarrow> string option" where
  "dec_otp j =
     (case (dec_member ''url'' j, dec_member ''code'' j) of
        (Some u, Some c) \<Rightarrow> Some u
      | _ \<Rightarrow> None)"

definition dec_vpns :: "json \<Rightarrow> vpn_info list option" where
  "dec_vpns j = (if j = JNull then Some [] else as_list zero_vpn dec_vpn j)"

text \<open>\<open>out\<close> is \<open>nil\<close>: the data is not decoded.\<close>

definition dec_ignore :: "json \<Rightarrow> unit option" where
  "dec_ignore j = Some ()"

record login_method =
  lm_ldap :: bool
  lm_enable :: bool
  lm_orders :: "string list"

definition zero_login_method :: login_method where
  "zero_login_method = \<lparr>lm_ldap = False, lm_enable = False, lm_orders = []\<rparr>"

definition dec_login_method :: "json \<Rightarrow> login_method option" where
  "dec_login_method j =
     (case j of
        JNull \<Rightarrow> Some zero_login_method
      | JObj ms \<Rightarrow>
          (case (dec_field ''login_enable_ldap'' False as_bool ms, dec_field ''login_enable'' False as_bool ms,
                 dec_field ''login_orders'' [] as_strs ms) of
             (Some l, Some e, Some ords) \<Rightarrow> Some \<lparr>lm_ldap = l, lm_enable = e, lm_orders = ords\<rparr>
           | _ \<Rightarrow> None)
      | _ \<Rightarrow> None)"

record tps_login =
  tps_alias :: string
  tps_url :: string
  tps_token :: string

definition dec_tps :: "json \<Rightarrow> tps_login option" where
  "dec_tps j =
     (case j of
        JObj ms \<Rightarrow>
          (case (dec_field ''alias'' [] as_str ms, dec_field ''login_url'' [] as_str ms,
                 dec_field ''token'' [] as_str ms) of
             (Some a, Some u, Some t) \<Rightarrow> Some \<lparr>tps_alias = a, tps_url = u, tps_token = t\<rparr>
           | _ \<Rightarrow> None)
      | _ \<Rightarrow> None)"

definition dec_tpss :: "json \<Rightarrow> tps_login list option" where
  "dec_tpss j = (if j = JNull then Some []
     else as_list \<lparr>tps_alias = [], tps_url = [], tps_token = []\<rparr> dec_tps j)"

record company =
  co_name :: string
  co_zh_name :: string
  co_en_name :: string
  co_domain :: string

definition dec_company :: "json \<Rightarrow> company option" where
  "dec_company j =
     (case j of
        JObj ms \<Rightarrow>
          (case (dec_field ''name'' [] as_str ms, dec_field ''zh_name'' [] as_str ms,
                 dec_field ''en_name'' [] as_str ms, dec_field ''domain'' [] as_str ms) of
             (Some n, Some z, Some e, Some d) \<Rightarrow>
               (case (dec_field ''enable_self_signed'' False as_bool ms, dec_field ''self_signed_cert'' [] as_str ms,
                      dec_field ''enable_public_key'' False as_bool ms, dec_field ''public_key'' [] as_str ms) of
                  (Some _, Some _, Some _, Some _) \<Rightarrow>
                    Some \<lparr>co_name = n, co_zh_name = z, co_en_name = e, co_domain = d\<rparr>
                | _ \<Rightarrow> None)
           | _ \<Rightarrow> None)
      | _ \<Rightarrow> None)"

section \<open>Endpoints (\<open>api.go\<close>)\<close>

datatype api = LoginMethod | TpsLoginMethod | TpsTokenCheck | CorplinkLoginMethod | RequestEmailCode
  | LoginEmail | LoginPassword | LoginPasswordV1 | ListVPN | PingVPN | ConnectVPN | KeepAliveVPN
  | DisconnectVPN | Otp | Logout

definition api_template :: "api \<Rightarrow> string" where
  "api_template a =
     (case a of
        LoginMethod \<Rightarrow> ''{{url}}/api/login/setting?os={{os}}&os_version={{version}}''
      | TpsLoginMethod \<Rightarrow> ''{{url}}/api/tpslogin/link?os={{os}}&os_version={{version}}''
      | TpsTokenCheck \<Rightarrow> ''{{url}}/api/tpslogin/token/check?os={{os}}&os_version={{version}}''
      | CorplinkLoginMethod \<Rightarrow> ''{{url}}/api/lookup?os={{os}}&os_version={{version}}''
      | RequestEmailCode \<Rightarrow> ''{{url}}/api/login/code/send?os={{os}}&os_version={{version}}''
      | LoginEmail \<Rightarrow> ''{{url}}/api/login/code/verify?os={{os}}&os_version={{version}}''
      | LoginPassword \<Rightarrow> ''{{url}}/api/login?os={{os}}&os_version={{version}}''
      | LoginPasswordV1 \<Rightarrow> ''{{url}}/api/v1/login?os={{os}}&os_version={{version}}&client_source=FeiLian''
      | ListVPN \<Rightarrow> ''{{url}}/api/vpn/list?os={{os}}&os_version={{version}}''
      | PingVPN \<Rightarrow> ''{{url}}/vpn/ping?os={{os}}&os_version={{version}}''
      | ConnectVPN \<Rightarrow> ''{{url}}/vpn/conn?os={{os}}&os_version={{version}}''
      | KeepAliveVPN \<Rightarrow> ''{{url}}/vpn/report?os={{os}}&os_version={{version}}''
      | DisconnectVPN \<Rightarrow> ''{{url}}/vpn/report?os={{os}}&os_version={{version}}''
      | Otp \<Rightarrow> ''{{url}}/api/v2/p/otp?os={{os}}&os_version={{version}}''
      | Logout \<Rightarrow> ''{{url}}/api/logout?os={{os}}&os_version={{version}}&logout_all=false'')"

definition is_vpn_scoped :: "api \<Rightarrow> bool" where
  "is_vpn_scoped a = (a = PingVPN \<or> a = ConnectVPN \<or> a = KeepAliveVPN \<or> a = DisconnectVPN)"

text \<open>\<open>strings.NewReplacer\<close> with the three template variables; \<open>k\<close> characters of a variable
  remain to be skipped.\<close>

fun replace_vars :: "string \<Rightarrow> nat \<Rightarrow> string \<Rightarrow> string" where
  "replace_vars base k [] = []"
| "replace_vars base (Suc k) (c # s) = replace_vars base k s"
| "replace_vars base 0 (c # s) =
     (if has_prefix (c # s) ''{{url}}'' then base @ replace_vars base 6 s
      else if has_prefix (c # s) ''{{os}}'' then ''Android'' @ replace_vars base 5 s
      else if has_prefix (c # s) ''{{version}}'' then ''2'' @ replace_vars base 10 s
      else c # replace_vars base 0 s)"

definition render_url :: "api \<Rightarrow> string \<Rightarrow> string" where
  "render_url a base = replace_vars (trim_right base (CHR ''/'')) 0 (api_template a)"

definition host_of :: "string \<Rightarrow> string option" where
  "host_of raw =
     (case url_parse raw of
        None \<Rightarrow> None
      | Some u \<Rightarrow> if hostname u = [] then None else Some (hostname u))"

section \<open>The client\<close>

record http_req =
  rq_api :: api
  rq_url :: string
  rq_body :: "json option"
  rq_csrf :: "string option"
  rq_cookies :: "http_cookie list"
  rq_via :: "url option"

text \<open>\<open>rq_via\<close>: the proxy of the transport, if any.\<close>

datatype resp_body = ReadError | BlankBody | Garbage | Doc json

datatype reply =
    NetError
  | Reply (rp_status: nat) (rp_date: "instant option") (rp_body: resp_body) (rp_cookies: "http_cookie list")

record client_env =
  env_server :: "nat \<Rightarrow> http_req \<Rightarrow> reply"
  env_clock :: "nat \<Rightarrow> instant"
  env_hmac :: "bytes \<Rightarrow> bytes \<Rightarrow> bytes"
  env_sha256 :: "bytes \<Rightarrow> bytes"
  env_md5 :: "bytes \<Rightarrow> bytes"
  env_sha1 :: "bytes \<Rightarrow> bytes"
  env_aes :: "bytes \<Rightarrow> bytes \<Rightarrow> bytes \<Rightarrow> bytes"
  env_save :: "nat \<Rightarrow> save_fault"

record client =
  cl_conf :: config
  cl_jar :: jar
  cl_offset :: int
  cl_base :: string
  cl_disk :: disk
  cl_log :: "http_req list"
  cl_proxy :: "url option"

datatype client_err =
    ErrLoggedOut string | ErrNoServer api | ErrUrl | ErrNet api | ErrRead api | ErrEnvelope api
  | ErrData api | ErrMsg string | ErrCode api int string | ErrOtp | ErrPanic | ErrConf config_err
  | ErrPlatform string | ErrNoPassword | ErrV1Result string | ErrNoVPN

definition is_logged_out :: "client_err \<Rightarrow> bool" where
  "is_logged_out e = (case e of ErrLoggedOut _ \<Rightarrow> True | _ \<Rightarrow> False)"

definition or_default :: "string \<Rightarrow> string \<Rightarrow> string" where
  "or_default s def = (if s = [] then def else s)"

definition bind_cl ::
  "client \<times> ('e + 'a) \<Rightarrow> ('a \<Rightarrow> client \<Rightarrow> client \<times> ('e + 'b)) \<Rightarrow> client \<times> ('e + 'b)" where
  "bind_cl r f = (case r of (c, Inl e) \<Rightarrow> (c, Inl e) | (c, Inr a) \<Rightarrow> f a c)"

definition seed_device_cookies :: "client \<Rightarrow> client" where
  "seed_device_cookies c =
     (case host_of (server (cl_conf c)) of
        None \<Rightarrow> c
      | Some h \<Rightarrow>
          let j1 = (if device_id (cl_conf c) \<noteq> [] then jar_set h ''device_id'' (device_id (cl_conf c)) (cl_jar c)
                    else cl_jar c);
              j2 = (if device_name (cl_conf c) \<noteq> [] then jar_set h ''device_name'' (device_name (cl_conf c)) j1
                    else j1)
          in c\<lparr>cl_jar := j2\<rparr>)"

text \<open>The transport sends through the proxy of the configuration, or directly.\<close>

definition apply_upstream_proxy :: "client \<Rightarrow> client" where
  "apply_upstream_proxy c = c\<lparr>cl_proxy := proxy_url (upstream_parsed (cl_conf c))\<rparr>"

definition new_client :: "config \<Rightarrow> stored_cookie list option \<Rightarrow> disk \<Rightarrow> client" where
  "new_client conf cookies d =
     (let c = \<lparr>cl_conf = conf, cl_jar = new_jar cookies, cl_offset = 0, cl_base = [], cl_disk = d, cl_log = [],
                cl_proxy = None\<rparr>
      in apply_upstream_proxy (if server conf \<noteq> [] then seed_device_cookies c else c))"

definition set_server :: "string \<Rightarrow> client \<Rightarrow> client" where
  "set_server s c = seed_device_cookies (c\<lparr>cl_conf := (cl_conf c)\<lparr>server := s\<rparr>\<rparr>)"

definition parse_time_offset :: "instant \<Rightarrow> instant option \<Rightarrow> client \<Rightarrow> client" where
  "parse_time_offset now date c =
     (case date of None \<Rightarrow> c | Some d \<Rightarrow> c\<lparr>cl_offset := go_div (d - now) second\<rparr>)"

text \<open>\<open>request\<close>: building the request (with \<open>attachCSRF\<close> and the jar's cookies), and reading the
  reply: the status, the envelope, and the data decoded by \<open>dec\<close> when the code is 0.\<close>

definition build_request :: "instant \<Rightarrow> api \<Rightarrow> json option \<Rightarrow> string \<Rightarrow> url \<Rightarrow> client \<Rightarrow> http_req" where
  "build_request now a body base u c =
     \<lparr>rq_api = a, rq_url = render_url a base, rq_body = body,
      rq_csrf = (case host_of base of None \<Rightarrow> None | Some h \<Rightarrow> jar_get h ''csrf-token'' (cl_jar c)),
      rq_cookies = cookies_for (hostname u) now (cl_jar c), rq_via = cl_proxy c\<rparr>"

definition read_reply ::
  "api \<Rightarrow> 'a \<Rightarrow> (json \<Rightarrow> 'a option) \<Rightarrow> nat \<Rightarrow> resp_body \<Rightarrow> client_err + raw_resp \<times> 'a" where
  "read_reply a zero dec status rbody =
     (if 400 \<le> status then Inl (ErrLoggedOut ''bad resp code'')
      else case rbody of
        ReadError \<Rightarrow> Inl (ErrRead a)
      | BlankBody \<Rightarrow> Inr (\<lparr>rr_code = 0, rr_message = [], rr_data = None, rr_action = []\<rparr>, zero)
      | Garbage \<Rightarrow> Inl (ErrEnvelope a)
      | Doc j \<Rightarrow>
          (case dec_envelope j of
             None \<Rightarrow> Inl (ErrEnvelope a)
           | Some raw \<Rightarrow>
               (case (if rr_code raw = 0 then rr_data raw else None) of
                  None \<Rightarrow> Inr (raw, zero)
                | Some dj \<Rightarrow>
                    (case dec dj of None \<Rightarrow> Inl (ErrData a) | Some x \<Rightarrow> Inr (raw, x)))))"

definition request ::
  "client_env \<Rightarrow> api \<Rightarrow> json option \<Rightarrow> 'a \<Rightarrow> (json \<Rightarrow> 'a option) \<Rightarrow> client \<Rightarrow> client \<times> (client_err + raw_resp \<times> 'a)" where
  "request env a body zero dec c =
     (let base = (if is_vpn_scoped a then cl_base c else server (cl_conf c)) in
      if base = [] then (c, Inl (ErrNoServer a))
      else case url_parse (render_url a base) of
        None \<Rightarrow> (c, Inl ErrUrl)
      | Some u \<Rightarrow>
          let n = length (cl_log c);
              now = env_clock env n;
              req = build_request now a body base u c;
              c1 = c\<lparr>cl_log := cl_log c @ [req]\<rparr>
          in case env_server env n req of
               NetError \<Rightarrow> (c1, Inl (ErrNet a))
             | Reply status date rbody cks \<Rightarrow>
                 (parse_time_offset now date (c1\<lparr>cl_jar := set_cookies (hostname u) cks (cl_jar c1)\<rparr>),
                  read_reply a zero dec status rbody))"

section \<open>Login\<close>

definition save_conf :: "client_env \<Rightarrow> client \<Rightarrow> client \<times> (client_err + unit)" where
  "save_conf env c =
     (case save (env_save env (length (cl_log c))) (cl_conf c) (cl_disk c) of
        (d, None) \<Rightarrow> (c\<lparr>cl_disk := d\<rparr>, Inr ())
      | (d, Some e) \<Rightarrow> (c\<lparr>cl_disk := d\<rparr>, Inl (ErrConf e)))"

definition request_otp_uri :: "client_env \<Rightarrow> client \<Rightarrow> client \<times> (client_err + string)" where
  "request_otp_uri env c =
     bind_cl (request env Otp (Some (JObj [])) [] dec_otp c) (\<lambda>(raw, uri) c1.
       if rr_code raw \<noteq> 0 then (c1, Inl (ErrMsg (or_default (rr_message raw) ''request otp failed'')))
       else (c1, Inr uri))"

text \<open>\<open>url.QueryUnescape\<close> and the \<open>secret\<close> parameter of \<open>url.Query\<close>: pairs with a semicolon or a
  bad escape are dropped, the first match counts.\<close>

definition query_unescape :: "string \<Rightarrow> string option" where
  "query_unescape s = unescape False (map (\<lambda>c. if c = CHR ''+'' then CHR '' '' else c) s)"

definition query_pairs :: "string \<Rightarrow> (string \<times> string) list" where
  "query_pairs q =
     List.map_filter (\<lambda>p.
       if p = [] \<or> CHR '';'' \<in> set p then None
       else case cut_byte (CHR ''='') p of
         (k, v, _) \<Rightarrow>
           (case (query_unescape k, query_unescape v) of
              (Some k', Some v') \<Rightarrow> Some (k', v')
            | _ \<Rightarrow> None)) (split_str q ''&'')"

definition otp_secret_from_uri :: "string \<Rightarrow> string" where
  "otp_secret_from_uri uri =
     (case url_parse uri of
        None \<Rightarrow> []
      | Some u \<Rightarrow>
          (case map_of (query_pairs (case u_query u of None \<Rightarrow> [] | Some q \<Rightarrow> q)) ''secret'' of
             None \<Rightarrow> [] | Some v \<Rightarrow> v))"

definition finalize_login :: "client_env \<Rightarrow> client \<Rightarrow> client \<times> (client_err + unit)" where
  "finalize_login env c =
     (case request_otp_uri env c of
        (c1, Inl _) \<Rightarrow> save_conf env c1
      | (c1, Inr uri) \<Rightarrow>
          let secret = (if uri = [] then [] else otp_secret_from_uri uri)
          in save_conf env (if secret \<noteq> [] then c1\<lparr>cl_conf := (cl_conf c1)\<lparr>otp_code := secret\<rparr>\<rparr> else c1))"

definition login_v1 :: "client_env \<Rightarrow> string \<Rightarrow> string \<Rightarrow> client \<Rightarrow> client \<times> (client_err + unit)" where
  "login_v1 env user pw c =
     (if pw = [] then (c, Inl ErrNoPassword)
      else
        let enc = feilian_v1_encrypt (env_md5 env) (env_sha1 env) (env_aes env) pw in
        bind_cl (request env LoginPasswordV1
            (Some (JObj [(''login_scene'', JStr platform_corplink), (''account_type'', JStr ''userid''),
              (''account'', JStr user), (''password'', JStr enc)])) [] (dec_member ''result'') c)
          (\<lambda>(raw, result) c1.
             if rr_code raw \<noteq> 0 then (c1, Inl (ErrMsg (or_default (rr_message raw) ''v1 login failed'')))
             else if result \<noteq> ''success'' then (c1, Inl (ErrV1Result result))
             else finalize_login env c1))"

definition login_with_password ::
  "client_env \<Rightarrow> string \<Rightarrow> string \<Rightarrow> string \<Rightarrow> client \<Rightarrow> client \<times> (client_err + unit)" where
  "login_with_password env user pw plat0 c0 =
     (let plat = (if plat0 = [] then platform_corplink else plat0);
          c = c0\<lparr>cl_conf := (cl_conf c0)\<lparr>username := user, platform := plat\<rparr>\<rparr>
      in if plat = platform_corplink_v1 then login_v1 env user pw c
         else
           let fields = (if plat = platform_ldap then
                           Some [(''platform'', JStr platform_ldap), (''password'', JStr pw)]
                         else if plat = platform_corplink then
                           Some [(''password'', JStr (if length pw \<noteq> 64 then sha256_hex (env_sha256 env) pw else pw))]
                         else None)
           in case fields of
                None \<Rightarrow> (c, Inl (ErrPlatform plat))
              | Some fs \<Rightarrow>
                  bind_cl (request env LoginPassword (Some (JObj ((''user_name'', JStr user) # fs))) []
                      (dec_member ''url'') c)
                    (\<lambda>(raw, url) c1.
                       if rr_code raw \<noteq> 0
                       then (c1, Inl (ErrMsg (or_default (rr_message raw) ''login with password failed'')))
                       else finalize_login env c1))"

definition request_email_code :: "client_env \<Rightarrow> string \<Rightarrow> client \<Rightarrow> client \<times> (client_err + unit)" where
  "request_email_code env user c =
     bind_cl (request env RequestEmailCode
         (Some (JObj [(''forget_password'', JBool False), (''code_type'', JStr ''email''), (''user_name'', JStr user)]))
         () dec_ignore (c\<lparr>cl_conf := (cl_conf c)\<lparr>username := user\<rparr>\<rparr>))
       (\<lambda>_ c1. (c1, Inr ()))"

definition login_with_email :: "client_env \<Rightarrow> string \<Rightarrow> string \<Rightarrow> client \<Rightarrow> client \<times> (client_err + unit)" where
  "login_with_email env user code c =
     bind_cl (request env LoginEmail
         (Some (JObj [(''forget_password'', JBool False), (''code_type'', JStr ''email''), (''code'', JStr code)]))
         [] (dec_member ''url'') (c\<lparr>cl_conf := (cl_conf c)\<lparr>username := user\<rparr>\<rparr>))
       (\<lambda>(raw, url) c1.
          if rr_code raw \<noteq> 0
          then (c1, Inl (ErrMsg (''failed to login with email code: '' @ or_default (rr_message raw) ''unknown error'')))
          else finalize_login env c1)"

definition check_tps_token :: "client_env \<Rightarrow> string \<Rightarrow> client \<Rightarrow> client \<times> (client_err + string)" where
  "check_tps_token env token c =
     bind_cl (request env TpsTokenCheck (Some (JObj [(''token'', JStr token)])) [] (dec_member ''url'') c)
       (\<lambda>(raw, url) c1.
          if rr_code raw \<noteq> 0 then (c1, Inl (ErrMsg (or_default (rr_message raw) ''tps token check failed'')))
          else (c1, Inr url))"

text \<open>\<open>GetLoginMethods\<close>: the SSO options are best effort.\<close>

definition get_login_methods ::
  "client_env \<Rightarrow> client \<Rightarrow> client \<times> (client_err + login_method \<times> tps_login list)" where
  "get_login_methods env c =
     bind_cl (request env LoginMethod None zero_login_method dec_login_method c) (\<lambda>(_, lm) c1.
       case request env TpsLoginMethod None [] dec_tpss c1 of
         (c2, Inl _) \<Rightarrow> (c2, Inr (lm, []))
       | (c2, Inr (_, tps)) \<Rightarrow> (c2, Inr (lm, tps)))"

text \<open>\<open>GetCompanyWithProxy\<close>, from the decoded reply of the dispatch endpoint; the status code is
  not looked at, and \<open>data\<close> must be present and not \<open>null\<close>.\<close>

datatype company_err = CompanyNet | CompanyParse | CompanyMsg string

definition get_company :: "resp_body option \<Rightarrow> company_err + company" where
  "get_company rbody =
     (case rbody of
        None \<Rightarrow> Inl CompanyNet
      | Some (Doc j) \<Rightarrow>
          (case dec_envelope j of
             None \<Rightarrow> Inl CompanyParse
           | Some raw \<Rightarrow>
               (case rr_data raw of
                  Some d \<Rightarrow>
                    if d = JNull then Inl (CompanyMsg (or_default (rr_message raw) ''failed to fetch company info''))
                    else (case dec_company d of
                      None \<Rightarrow> Inl CompanyParse
                    | Some co \<Rightarrow>
                        if rr_code raw \<noteq> 0
                        then Inl (CompanyMsg (or_default (rr_message raw) ''failed to fetch company info''))
                        else Inr co)
                | None \<Rightarrow> Inl (CompanyMsg (or_default (rr_message raw) ''failed to fetch company info''))))
      | Some _ \<Rightarrow> Inl CompanyParse)"

section \<open>Nodes\<close>

definition list_vpn :: "client_env \<Rightarrow> client \<Rightarrow> client \<times> (client_err + vpn_info list)" where
  "list_vpn env c =
     bind_cl (request env ListVPN None [] dec_vpns c) (\<lambda>(raw, vpns) c1.
       if rr_code raw = 0 then
         (c1, Inr (map (\<lambda>v. v\<lparr>vi_latency := 0\<rparr>)
            (filter (\<lambda>v. vi_protocol_mode v = 1 \<or> vi_protocol_mode v = 2) vpns)))
       else if rr_code raw = 101 then (c1, Inl (ErrLoggedOut (or_default (rr_message raw) ''logout required'')))
       else (c1, Inl (ErrCode ListVPN (rr_code raw) (rr_message raw))))"

text \<open>The base URL that \<open>setVPNBase\<close> makes of the server URL and a node.\<close>

definition node_base :: "string \<Rightarrow> string \<Rightarrow> u16 \<Rightarrow> string option" where
  "node_base srv ip port =
     (case url_parse srv of
        None \<Rightarrow> None
      | Some u \<Rightarrow>
          Some (trim_right (url_string (u\<lparr>u_host := join_host_port ip (itoa (unat port))\<rparr>)) (CHR ''/'')))"

definition set_vpn_base :: "string \<Rightarrow> u16 \<Rightarrow> client \<Rightarrow> client \<times> (client_err + unit)" where
  "set_vpn_base ip port c =
     (case (url_parse (server (cl_conf c)), node_base (server (cl_conf c)) ip port) of
        (Some u, Some b) \<Rightarrow>
          (c\<lparr>cl_jar := copy_host (hostname u) ip (cl_jar c), cl_base := b\<rparr>, Inr ())
      | _ \<Rightarrow> (c, Inl ErrUrl))"

definition activate_node :: "vpn_info \<Rightarrow> client \<Rightarrow> client \<times> (client_err + unit)" where
  "activate_node v c = set_vpn_base (vi_ip v) (vi_api_port v) c"

text \<open>\<open>pingNode\<close>: the latency in milliseconds, from the clock before and after the request.\<close>

definition ping_node :: "client_env \<Rightarrow> string \<Rightarrow> u16 \<Rightarrow> client \<Rightarrow> client \<times> (client_err + int)" where
  "ping_node env ip port c =
     bind_cl (set_vpn_base ip port c) (\<lambda>_ c1.
       let start = env_clock env (length (cl_log c1)) in
       bind_cl (request env PingVPN None () dec_ignore c1) (\<lambda>(raw, _) c2.
         if rr_code raw \<noteq> 0 then (c2, Inl (ErrCode PingVPN (rr_code raw) (rr_message raw)))
         else (c2, Inr (go_div (env_clock env (length (cl_log c2)) - start) millisecond))))"

text \<open>\<open>ProbeLatencies\<close>: the probes are serialized by \<open>probeMu\<close>; \<open>ord\<close> is the order in which
  they got the lock.\<close>

fun probe_all :: "client_env \<Rightarrow> nat list \<Rightarrow> vpn_info list \<Rightarrow> client \<Rightarrow> client \<times> vpn_info list" where
  "probe_all env [] vpns c = (c, vpns)"
| "probe_all env (i # is) vpns c =
     (case ping_node env (vi_ip (vpns ! i)) (vi_api_port (vpns ! i)) c of
        (c1, r) \<Rightarrow>
          probe_all env is (vpns[i := (vpns ! i)\<lparr>vi_latency := (case r of Inl _ \<Rightarrow> -1 | Inr l \<Rightarrow> l)\<rparr>]) c1)"

definition gen_otp_now :: "client_env \<Rightarrow> client \<Rightarrow> client_err + string" where
  "gen_otp_now env c =
     (case gen_otp (env_hmac env) (otp_code (cl_conf c)) (cl_offset c)
             (nat (env_clock env (length (cl_log c)) div second)) of
        None \<Rightarrow> Inl ErrPanic
      | Some (Inl _) \<Rightarrow> Inl ErrOtp
      | Some (Inr s) \<Rightarrow> Inr s)"

definition fetch_peer_info :: "client_env \<Rightarrow> string \<Rightarrow> client \<Rightarrow> client \<times> (client_err + wg_info)" where
  "fetch_peer_info env otp_override c =
     bind_cl (c, if otp_override = [] then gen_otp_now env c else Inr otp_override) (\<lambda>otp c0.
       bind_cl (request env ConnectVPN
           (Some (JObj [(''public_key'', JStr (public_key (cl_conf c0))), (''otp'', JStr otp)]))
           zero_wg_info dec_wg_info c0)
         (\<lambda>(raw, info) c1.
            if rr_code raw = 0 then (c1, Inr info)
            else if rr_code raw = 101 then (c1, Inl (ErrLoggedOut (or_default (rr_message raw) ''logout required'')))
            else (c1, Inl (ErrCode ConnectVPN (rr_code raw) (rr_message raw)))))"

definition report_device ::
  "client_env \<Rightarrow> string \<Rightarrow> string \<Rightarrow> bool \<Rightarrow> client \<Rightarrow> client \<times> (client_err + unit)" where
  "report_device env address mode disconnect c =
     (let a = (if disconnect then DisconnectVPN else KeepAliveVPN) in
      bind_cl (request env a
          (Some (JObj [(''ip'', JStr address), (''public_key'', JStr (public_key (cl_conf c))),
             (''mode'', JStr mode), (''type'', JStr (if disconnect then ''101'' else ''100''))]))
          () dec_ignore c)
        (\<lambda>(raw, _) c1.
           if rr_code raw \<noteq> 0 then (c1, Inl (ErrCode a (rr_code raw) (rr_message raw))) else (c1, Inr ())))"

definition logout :: "client_env \<Rightarrow> client \<Rightarrow> client \<times> (client_err + unit)" where
  "logout env c =
     (case request env Logout None () dec_ignore c of
        (c1, r) \<Rightarrow> (c1\<lparr>cl_jar := jar_clear (cl_jar c1)\<rparr>, map_sum id (\<lambda>_. ()) r))"

end
