(* ===== verification/WgConf.thy ===== *)
theory WgConf
  imports Client
begin

text \<open>
  From node to tunnel configuration: \<open>SelectVPN\<close> and \<open>BuildWgConf\<close> of \<open>corplink/connect.go\<close>.
  The properties here and on the client's state: which fields a request leaves alone, which node
  a selection returns, and which addresses a built configuration routes into the tunnel.
\<close>

section \<open>Definitions\<close>

record wg_conf =
  wc_address :: string
  wc_address6 :: string
  wc_peer_address :: string
  wc_mtu :: u32
  wc_public_key :: string
  wc_private_key :: string
  wc_peer_key :: string
  wc_allowed :: "string list"
  wc_routes :: "string list"
  wc_dns :: string
  wc_protocol :: nat

datatype build_err = BadMask string | NoRoutes

text \<open>\<open>BuildWgConf\<close>; the outer \<open>None\<close> is a panic of the route arithmetic.\<close>

definition route_base :: "config \<Rightarrow> wg_info \<Rightarrow> string list" where
  "route_base conf info =
     (if route_mode_or_default conf = route_mode_split
      then ws_route_split (wi_setting info) @ ws_v6_split (wi_setting info)
      else ws_route_full (wi_setting info) @ ws_v6_full (wi_setting info))"

definition choose_protocol :: "config \<Rightarrow> vpn_info \<Rightarrow> nat" where
  "choose_protocol conf node =
     (if eq_fold (force_protocol conf) ''udp'' then 0
      else if eq_fold (force_protocol conf) ''tcp'' then 1
      else if vi_protocol_mode node = 1 then 1 else 0)"

definition build_wg_conf :: "config \<Rightarrow> vpn_info \<Rightarrow> wg_info \<Rightarrow> (build_err + wg_conf) option" where
  "build_wg_conf conf node info =
     (case atoi (wi_ip_mask info) of
        None \<Rightarrow> Some (Inl (BadMask (wi_ip_mask info)))
      | Some msk \<Rightarrow>
          let address = wi_ip info @ ''/'' @ itoa_int msk;
              address6 = (if wi_ipv6 info \<noteq> [] then wi_ipv6 info @ ''/128'' else []);
              allowed0 = route_base conf info
          in if route_mode_or_default conf \<noteq> route_mode_split \<and> allowed0 = [] then Some (Inl NoRoutes)
             else
               (case (case host_cidr (vi_ip node) of
                        None \<Rightarrow> Some allowed0
                      | Some peer \<Rightarrow> carve_all peer allowed0) of
                  None \<Rightarrow> None
                | Some allowed1 \<Rightarrow>
                    (case ensure_dns_allowed_ips allowed1 (ws_dns (wi_setting info)) of
                       None \<Rightarrow> None
                     | Some allowed2 \<Rightarrow>
                         let allowed3 = (if address6 = [] then filter_ipv6_routes allowed2 else allowed2);
                             allowed = normalize_cidrs allowed3
                         in Some (Inr \<lparr>wc_address = address, wc_address6 = address6,
                              wc_peer_address = vi_ip node @ '':'' @ itoa (unat (vi_vpn_port node)),
                              wc_mtu = ws_mtu (wi_setting info), wc_public_key = public_key conf,
                              wc_private_key = private_key conf, wc_peer_key = wi_public_key info,
                              wc_allowed = allowed, wc_routes = allowed,
                              wc_dns = ws_dns (wi_setting info),
                              wc_protocol = choose_protocol conf node\<rparr>))))"

text \<open>The two probing loops of \<open>SelectVPN\<close>.\<close>

fun latency_loop ::
  "client_env \<Rightarrow> vpn_info list \<Rightarrow> vpn_info option \<Rightarrow> int \<Rightarrow> client \<Rightarrow> client \<times> vpn_info option" where
  "latency_loop env [] best mn c = (c, best)"
| "latency_loop env (v # vs) best mn c =
     (case ping_node env (vi_ip v) (vi_api_port v) c of
        (c1, Inl _) \<Rightarrow> latency_loop env vs best mn c1
      | (c1, Inr l) \<Rightarrow>
          if l < mn then latency_loop env vs (Some v) l c1 else latency_loop env vs best mn c1)"

fun first_reachable :: "client_env \<Rightarrow> vpn_info list \<Rightarrow> client \<Rightarrow> client \<times> vpn_info option" where
  "first_reachable env [] c = (c, None)"
| "first_reachable env (v # vs) c =
     (case ping_node env (vi_ip v) (vi_api_port v) c of
        (c1, Inl _) \<Rightarrow> first_reachable env vs c1
      | (c1, Inr _) \<Rightarrow> (c1, Some v))"

definition activate_and_return :: "vpn_info \<Rightarrow> client \<Rightarrow> client \<times> (client_err + vpn_info)" where
  "activate_and_return v c = bind_cl (activate_node v c) (\<lambda>_ c1. (c1, Inr v))"

definition max_int64 :: int where
  "max_int64 = 9223372036854775807"

definition select_vpn :: "client_env \<Rightarrow> vpn_info list \<Rightarrow> client \<Rightarrow> client \<times> (client_err + vpn_info)" where
  "select_vpn env vpns c =
     (if vpns = [] then (c, Inl ErrNoVPN)
      else
        let pin = vpn_server_id (cl_conf c) in
        case (if pin \<noteq> 0 then find (\<lambda>v. vi_id v = pin) vpns else None) of
          Some v \<Rightarrow> activate_and_return v c
        | None \<Rightarrow>
            (case (if vpn_select_strategy (cl_conf c) = strategy_latency
                   then latency_loop env vpns None max_int64 c
                   else first_reachable env vpns c) of
               (c1, best) \<Rightarrow> activate_and_return (case best of None \<Rightarrow> hd vpns | Some v \<Rightarrow> v) c1))"

section \<open>What a request leaves alone\<close>

lemma request_frame:
  "cl_conf (fst (request env a body zero dec c)) = cl_conf c"
  "cl_base (fst (request env a body zero dec c)) = cl_base c"
  "cl_disk (fst (request env a body zero dec c)) = cl_disk c"
  "cl_proxy (fst (request env a body zero dec c)) = cl_proxy c"
  "\<exists>reqs. cl_log (fst (request env a body zero dec c)) = cl_log c @ reqs \<and> length reqs \<le> 1 \<and>
     (\<forall>r \<in> set reqs. rq_api r = a \<and> rq_body r = body \<and> rq_via r = cl_proxy c)"
proof -
  define base where "base = (if is_vpn_scoped a then cl_base c else server (cl_conf c))"
  have off: "cl_conf (parse_time_offset n d x) = cl_conf x" "cl_base (parse_time_offset n d x) = cl_base x"
    "cl_disk (parse_time_offset n d x) = cl_disk x" "cl_proxy (parse_time_offset n d x) = cl_proxy x" "cl_log (parse_time_offset n d x) = cl_log x" for n d x
    by (simp_all add: parse_time_offset_def split: option.splits)
  show "cl_conf (fst (request env a body zero dec c)) = cl_conf c"
    "cl_base (fst (request env a body zero dec c)) = cl_base c"
    "cl_disk (fst (request env a body zero dec c)) = cl_disk c"
    "cl_proxy (fst (request env a body zero dec c)) = cl_proxy c"
    by (simp_all add: request_def Let_def off split: option.splits reply.splits)
  have "\<exists>reqs. cl_log (fst (request env a body zero dec c)) = cl_log c @ reqs \<and>
      (reqs = [] \<or> (\<exists>u now. reqs = [build_request now a body base u c]))"
    by (simp add: request_def Let_def off base_def [symmetric] split: option.splits reply.splits) blast
  then show "\<exists>reqs. cl_log (fst (request env a body zero dec c)) = cl_log c @ reqs \<and> length reqs \<le> 1 \<and>
     (\<forall>r \<in> set reqs. rq_api r = a \<and> rq_body r = body \<and> rq_via r = cl_proxy c)"
    by (auto simp: build_request_def)
qed

lemma bind_cl_fst: "fst (bind_cl r f) = (case snd r of Inl e \<Rightarrow> fst r | Inr a \<Rightarrow> fst (f a (fst r)))"
  by (auto simp: bind_cl_def split: prod.splits sum.splits)

lemma bind_cl_Inr: "bind_cl r f = (c, Inr b) \<longleftrightarrow> (\<exists>c1 a. r = (c1, Inr a) \<and> f a c1 = (c, Inr b))"
  by (auto simp: bind_cl_def split: prod.splits sum.splits)

lemma set_vpn_base_frame [simp]:
  "cl_conf (fst (set_vpn_base ip port c)) = cl_conf c"
  "cl_log (fst (set_vpn_base ip port c)) = cl_log c"
  by (auto simp: set_vpn_base_def split: option.splits)

lemma ping_node_conf [simp]: "cl_conf (fst (ping_node env ip port c)) = cl_conf c"
  by (auto simp: ping_node_def bind_cl_fst request_frame Let_def split: sum.splits if_splits prod.splits)

lemma latency_loop_conf: "cl_conf (fst (latency_loop env vs best mn c)) = cl_conf c"
proof (induction vs arbitrary: best mn c)
  case (Cons v vs)
  then show ?case
    by (cases "ping_node env (vi_ip v) (vi_api_port v) c")
      (use ping_node_conf [of env "vi_ip v" "vi_api_port v" c] in \<open>auto split: sum.splits\<close>)
qed simp

lemma first_reachable_conf: "cl_conf (fst (first_reachable env vs c)) = cl_conf c"
proof (induction vs arbitrary: c)
  case (Cons v vs)
  then show ?case
    by (cases "ping_node env (vi_ip v) (vi_api_port v) c")
      (use ping_node_conf [of env "vi_ip v" "vi_api_port v" c] in \<open>auto split: sum.splits\<close>)
qed simp

section \<open>Selection\<close>

lemma activate_result:
  "activate_and_return v c = (c', Inr w) \<Longrightarrow>
     w = v \<and> node_base (server (cl_conf c)) (vi_ip v) (vi_api_port v) = Some (cl_base c') \<and> cl_conf c' = cl_conf c"
  by (auto simp: activate_and_return_def bind_cl_Inr activate_node_def set_vpn_base_def split: option.splits)

text \<open>All the nodes probed one after the other, and the outcomes.\<close>

fun probes :: "client_env \<Rightarrow> vpn_info list \<Rightarrow> client \<Rightarrow> client \<times> (client_err + int) list" where
  "probes env [] c = (c, [])"
| "probes env (v # vs) c =
     (case ping_node env (vi_ip v) (vi_api_port v) c of
        (c1, r) \<Rightarrow> (case probes env vs c1 of (c2, rs) \<Rightarrow> (c2, r # rs)))"

lemma probes_length: "length (snd (probes env vs c)) = length vs"
proof (induction vs arbitrary: c)
  case (Cons v vs)
  obtain c1 r where p: "ping_node env (vi_ip v) (vi_api_port v) c = (c1, r)" by fastforce
  show ?case using Cons.IH [of c1] by (cases "probes env vs c1") (simp add: p)
qed simp

fun argmin :: "(vpn_info \<times> (client_err + int)) list \<Rightarrow> vpn_info option \<Rightarrow> int \<Rightarrow> vpn_info option \<times> int" where
  "argmin [] best mn = (best, mn)"
| "argmin ((v, r) # rest) best mn =
     (case r of Inl _ \<Rightarrow> argmin rest best mn
      | Inr l \<Rightarrow> if l < mn then argmin rest (Some v) l else argmin rest best mn)"

lemma latency_loop_probes:
  "latency_loop env vs best mn c =
     (fst (probes env vs c), fst (argmin (zip vs (snd (probes env vs c))) best mn))"
  by (induction vs arbitrary: best mn c) (auto split: prod.splits sum.splits)

lemma argmin_bound: "snd (argmin ps best mn) \<le> mn"
  by (induction ps best mn rule: argmin.induct) (auto split: sum.splits)

lemma argmin_le: "(v, Inr l) \<in> set ps \<Longrightarrow> snd (argmin ps best mn) \<le> l"
proof (induction ps best mn rule: argmin.induct)
  case (2 w r rest best mn)
  then show ?case
    using argmin_bound [of rest "Some w" l] argmin_bound [of rest best mn]
    by (auto split: sum.splits)
qed simp

lemma argmin_attained:
  "argmin ps best mn = (b, m) \<Longrightarrow> (b = best \<and> m = mn) \<or> (\<exists>v. b = Some v \<and> (v, Inr m) \<in> set ps)"
proof (induction ps best mn rule: argmin.induct)
  case (2 w r rest best mn)
  then show ?case by (auto split: sum.splits if_splits)
qed simp

lemma first_reachable_probe:
  "first_reachable env vs c = (c', Some v) \<Longrightarrow> v \<in> set vs"
  by (induction vs arbitrary: c) (auto split: prod.splits sum.splits)

lemma find_pinned: "find (\<lambda>v. vi_id v = pin) vs = Some v \<Longrightarrow> v \<in> set vs \<and> vi_id v = pin"
  using find_SomeD [of "\<lambda>v. vi_id v = pin" vs v] by simp

lemma find_pinned_None: "find (\<lambda>v. vi_id v = pin) vs = None \<Longrightarrow> v \<in> set vs \<Longrightarrow> vi_id v \<noteq> pin"
  by (auto simp: find_None_iff)

text \<open>The best of the probed nodes: reachable, and no reachable one is faster; or no node answered
  and it is the first.\<close>

definition fastest :: "vpn_info list \<Rightarrow> (client_err + int) list \<Rightarrow> vpn_info \<Rightarrow> bool" where
  "fastest vpns rs v =
     ((\<exists>l. (v, Inr l) \<in> set (zip vpns rs) \<and> (\<forall>w l'. (w, Inr l') \<in> set (zip vpns rs) \<longrightarrow> l \<le> l')) \<or>
      (v = hd vpns \<and> (\<forall>w l'. (w, Inr l') \<in> set (zip vpns rs) \<longrightarrow> max_int64 \<le> l')))"

lemma latency_loop_fastest:
  assumes "vpns \<noteq> []" and "latency_loop env vpns None max_int64 c = (c1, best)"
  defines "v \<equiv> (case best of None \<Rightarrow> hd vpns | Some v \<Rightarrow> v)"
  shows "fastest vpns (snd (probes env vpns c)) v \<and> v \<in> set vpns"
proof -
  let ?ps = "zip vpns (snd (probes env vpns c))"
  obtain b m where am: "argmin ?ps None max_int64 = (b, m)" by fastforce
  have b: "best = b" using assms(2) am by (simp add: latency_loop_probes)
  have le: "m \<le> l'" if "(w, Inr l') \<in> set ?ps" for w l'
    using argmin_le [OF that, of None max_int64] am by simp
  from argmin_attained [OF am] show ?thesis
  proof
    assume "b = None \<and> m = max_int64"
    then show ?thesis using le assms(1) by (auto simp: fastest_def v_def b)
  next
    assume "\<exists>v. b = Some v \<and> (v, Inr m) \<in> set ?ps"
    then obtain w where w: "b = Some w" "(w, Inr m) \<in> set ?ps" by blast
    then have "w \<in> set vpns" by (auto dest: set_zip_leftD)
    with w le show ?thesis by (auto simp: fastest_def v_def b)
  qed
qed

section \<open>Routes of the built configuration\<close>

definition peer_addrs :: "vpn_info \<Rightarrow> addr set" where
  "peer_addrs node = (case host_cidr (vi_ip node) of None \<Rightarrow> {} | Some c \<Rightarrow> route_addrs c)"

definition tunnel_addrs :: "config \<Rightarrow> vpn_info \<Rightarrow> wg_info \<Rightarrow> addr set" where
  "tunnel_addrs conf node info =
     (routes_addrs (route_base conf info) - peer_addrs node) \<union>
     without_zone ` set (dns_addrs (ws_dns (wi_setting info)))"

lemma carved_base:
  "\<exists>rs. (case host_cidr (vi_ip node) of None \<Rightarrow> Some xs | Some peer \<Rightarrow> carve_all peer xs) = Some rs \<and>
     routes_addrs rs = routes_addrs xs - peer_addrs node"
  using carve_all_set [of _ xs] by (auto simp: peer_addrs_def split: option.splits)

lemma build_wg_conf_total:
  assumes "atoi (wi_ip_mask info) = Some msk"
    and "\<not> (route_mode_or_default conf \<noteq> route_mode_split \<and> route_base conf info = [])"
  shows "\<exists>wc. build_wg_conf conf node info = Some (Inr wc) \<and> wc_routes wc = wc_allowed wc \<and>
    distinct (wc_allowed wc) \<and> (\<forall>r \<in> set (wc_allowed wc). parse_prefix r \<noteq> None) \<and>
    routes_addrs (wc_allowed wc) =
      (if wi_ipv6 info = [] then {a \<in> tunnel_addrs conf node info. is4 a} else tunnel_addrs conf node info)"
proof -
  obtain rs where rs: "(case host_cidr (vi_ip node) of None \<Rightarrow> Some (route_base conf info)
      | Some peer \<Rightarrow> carve_all peer (route_base conf info)) = Some rs"
    "routes_addrs rs = routes_addrs (route_base conf info) - peer_addrs node"
    using carved_base by blast
  obtain ds where ds: "ensure_dns_allowed_ips rs (ws_dns (wi_setting info)) = Some ds"
    "routes_addrs ds = tunnel_addrs conf node info"
    using ensure_dns_spec [of rs "ws_dns (wi_setting info)"] rs(2) by (auto simp: tunnel_addrs_def)
  define fin where "fin = normalize_cidrs (if wi_ipv6 info = [] then filter_ipv6_routes ds else ds)"
  have "distinct fin" "\<forall>r \<in> set fin. parse_prefix r \<noteq> None"
    by (simp_all add: fin_def normalize_cidrs_spec)
  moreover have "routes_addrs fin =
      (if wi_ipv6 info = [] then {a \<in> tunnel_addrs conf node info. is4 a} else tunnel_addrs conf node info)"
    by (simp add: fin_def filter_ipv6_addrs ds(2))
  moreover have "\<exists>wc. build_wg_conf conf node info = Some (Inr wc) \<and> wc_routes wc = fin \<and> wc_allowed wc = fin"
    using assms(2) by (simp add: build_wg_conf_def assms(1) rs(1) ds(1) Let_def fin_def)
  ultimately show ?thesis by auto
qed

lemma build_wg_conf_result:
  "build_wg_conf conf node info = Some (Inr wc) \<Longrightarrow>
     routes_addrs (wc_allowed wc) =
      (if wi_ipv6 info = [] then {a \<in> tunnel_addrs conf node info. is4 a} else tunnel_addrs conf node info) \<and>
     wc_routes wc = wc_allowed wc"
proof -
  assume b: "build_wg_conf conf node info = Some (Inr wc)"
  then obtain msk where "atoi (wi_ip_mask info) = Some msk"
    "\<not> (route_mode_or_default conf \<noteq> route_mode_split \<and> route_base conf info = [])"
    by (auto simp: build_wg_conf_def Let_def split: option.splits if_splits)
  from build_wg_conf_total [OF this, of node] b show ?thesis by auto
qed

lemma peer_addrs_eq:
  assumes "parse_addr (vi_ip node) = Some a" and "zone_of a = []"
  shows "peer_addrs node = {a}"
proof -
  obtain c where "host_cidr (vi_ip node) = Some c"
    using assms(1) by (cases "is4 a") (auto simp: host_cidr_def)
  with host_cidr_addrs [OF this assms] show ?thesis by (simp add: peer_addrs_def)
qed

section \<open>Login requests\<close>

definition password_sent :: "client_env \<Rightarrow> string \<Rightarrow> string \<Rightarrow> string option" where
  "password_sent env plat pw =
     (if plat = platform_corplink_v1 then Some (feilian_v1_encrypt (env_md5 env) (env_sha1 env) (env_aes env) pw)
      else if plat = platform_ldap then Some pw
      else if plat = platform_corplink \<or> plat = [] then
        Some (if length pw \<noteq> 64 then sha256_hex (env_sha256 env) pw else pw)
      else None)"

definition body_member :: "string \<Rightarrow> json option \<Rightarrow> json option" where
  "body_member k b = (case b of Some (JObj ms) \<Rightarrow> map_of ms k | _ \<Rightarrow> None)"

lemma request_log:
  assumes "request env a body zero dec c = (c', r)"
  shows "\<exists>reqs. cl_log c' = cl_log c @ reqs \<and> length reqs \<le> 1 \<and> (\<forall>r \<in> set reqs. rq_api r = a \<and> rq_body r = body)"
  using request_frame(5) [of env a body zero dec c] assms by fastforce

lemma save_conf_log: "cl_log (fst (save_conf env c)) = cl_log c"
  by (auto simp: save_conf_def split: prod.splits option.splits)

lemma finalize_login_log:
  assumes "finalize_login env c = (c', r)"
  shows "\<exists>reqs. cl_log c' = cl_log c @ reqs \<and> length reqs \<le> 1 \<and>
    (\<forall>q \<in> set reqs. rq_api q = Otp \<and> body_member ''password'' (rq_body q) = None)"
proof -
  obtain c1 r1 where q: "request env Otp (Some (JObj [])) [] dec_otp c = (c1, r1)" by fastforce
  have o: "fst (request_otp_uri env c) = c1"
    by (auto simp: request_otp_uri_def q bind_cl_def split: sum.splits prod.splits)
  have "cl_log (fst (finalize_login env c)) = cl_log (fst (request_otp_uri env c))"
  proof (cases "request_otp_uri env c")
    case (Pair c2 r2)
    then show ?thesis
      by (cases r2) (simp_all add: finalize_login_def Let_def save_conf_log)
  qed
  then have "cl_log c' = cl_log c1" using assms o by simp
  then show ?thesis using request_log [OF q] by (auto simp: body_member_def)
qed

lemma login_step_log:
  assumes "bind_cl (request env a body zero dec c) f = (c', r)"
    and "\<And>x c1 c2 r2. f x c1 = (c2, r2) \<Longrightarrow> c2 = c1 \<or> (\<exists>r1. finalize_login env c1 = (c2, r1))"
  shows "\<exists>reqs. cl_log c' = cl_log c @ reqs \<and> length reqs \<le> 2 \<and>
    (\<forall>q \<in> set reqs. (rq_api q = a \<and> rq_body q = body) \<or>
       (rq_api q = Otp \<and> body_member ''password'' (rq_body q) = None))"
proof -
  obtain c1 r1 where q: "request env a body zero dec c = (c1, r1)" by fastforce
  then obtain reqs where l: "cl_log c1 = cl_log c @ reqs" "length reqs \<le> 1"
    "\<forall>q \<in> set reqs. rq_api q = a \<and> rq_body q = body"
    using request_log [OF q] by blast
  show ?thesis
  proof (cases r1)
    case (Inl e)
    then show ?thesis using assms(1) q l by (intro exI [of _ reqs]) (auto simp: bind_cl_def)
  next
    case (Inr x)
    then have "f x c1 = (c', r)" using assms(1) q by (simp add: bind_cl_def)
    from assms(2) [OF this] show ?thesis
    proof
      assume "c' = c1"
      then show ?thesis using l by (intro exI [of _ reqs]) auto
    next
      assume "\<exists>r1. finalize_login env c1 = (c', r1)"
      then obtain reqs2 where "cl_log c' = cl_log c1 @ reqs2" "length reqs2 \<le> 1"
        "\<forall>q \<in> set reqs2. rq_api q = Otp \<and> body_member ''password'' (rq_body q) = None"
        using finalize_login_log by blast
      then show ?thesis using l by (intro exI [of _ "reqs @ reqs2"]) auto
    qed
  qed
qed

section \<open>Properties\<close>

text \<open>The node that \<open>SelectVPN\<close> returns: the pinned one at once, or one that the probes led to.\<close>

lemma select_vpn_cases:
  assumes "select_vpn env vpns c = (c', Inr v)"
  defines "pinned \<equiv> vpn_server_id (cl_conf c) \<noteq> 0 \<and> (\<exists>w \<in> set vpns. vi_id w = vpn_server_id (cl_conf c))"
  shows "v \<in> set vpns \<and> (\<exists>c1. activate_and_return v c1 = (c', Inr v) \<and> cl_conf c1 = cl_conf c \<and>
    (pinned \<longrightarrow> vi_id v = vpn_server_id (cl_conf c) \<and> c1 = c) \<and>
    (\<not> pinned \<and> vpn_select_strategy (cl_conf c) = strategy_latency \<longrightarrow> fastest vpns (snd (probes env vpns c)) v))"
proof -
  let ?pin = "vpn_server_id (cl_conf c)"
  have ne: "vpns \<noteq> []" using assms by (auto simp: select_vpn_def)
  have act: "w = v" if "activate_and_return w x = (c', Inr v)" for w x using activate_result [OF that] by simp
  show ?thesis
  proof (cases "if ?pin \<noteq> 0 then find (\<lambda>v. vi_id v = ?pin) vpns else None")
    case (Some w)
    then have "?pin \<noteq> 0" "w \<in> set vpns" "vi_id w = ?pin" by (auto split: if_splits dest: find_pinned)
    moreover have "activate_and_return w c = (c', Inr v)" using assms ne Some by (simp add: select_vpn_def Let_def)
    ultimately show ?thesis using act by (auto simp: pinned_def)
  next
    case None
    then have no: "\<not> pinned" by (auto simp: pinned_def split: if_splits dest: find_pinned_None)
    obtain c1 best where loop: "(if vpn_select_strategy (cl_conf c) = strategy_latency
        then latency_loop env vpns None max_int64 c else first_reachable env vpns c) = (c1, best)"
      by fastforce
    have a: "activate_and_return (case best of None \<Rightarrow> hd vpns | Some v \<Rightarrow> v) c1 = (c', Inr v)"
      using assms ne None loop by (simp add: select_vpn_def Let_def)
    have v: "v = (case best of None \<Rightarrow> hd vpns | Some v \<Rightarrow> v)" using act [OF a] by simp
    have "v \<in> set vpns" "vpn_select_strategy (cl_conf c) = strategy_latency \<longrightarrow> fastest vpns (snd (probes env vpns c)) v"
      using v loop ne latency_loop_fastest [OF ne, of env c c1 best] first_reachable_probe [of env vpns c c1]
      by (auto split: if_splits option.splits)
    moreover have "cl_conf c1 = cl_conf c"
      using loop latency_loop_conf [of env vpns None max_int64 c] first_reachable_conf [of env vpns c] by (auto split: if_splits)
    ultimately show ?thesis using no a v by auto
  qed
qed


definition demo_env :: client_env where
  "demo_env = \<lparr>env_server = (\<lambda>n r. NetError), env_clock = (\<lambda>n. 0), env_hmac = (\<lambda>k m. replicate 20 (CHR ''h'')),
     env_sha256 = (\<lambda>m. replicate 32 (CHR ''s'')), env_md5 = (\<lambda>m. replicate 16 (CHR ''m'')),
     env_sha1 = (\<lambda>m. replicate 20 (CHR ''t'')), env_aes = (\<lambda>k i p. p), env_save = (\<lambda>n. NoFault)\<rparr>"

definition demo_client :: client where
  "demo_client = \<lparr>cl_conf = empty_config\<lparr>server := ''https://vpn.example'', vpn_server_id := 7\<rparr>,
     cl_jar = new_jar None, cl_offset = 0, cl_base = [], cl_disk = Map.empty, cl_log = [], cl_proxy = None\<rparr>"

definition demo_node :: vpn_info where
  "demo_node = zero_vpn\<lparr>vi_ip := ''10.9.8.7'', vi_api_port := 443, vi_vpn_port := 51820, vi_id := 7,
     vi_protocol_mode := 1\<rparr>"



text \<open>
  The tunnel never captures its own transport unless the server asks for it: the address of the
  chosen node is in no route of the tunnel, except when the server lists that very address as a DNS
  server, and then it is routed into the tunnel, since the DNS routes are added after the carving.
\<close>

theorem peer_route_carved:
  assumes "build_wg_conf conf node info = Some (Inr wc)" and "parse_addr (vi_ip node) = Some a"
    and "zone_of a = []" and "is4 a"
  shows "a \<in> routes_addrs (wc_allowed wc) \<longleftrightarrow>
    a \<in> without_zone ` set (dns_addrs (ws_dns (wi_setting info)))"
  using build_wg_conf_result [OF assms(1)] peer_addrs_eq [OF assms(2,3)] assms(4)
  by (auto simp: tunnel_addrs_def)

definition demo_info :: "string \<Rightarrow> wg_info" where
  "demo_info dns = zero_wg_info\<lparr>wi_ip := ''10.1.2.3'', wi_ip_mask := ''24'',
     wi_setting := zero_setting\<lparr>ws_route_full := [''10.9.8.0/24''], ws_dns := dns\<rparr>\<rparr>"

theorem peer_route_carved_witness:
  "\<exists>wc wc'. build_wg_conf empty_config demo_node (demo_info ''10.0.0.53'') = Some (Inr wc) \<and>
     V4 168364039 \<notin> routes_addrs (wc_allowed wc) \<and>
     build_wg_conf empty_config demo_node (demo_info ''10.9.8.7'') = Some (Inr wc') \<and>
     V4 168364039 \<in> routes_addrs (wc_allowed wc')"
proof -
  have m: "atoi (wi_ip_mask (demo_info dns)) = Some 24" for dns
  proof -
    have "atoi ''24'' = Some 24" by code_simp
    then show ?thesis by (simp add: demo_info_def)
  qed
  have nr: "\<not> (route_mode_or_default empty_config \<noteq> route_mode_split \<and> route_base empty_config (demo_info dns) = [])" for dns
    by (simp add: route_mode_or_default_def empty_config_def route_mode_split_def route_base_def demo_info_def)
  obtain wc wc' where b: "build_wg_conf empty_config demo_node (demo_info ''10.0.0.53'') = Some (Inr wc)"
    "build_wg_conf empty_config demo_node (demo_info ''10.9.8.7'') = Some (Inr wc')"
    using build_wg_conf_total [OF m nr] by blast
  have p: "parse_addr (vi_ip demo_node) = Some (V4 168364039)" by code_simp
  have d: "dns_addrs (ws_dns (wi_setting (demo_info ''10.0.0.53''))) = [V4 167772213]"
    "dns_addrs (ws_dns (wi_setting (demo_info ''10.9.8.7''))) = [V4 168364039]" by code_simp+
  have z: "zone_of (V4 168364039) = []" "is4 (V4 168364039)"
    "without_zone (V4 168364039) = V4 168364039" "without_zone (V4 167772213) = V4 167772213"
    by (simp_all add: zone_of_def is4_def without_zone_def)
  show ?thesis
    using peer_route_carved [OF b(1) p z(1,2)] peer_route_carved [OF b(2) p z(1,2)] b d z by simp
qed

lemma platform_names: "platform_corplink \<noteq> platform_corplink_v1" "platform_corplink \<noteq> platform_ldap"
  "platform_ldap \<noteq> platform_corplink_v1" "platform_ldap \<noteq> []" "platform_corplink_v1 \<noteq> []"
  by (simp_all add: platform_corplink_def platform_corplink_v1_def platform_ldap_def)

text \<open>One login request and the request for the code, the first with the password member of its body.\<close>

lemma login_step_password:
  assumes "bind_cl (request env a body zero dec c) f = (c', r)"
    and "\<And>x c1 c2 r2. f x c1 = (c2, r2) \<Longrightarrow> c2 = c1 \<or> (\<exists>r1. finalize_login env c1 = (c2, r1))"
    and "body_member ''password'' body = map_option JStr sent" and "sent \<noteq> None"
  shows "\<exists>reqs. cl_log c' = cl_log c @ reqs \<and> length reqs \<le> 2 \<and>
    (\<forall>q \<in> set reqs. body_member ''password'' (rq_body q) \<in> {None, map_option JStr sent}) \<and> (sent = None \<longrightarrow> reqs = [])"
  using login_step_log [OF assms(1,2)] assms(3,4) by fastforce

lemma login_platform_sent:
  assumes "login_with_password env user pw plat c = (c', r)"
  defines "p \<equiv> (if plat = [] then platform_corplink else plat)"
  shows "\<exists>reqs. cl_log c' = cl_log c @ reqs \<and> length reqs \<le> 2 \<and>
    (\<forall>q \<in> set reqs. body_member ''password'' (rq_body q) \<in> {None, map_option JStr (password_sent env p pw)}) \<and>
    (password_sent env p pw = None \<longrightarrow> reqs = [])"
proof -
  define c0 where "c0 = c\<lparr>cl_conf := (cl_conf c)\<lparr>username := user, platform := p\<rparr>\<rparr>"
  have log: "cl_log c = cl_log c0" by (simp add: c0_def)
  consider "p = platform_corplink_v1" "pw = []" | "p = platform_corplink_v1" "pw \<noteq> []"
    | "p = platform_ldap \<or> p = platform_corplink"
    | "p \<noteq> platform_corplink_v1" "p \<noteq> platform_ldap" "p \<noteq> platform_corplink" by blast
  then show ?thesis
  proof cases
    case 1
    then have "c' = c0" using assms(1) by (simp add: login_with_password_def Let_def login_v1_def c0_def p_def [symmetric])
    then show ?thesis using log 1 by (intro exI [of _ "[]"]) auto
  next
    case 2
    then have "login_v1 env user pw c0 = (c', r)"
      using assms(1) by (simp add: login_with_password_def Let_def c0_def p_def [symmetric])
    then show ?thesis unfolding log login_v1_def Let_def if_not_P [OF 2(2)]
      by (rule login_step_password)
        (use 2 in \<open>auto simp: body_member_def password_sent_def split: if_splits prod.splits\<close>)
  next
    case 3
    define pws where "pws = (if p = platform_ldap then pw
      else if length pw \<noteq> 64 then sha256_hex (env_sha256 env) pw else pw)"
    define fs where "fs = (if p = platform_ldap then [(''platform'', JStr platform_ldap), (''password'', JStr pw)]
      else [(''password'', JStr pws)])"
    have "bind_cl (request env LoginPassword (Some (JObj ((''user_name'', JStr user) # fs))) [] (dec_member ''url'') c0)
        (\<lambda>(raw, url) c1. if rr_code raw \<noteq> 0
           then (c1, Inl (ErrMsg (or_default (rr_message raw) ''login with password failed'')))
           else finalize_login env c1) = (c', r)"
      using assms(1) 3 platform_names
      by (auto simp: login_with_password_def Let_def c0_def p_def [symmetric] fs_def pws_def)
    then show ?thesis unfolding log
      by (rule login_step_password)
        (use 3 platform_names in \<open>auto simp: body_member_def password_sent_def fs_def pws_def split: if_splits prod.splits\<close>)
  next
    case 4
    then have "c' = c0" using assms(1) by (simp add: login_with_password_def Let_def c0_def p_def [symmetric])
    then show ?thesis using log by (intro exI [of _ "[]"]) auto
  qed
qed

text \<open>
  C38: a login sends at most two requests, and the only one with a password member carries exactly
  what the platform prescribes: the SHA-256 for corplink (an input of 64 characters passes for a
  hash), the ciphertext for v1, the password itself for ldap only. An unknown platform sends
  nothing.
\<close>

theorem login_password_sent:
  assumes "login_with_password env user pw plat c = (c', r)"
  shows "\<exists>reqs. cl_log c' = cl_log c @ reqs \<and> length reqs \<le> 2 \<and>
    (\<forall>q \<in> set reqs. body_member ''password'' (rq_body q) \<in> {None, map_option JStr (password_sent env plat pw)}) \<and>
    (password_sent env plat pw = None \<longrightarrow> reqs = [])"
proof -
  define p where "p = (if plat = [] then platform_corplink else plat)"
  have sent: "password_sent env p pw = password_sent env plat pw"
    using platform_names by (auto simp: p_def password_sent_def)
  from login_platform_sent [OF assms, folded p_def] sent show ?thesis by simp
qed

theorem login_password_sent_witness:
  "\<exists>c' r reqs. login_with_password demo_env ''alice'' ''secret'' [] demo_client = (c', r) \<and>
     cl_log c' = cl_log demo_client @ reqs \<and> length reqs \<le> 2 \<and>
     password_sent demo_env [] ''secret'' = Some (sha256_hex (env_sha256 demo_env) ''secret'')"
proof -
  obtain c' r where l: "login_with_password demo_env ''alice'' ''secret'' [] demo_client = (c', r)" by fastforce
  have "password_sent demo_env [] ''secret'' = Some (sha256_hex (env_sha256 demo_env) ''secret'')"
    by (simp add: password_sent_def platform_corplink_v1_def platform_ldap_def)
  then show ?thesis using login_password_sent [OF l] l by blast
qed

text \<open>
  the node list holds only nodes of a supported protocol, with the latency not yet measured; and
  an error of the list means that the session is gone exactly when the reply had an HTTP error
  status or the envelope had code 101.
\<close>

theorem list_vpn_supported:
  "(case list_vpn env c of
      (c', Inr vpns) \<Rightarrow> list_all (\<lambda>v. vi_protocol_mode v \<in> {1, 2} \<and> vi_latency v = 0) vpns
    | (c', Inl e) \<Rightarrow> is_logged_out e =
        (case request env ListVPN None [] dec_vpns c of
           (_, Inl e') \<Rightarrow> is_logged_out e'
         | (_, Inr (raw, _)) \<Rightarrow> rr_code raw = 101)) \<and>
   (case read_reply a z dec status rbody of
      Inl e \<Rightarrow> is_logged_out e = (400 \<le> status)
    | Inr x \<Rightarrow> status < 400)"
proof -
  have "case read_reply a z dec status rbody of
      Inl e \<Rightarrow> is_logged_out e = (400 \<le> status) | Inr x \<Rightarrow> status < 400"
    by (auto simp: read_reply_def is_logged_out_def split: resp_body.splits option.splits if_splits)
  moreover obtain c1 r where q: "request env ListVPN None [] dec_vpns c = (c1, r)" by fastforce
  then have "case list_vpn env c of
      (c', Inr vpns) \<Rightarrow> list_all (\<lambda>v. vi_protocol_mode v \<in> {1, 2} \<and> vi_latency v = 0) vpns
    | (c', Inl e) \<Rightarrow> is_logged_out e =
        (case request env ListVPN None [] dec_vpns c of
           (_, Inl e') \<Rightarrow> is_logged_out e'
         | (_, Inr (raw, _)) \<Rightarrow> rr_code raw = 101)"
    by (cases r) (auto simp: list_vpn_def bind_cl_def is_logged_out_def list_all_iff split: if_splits prod.splits)
  ultimately show ?thesis by blast
qed

end
