(* ===== verification/Requests.thy ===== *)
theory Requests
  imports WgConf
begin

text \<open>
  Which requests the operations of the API client send, to which address and in which order: the log of the client
  (\<open>cl_log\<close>, theory Client) before and after each of them. Theory Bringup puts them together.
\<close>

section \<open>The requests of a run\<close>

text \<open>Client \<open>c'\<close> is \<open>c\<close> after sending exactly \<open>rs\<close>, with the same settings.\<close>

definition sends :: "client \<Rightarrow> http_req list \<Rightarrow> client \<Rightarrow> bool" where
  "sends c rs c' = (cl_log c' = cl_log c @ rs \<and> cl_conf c' = cl_conf c)"

definition all_to :: "api set \<Rightarrow> http_req list \<Rightarrow> bool" where
  "all_to as rs = (rq_api ` set rs \<subseteq> as)"

lemma all_to_simps [simp]: "all_to as []" "all_to as (r # rs) \<longleftrightarrow> rq_api r \<in> as \<and> all_to as rs"
  "all_to as (rs @ rs') \<longleftrightarrow> all_to as rs \<and> all_to as rs'"
  by (auto simp: all_to_def)

lemma all_to_mono: "all_to as rs \<Longrightarrow> as \<subseteq> bs \<Longrightarrow> all_to bs rs"
  by (auto simp: all_to_def)

lemma sends_refl [intro]: "cl_log c' = cl_log c \<Longrightarrow> cl_conf c' = cl_conf c \<Longrightarrow> sends c [] c'"
  by (simp add: sends_def)

lemma sends_trans: "sends c rs c1 \<Longrightarrow> sends c1 rs' c2 \<Longrightarrow> sends c (rs @ rs') c2"
  by (simp add: sends_def)

text \<open>The clients that only requests to \<open>as\<close> lead to.\<close>

definition sends_to :: "api set \<Rightarrow> client \<Rightarrow> client \<Rightarrow> bool" where
  "sends_to as c c' = (\<exists>rs. sends c rs c' \<and> all_to as rs)"

lemma sends_to_refl [intro]: "cl_log c' = cl_log c \<Longrightarrow> cl_conf c' = cl_conf c \<Longrightarrow> sends_to as c c'"
  by (auto simp: sends_to_def sends_def)

lemma sends_to_mono: "sends_to as c x \<Longrightarrow> as \<subseteq> bs \<Longrightarrow> sends_to bs c x"
  unfolding sends_to_def using all_to_mono by blast

lemma sends_to_trans: "sends_to as c c1 \<Longrightarrow> sends_to bs c1 c2 \<Longrightarrow> sends_to (as \<union> bs) c c2"
  unfolding sends_to_def by (metis all_to_mono all_to_simps(3) sends_trans sup_ge1 sup_ge2)

lemma sends_to_again: "sends_to as c c1 \<Longrightarrow> sends_to as c1 c2 \<Longrightarrow> sends_to as c c2"
  using sends_to_trans [of as c c1 as c2] by simp

lemma request_sends: "sends_to {a} c (fst (request env a body zero dec c))"
  using request_frame(1,5) [of env a body zero dec c] by (auto simp: sends_to_def sends_def all_to_def)

lemma bind_request_sends:
  assumes "\<And>x c1. cl_log (fst (f x c1)) = cl_log c1 \<and> cl_conf (fst (f x c1)) = cl_conf c1"
  shows "sends_to {a} c (fst (bind_cl (request env a body zero dec c) f))"
  using request_sends [of a c env body zero dec] assms by (simp add: bind_cl_fst sends_to_def sends_def split: sum.split)

text \<open>A request that is answered was sent, to the node when it is one for the node.\<close>

lemma request_answered:
  assumes "request env a body zero dec c = (c', Inr r)"
  shows "\<exists>req. sends c [req] c' \<and> rq_api req = a \<and> rq_body req = body \<and> cl_base c' = cl_base c \<and>
    rq_url req = render_url a (if is_vpn_scoped a then cl_base c else server (cl_conf c))"
proof -
  have "cl_log (parse_time_offset n d x) = cl_log x" for n d x
    by (simp add: parse_time_offset_def split: option.splits)
  then have "\<exists>req. cl_log c' = cl_log c @ [req] \<and> rq_api req = a \<and> rq_body req = body \<and>
      rq_url req = render_url a (if is_vpn_scoped a then cl_base c else server (cl_conf c))"
    using assms
    by (auto simp: request_def Let_def build_request_def split: option.splits reply.splits if_splits)
  then show ?thesis
    using request_frame(1,2) [of env a body zero dec c] assms by (auto simp: sends_def)
qed

lemma ping_sends: "sends_to {PingVPN} c (fst (ping_node env ip port c))"
proof -
  have "sends_to {PingVPN} c1 (fst (bind_cl (request env PingVPN None () dec_ignore c1)
      (\<lambda>(raw, _) c2. if rr_code raw \<noteq> 0 then (c2, Inl (ErrCode PingVPN (rr_code raw) (rr_message raw)))
         else (c2, Inr (go_div (env_clock env (length (cl_log c2)) - start) millisecond)))))" for c1 start
    by (rule bind_request_sends) (auto split: prod.split)
  then have "sends_to {PingVPN} (fst (set_vpn_base ip port c)) (fst (ping_node env ip port c)) \<or>
      fst (ping_node env ip port c) = fst (set_vpn_base ip port c)"
    by (auto simp: ping_node_def bind_cl_fst [of "set_vpn_base ip port c"] Let_def split: sum.split)
  then show ?thesis by (auto simp: sends_to_def sends_def)
qed

lemma latency_sends: "sends_to {PingVPN} c (fst (latency_loop env vs best mn c))"
proof (induction vs arbitrary: best mn c)
  case (Cons v vs)
  then show ?case
    using ping_sends [of c env "vi_ip v" "vi_api_port v"]
    by (cases "ping_node env (vi_ip v) (vi_api_port v) c")
      (auto intro: sends_to_again split: sum.splits)
qed auto

lemma reachable_sends: "sends_to {PingVPN} c (fst (first_reachable env vs c))"
proof (induction vs arbitrary: c)
  case (Cons v vs)
  then show ?case
    using ping_sends [of c env "vi_ip v" "vi_api_port v"]
    by (cases "ping_node env (vi_ip v) (vi_api_port v) c")
      (auto intro: sends_to_again split: sum.splits)
qed auto

lemma activate_sends: "sends_to as c (fst (activate_and_return v c))"
  by (auto simp: activate_and_return_def activate_node_def bind_cl_fst split: sum.split)

lemma select_sends: "sends_to {PingVPN} c (fst (select_vpn env vpns c))"
proof -
  have "sends_to {PingVPN} c (fst (activate_and_return v c1))" if "sends_to {PingVPN} c c1" for v c1
    using that activate_sends sends_to_again by blast
  then show ?thesis
    using latency_sends [of c env vpns None max_int64] reachable_sends [of c env vpns]
    by (auto simp: select_vpn_def Let_def activate_sends split: option.split prod.split)
qed

lemma list_sends: "sends_to {ListVPN} c (fst (list_vpn env c))"
  unfolding list_vpn_def by (rule bind_request_sends) (auto split: prod.split)

lemma fetch_sends: "sends_to {ConnectVPN} c (fst (fetch_peer_info env otp c))"
proof -
  have "sends_to {ConnectVPN} c (fst (bind_cl (request env ConnectVPN body zero_wg_info dec_wg_info c)
      (\<lambda>(raw, info) c1. if rr_code raw = 0 then (c1, Inr info)
            else if rr_code raw = 101 then (c1, Inl (ErrLoggedOut (or_default (rr_message raw) ''logout required'')))
            else (c1, Inl (ErrCode ConnectVPN (rr_code raw) (rr_message raw))))))" for body
    by (rule bind_request_sends) (auto split: prod.split)
  then show ?thesis
    by (auto simp: fetch_peer_info_def bind_cl_fst [of "(c, _)"] split: sum.split)
qed

text \<open>What the stages of a successful run give.\<close>

lemma list_answered:
  assumes "list_vpn env c = (c', Inr vpns)"
  shows "\<exists>r. sends c [r] c' \<and> rq_api r = ListVPN \<and> rq_url r = render_url ListVPN (server (cl_conf c)) \<and>
    (\<forall>v \<in> set vpns. vi_protocol_mode v = 1 \<or> vi_protocol_mode v = 2)"
proof -
  obtain raw vs where r: "request env ListVPN None [] dec_vpns c = (c', Inr (raw, vs))"
    and v: "vpns = map (\<lambda>v. v\<lparr>vi_latency := 0\<rparr>) (filter (\<lambda>v. vi_protocol_mode v = 1 \<or> vi_protocol_mode v = 2) vs)"
    using assms by (auto simp: list_vpn_def bind_cl_Inr split: if_splits)
  from request_answered [OF r] show ?thesis by (auto simp: v is_vpn_scoped_def)
qed

lemma select_answered:
  assumes "select_vpn env vpns c = (c', Inr v)"
  shows "v \<in> set vpns \<and> node_base (server (cl_conf c)) (vi_ip v) (vi_api_port v) = Some (cl_base c') \<and>
    (\<exists>rs. sends c rs c' \<and> all_to {PingVPN} rs)"
proof -
  obtain c1 where a: "activate_and_return v c1 = (c', Inr v)" and v: "v \<in> set vpns" and c: "cl_conf c1 = cl_conf c"
    using select_vpn_cases [OF assms] by metis
  show ?thesis using activate_result [OF a] v c select_sends [of c env vpns] assms by (simp add: sends_to_def)
qed

lemma fetch_answered:
  assumes "fetch_peer_info env otp c = (c', Inr info)"
  shows "\<exists>r code. sends c [r] c' \<and> rq_api r = ConnectVPN \<and> rq_url r = render_url ConnectVPN (cl_base c) \<and>
    cl_base c' = cl_base c \<and>
    rq_body r = Some (JObj [(''public_key'', JStr (public_key (cl_conf c))), (''otp'', JStr code)]) \<and>
    (otp \<noteq> [] \<longrightarrow> code = otp)"
proof -
  obtain code raw where r: "request env ConnectVPN
      (Some (JObj [(''public_key'', JStr (public_key (cl_conf c))), (''otp'', JStr code)])) zero_wg_info dec_wg_info c =
      (c', Inr (raw, info))" and "otp \<noteq> [] \<longrightarrow> code = otp"
    using assms by (auto simp: fetch_peer_info_def bind_cl_Inr split: if_splits)
  then show ?thesis using request_answered [OF r] by (auto simp: is_vpn_scoped_def)
qed

text \<open>A report is sent at most once; to the node, if it is sent.\<close>

lemma request_url:
  "\<exists>rs. sends c rs (fst (request env a body zero dec c)) \<and> length rs \<le> 1 \<and>
     (\<forall>r \<in> set rs. rq_api r = a \<and> rq_url r = render_url a (if is_vpn_scoped a then cl_base c else server (cl_conf c)) \<and>
        rq_body r = body)"
proof -
  have "cl_log (parse_time_offset n d x) = cl_log x" for n d x
    by (simp add: parse_time_offset_def split: option.splits)
  then have "\<exists>rs. cl_log (fst (request env a body zero dec c)) = cl_log c @ rs \<and> length rs \<le> 1 \<and>
     (\<forall>r \<in> set rs. rq_api r = a \<and> rq_url r = render_url a (if is_vpn_scoped a then cl_base c else server (cl_conf c)) \<and>
        rq_body r = body)"
    by (auto simp: request_def Let_def build_request_def split: option.splits reply.splits)
  then show ?thesis using request_frame(1) [of env a body zero dec c] by (auto simp: sends_def)
qed

definition report_body :: "client \<Rightarrow> string \<Rightarrow> string \<Rightarrow> string \<Rightarrow> json" where
  "report_body c address mode type' = JObj [(''ip'', JStr address), (''public_key'', JStr (public_key (cl_conf c))),
     (''mode'', JStr mode), (''type'', JStr type')]"

lemma report_sends:
  "\<exists>rs. sends c rs (fst (report_device env address mode False c)) \<and> length rs \<le> 1 \<and>
     (\<forall>r \<in> set rs. rq_api r = KeepAliveVPN \<and> rq_url r = render_url KeepAliveVPN (cl_base c) \<and>
        rq_body r = Some (report_body c address mode ''100''))"
proof -
  have "fst (report_device env address mode False c) =
      fst (request env KeepAliveVPN (Some (report_body c address mode ''100'')) () dec_ignore c)"
    by (auto simp: report_device_def report_body_def bind_cl_fst Let_def split: sum.split prod.split)
  then show ?thesis
    using request_url [of c env KeepAliveVPN "Some (report_body c address mode ''100'')" "()" dec_ignore]
    by (simp add: is_vpn_scoped_def)
qed

end
