(* ===== verification/AdminAuth.thy ===== *)
theory AdminAuth
  imports Config
begin

text \<open>
  The session and failure tracker of the control panel (\<open>vpnmgr/admin.go\<close>): sessions are opaque
  tokens with an expiry, failed logins are kept per client address and lock it for a while.

  Every operation runs under the mutex and is given one reading of the clock. The order in which Go
  iterates over a map is the argument \<open>ord\<close>, a rearrangement of the keys; the random bytes of a
  token are an argument too.
\<close>

section \<open>Definitions\<close>

definition session_ttl :: duration where "session_ttl = 12 * 3600 * second"
definition max_sessions :: nat where "max_sessions = 64"
definition max_failures :: nat where "max_failures = 16"
definition failure_window :: duration where "failure_window = 15 * 60 * second"
definition lock_threshold :: nat where "lock_threshold = 5"

record admin_auth =
  aa_sessions :: "(string, instant) gomap"
  aa_failures :: "(string, instant list) gomap"

definition new_admin_auth :: admin_auth where
  "new_admin_auth = \<lparr>aa_sessions = [], aa_failures = []\<rparr>"

definition check_session :: "config \<Rightarrow> instant \<Rightarrow> string \<Rightarrow> admin_auth \<Rightarrow> bool \<times> admin_auth" where
  "check_session conf now token a =
     (if \<not> admin_auth_enabled conf then (True, a)
      else if token = [] then (False, a)
      else case map_of (aa_sessions a) token of
        None \<Rightarrow> (False, a)
      | Some expiry \<Rightarrow>
          if expiry < now then (False, a\<lparr>aa_sessions := map_del token (aa_sessions a)\<rparr>) else (True, a))"

definition failures_of :: "string \<Rightarrow> (string, instant list) gomap \<Rightarrow> instant list" where
  "failures_of client fs = (case map_of fs client of None \<Rightarrow> [] | Some ts \<Rightarrow> ts)"

definition cleanup_failures ::
  "instant \<Rightarrow> string \<Rightarrow> (string, instant list) gomap \<Rightarrow> (string, instant list) gomap" where
  "cleanup_failures now client fs =
     (let kept = filter (\<lambda>t. now - failure_window < t) (failures_of client fs)
      in if kept = [] then map_del client fs else map_put client kept fs)"

definition admin_locked ::
  "instant \<Rightarrow> string \<Rightarrow> (string, instant list) gomap \<Rightarrow> bool \<times> (string, instant list) gomap" where
  "admin_locked now client fs =
     (let fs' = cleanup_failures now client fs in (lock_threshold \<le> length (failures_of client fs'), fs'))"

text \<open>The first key of the iteration order goes.\<close>

definition ensure_failure_capacity ::
  "(string list \<Rightarrow> string list) \<Rightarrow> (string, instant list) gomap \<Rightarrow> (string, instant list) gomap" where
  "ensure_failure_capacity ord fs =
     (if length fs < max_failures then fs
      else case ord (map fst fs) of [] \<Rightarrow> fs | k # _ \<Rightarrow> map_del k fs)"

definition record_failure ::
  "(string list \<Rightarrow> string list) \<Rightarrow> instant \<Rightarrow> string \<Rightarrow> (string, instant list) gomap \<Rightarrow>
     (string, instant list) gomap" where
  "record_failure ord now client fs =
     (let fs' = cleanup_failures now client fs
      in ensure_failure_capacity ord (map_put client (failures_of client fs' @ [now]) fs'))"

text \<open>The session that expires first, in one pass over the map.\<close>

definition soonest :: "(string \<rightharpoonup> instant) \<Rightarrow> string list \<Rightarrow> string" where
  "soonest m ks =
     fst (foldl (\<lambda>(key, oldest) k. case m k of
            None \<Rightarrow> (key, oldest)
          | Some expiry \<Rightarrow> if key = [] \<or> expiry < oldest then (k, expiry) else (key, oldest)) ([], 0) ks)"

definition ensure_session_capacity ::
  "(string list \<Rightarrow> string list) \<Rightarrow> (string, instant) gomap \<Rightarrow> (string, instant) gomap" where
  "ensure_session_capacity ord ss =
     (if length ss < max_sessions then ss
      else map_del (soonest (map_of ss) (ord (map fst ss))) ss)"

definition new_session_id :: "bytes \<Rightarrow> string" where
  "new_session_id rnd = hex_encode rnd"

definition admin_login ::
  "config \<Rightarrow> (string list \<Rightarrow> string list) \<Rightarrow> instant \<Rightarrow> bytes \<Rightarrow> string \<Rightarrow> string \<Rightarrow> string \<Rightarrow> admin_auth \<Rightarrow>
     string option \<times> admin_auth" where
  "admin_login conf ord now rnd client user pw a =
     (case admin_locked now client (aa_failures a) of
        (True, fs) \<Rightarrow> (None, a\<lparr>aa_failures := fs\<rparr>)
      | (False, fs) \<Rightarrow>
          if user \<noteq> admin_username conf \<or> pw \<noteq> admin_password conf
          then (None, a\<lparr>aa_failures := record_failure ord now client fs\<rparr>)
          else
            let token = new_session_id rnd in
            (Some token, a\<lparr>aa_failures := map_del client fs,
               aa_sessions := map_put token (now + session_ttl) (ensure_session_capacity ord (aa_sessions a))\<rparr>))"

definition admin_logout :: "string \<Rightarrow> admin_auth \<Rightarrow> admin_auth" where
  "admin_logout token a = a\<lparr>aa_sessions := map_del token (aa_sessions a)\<rparr>"

section \<open>Histories\<close>

datatype admin_event =
    Login (ev_time: instant) (ev_rnd: bytes) (ev_client: string) (ev_user: string) (ev_pw: string)
  | Check instant string
  | Logout string

definition event_step :: "config \<Rightarrow> (string list \<Rightarrow> string list) \<Rightarrow> admin_event \<Rightarrow> admin_auth \<Rightarrow> admin_auth" where
  "event_step conf ord ev a =
     (case ev of
        Login t rnd client user pw \<Rightarrow> snd (admin_login conf ord t rnd client user pw a)
      | Check t token \<Rightarrow> snd (check_session conf t token a)
      | Logout token \<Rightarrow> admin_logout token a)"

definition run_events :: "config \<Rightarrow> (string list \<Rightarrow> string list) \<Rightarrow> admin_event list \<Rightarrow> admin_auth \<Rightarrow> admin_auth" where
  "run_events conf ord evs a = foldl (\<lambda>a ev. event_step conf ord ev a) a evs"

lemma run_events_simps [simp]:
  "run_events conf ord [] a = a"
  "run_events conf ord (ev # evs) a = run_events conf ord evs (event_step conf ord ev a)"
  "run_events conf ord (evs @ evs') a = run_events conf ord evs' (run_events conf ord evs a)"
  by (simp_all add: run_events_def)

definition iterates :: "(string list \<Rightarrow> string list) \<Rightarrow> bool" where
  "iterates ord = (\<forall>ks. set (ord ks) = set ks)"

definition good_credentials :: "config \<Rightarrow> admin_event \<Rightarrow> bool" where
  "good_credentials conf ev = (ev_user ev = admin_username conf \<and> ev_pw ev = admin_password conf)"

section \<open>Bounds\<close>

definition failures_ok :: "(string, instant list) gomap \<Rightarrow> bool" where
  "failures_ok fs = (map_wf fs \<and> length fs < max_failures \<and>
     (\<forall>ts \<in> snd ` set fs. length ts \<le> lock_threshold))"

definition sessions_ok :: "(string, instant) gomap \<Rightarrow> bool" where
  "sessions_ok ss = (map_wf ss \<and> length ss \<le> max_sessions \<and> [] \<notin> fst ` set ss)"

lemma failures_of_le: "failures_ok fs \<Longrightarrow> length (failures_of client fs) \<le> lock_threshold"
  by (fastforce simp: failures_ok_def failures_of_def split: option.splits dest: map_of_SomeD)

lemma failures_of_cleanup:
  "failures_of c (cleanup_failures now client fs) =
     (if c = client then filter (\<lambda>t. now - failure_window < t) (failures_of client fs) else failures_of c fs)"
  by (simp add: cleanup_failures_def failures_of_def Let_def)

lemma length_put_del:
  "map_wf m \<Longrightarrow> k \<in> fst ` set m \<or> length m < n \<Longrightarrow> length m \<le> n \<Longrightarrow> length (map_put k v m) \<le> n"
  by (auto simp: length_map_put)

lemma cleanup_ok: "failures_ok fs \<Longrightarrow> failures_ok (cleanup_failures now client fs)"
proof -
  assume ok: "failures_ok fs"
  let ?kept = "filter (\<lambda>t. now - failure_window < t) (failures_of client fs)"
  have len: "length ?kept \<le> lock_threshold"
    using failures_of_le [OF ok] length_filter_le le_trans by blast
  show ?thesis
  proof (cases "?kept = []")
    case True
    then show ?thesis using ok length_map_del_le [of client fs]
      by (auto simp: cleanup_failures_def failures_ok_def)
  next
    case False
    then have "failures_of client fs \<noteq> []" by auto
    then have "client \<in> fst ` set fs"
      by (auto simp: failures_of_def dom_map_of_conv_image_fst [symmetric] split: option.splits)
    with False ok len show ?thesis
      by (auto simp: cleanup_failures_def failures_ok_def Let_def length_map_put set_map_put)
  qed
qed

lemma capacity_ok:
  assumes "iterates ord" and "map_wf fs" and "length fs \<le> max_failures"
    and "\<forall>ts \<in> snd ` set fs. length ts \<le> lock_threshold"
  shows "failures_ok (ensure_failure_capacity ord fs)"
proof (cases "length fs < max_failures")
  case True
  then show ?thesis using assms by (simp add: ensure_failure_capacity_def failures_ok_def)
next
  case False
  then have "fs \<noteq> []" by (auto simp: max_failures_def)
  moreover have keys: "set (ord (map fst fs)) = fst ` set fs" using assms(1) by (simp add: iterates_def)
  ultimately obtain k ks where k: "ord (map fst fs) = k # ks" by (cases "ord (map fst fs)") auto
  then have "k \<in> fst ` set fs" using keys by auto
  with False assms k show ?thesis
    by (auto simp: ensure_failure_capacity_def failures_ok_def length_map_del max_failures_def)
qed

lemma record_failure_ok:
  assumes "iterates ord" and "failures_ok fs" and "length (failures_of client (cleanup_failures now client fs)) < lock_threshold"
  shows "failures_ok (record_failure ord now client fs)"
proof -
  have ok: "failures_ok (cleanup_failures now client fs)" by (rule cleanup_ok [OF assms(2)])
  then show ?thesis using assms(1,3)
    unfolding record_failure_def Let_def
    by (intro capacity_ok) (auto simp: failures_ok_def length_map_put set_map_put)
qed

lemma soonest_mem:
  assumes "[] \<notin> set ks"
  shows "let r = foldl (\<lambda>(key, oldest) k. case m k of
            None \<Rightarrow> (key, oldest)
          | Some expiry \<Rightarrow> if key = [] \<or> expiry < oldest then (k, expiry) else (key, oldest)) (k0, t0) ks
     in (fst r = k0 \<and> (k0 = [] \<longrightarrow> (\<forall>k \<in> set ks. m k = None)) \<or> fst r \<in> set ks)"
  using assms
proof (induction ks arbitrary: k0 t0)
  case Nil
  then show ?case by simp
next
  case (Cons k ks)
  show ?case
  proof (cases "m k")
    case None
    then show ?thesis using Cons.IH [of k0 t0] Cons.prems by (auto simp: Let_def)
  next
    case (Some e)
    then show ?thesis using Cons.IH [of k e] Cons.IH [of k0 t0] Cons.prems by (auto simp: Let_def)
  qed
qed

lemma session_capacity_ok:
  assumes "iterates ord" and "sessions_ok ss"
  shows "map_wf (ensure_session_capacity ord ss) \<and> length (ensure_session_capacity ord ss) < max_sessions"
proof (cases "length ss < max_sessions")
  case True
  then show ?thesis using assms by (simp add: ensure_session_capacity_def sessions_ok_def)
next
  case False
  then have ne: "set (ord (map fst ss)) = fst ` set ss" "ss \<noteq> []"
    using assms(1) by (auto simp: iterates_def max_sessions_def)
  have wf: "map_wf ss" "[] \<notin> fst ` set ss" using assms(2) by (simp_all add: sessions_ok_def)
  have "soonest (map_of ss) (ord (map fst ss)) \<in> fst ` set ss"
    using soonest_mem [of "ord (map fst ss)" "map_of ss" "[]" 0] wf(2) ne
    by (cases ss) (auto simp: soonest_def Let_def)
  with False wf assms(2) show ?thesis
    by (simp add: ensure_session_capacity_def length_map_del sessions_ok_def max_sessions_def)
qed

lemma check_session_ok:
  "sessions_ok (aa_sessions a) \<Longrightarrow> sessions_ok (aa_sessions (snd (check_session conf now token a)))"
  using length_map_del_le [of token "aa_sessions a"]
  by (auto simp: check_session_def sessions_ok_def split: option.splits)

lemma check_session_failures [simp]: "aa_failures (snd (check_session conf now token a)) = aa_failures a"
  by (simp add: check_session_def split: option.splits)

lemma admin_logout_simps [simp]:
  "aa_failures (admin_logout token a) = aa_failures a"
  "aa_sessions (admin_logout token a) = map_del token (aa_sessions a)"
  by (simp_all add: admin_logout_def)

definition real_random :: "admin_event \<Rightarrow> bool" where
  "real_random ev = (case ev of Login _ rnd _ _ _ \<Rightarrow> length rnd = 32 | _ \<Rightarrow> True)"

lemma admin_login_cases:
  obtains (locked) "admin_login conf ord now rnd client user pw a =
      (None, a\<lparr>aa_failures := cleanup_failures now client (aa_failures a)\<rparr>)"
      "lock_threshold \<le> length (failures_of client (cleanup_failures now client (aa_failures a)))"
  | (wrong) "admin_login conf ord now rnd client user pw a =
      (None, a\<lparr>aa_failures := record_failure ord now client (cleanup_failures now client (aa_failures a))\<rparr>)"
      "length (failures_of client (cleanup_failures now client (aa_failures a))) < lock_threshold"
      "user \<noteq> admin_username conf \<or> pw \<noteq> admin_password conf"
  | (accepted) "admin_login conf ord now rnd client user pw a =
      (Some (hex_encode rnd),
       a\<lparr>aa_failures := map_del client (cleanup_failures now client (aa_failures a)),
         aa_sessions := map_put (hex_encode rnd) (now + session_ttl) (ensure_session_capacity ord (aa_sessions a))\<rparr>)"
      "length (failures_of client (cleanup_failures now client (aa_failures a))) < lock_threshold"
      "user = admin_username conf" "pw = admin_password conf"
proof (cases "lock_threshold \<le> length (failures_of client (cleanup_failures now client (aa_failures a)))")
  case True
  then show ?thesis using locked by (simp add: admin_login_def admin_locked_def)
next
  case False
  then show ?thesis using wrong accepted
    by (cases "user \<noteq> admin_username conf \<or> pw \<noteq> admin_password conf")
      (simp_all add: admin_login_def admin_locked_def Let_def new_session_id_def not_le)
qed

lemma failures_ok_del: "failures_ok fs \<Longrightarrow> failures_ok (map_del c fs)"
  using length_map_del_le [of c fs] by (auto simp: failures_ok_def)

lemma event_step_ok:
  assumes "iterates ord" and "real_random ev" and "sessions_ok (aa_sessions a)" and "failures_ok (aa_failures a)"
  shows "sessions_ok (aa_sessions (event_step conf ord ev a)) \<and> failures_ok (aa_failures (event_step conf ord ev a))"
proof (cases ev)
  case (Login t rnd client user pw)
  note fok = cleanup_ok [OF assms(4), of t client]
  show ?thesis
  proof (cases rule: admin_login_cases [of conf ord t rnd client user pw a])
    case locked
    then show ?thesis using Login assms(3) fok by (simp add: event_step_def)
  next
    case wrong
    moreover have "failures_of client (cleanup_failures t client (cleanup_failures t client (aa_failures a))) =
        failures_of client (cleanup_failures t client (aa_failures a))"
      by (simp add: failures_of_cleanup)
    ultimately show ?thesis
      using Login assms(3) record_failure_ok [OF assms(1) fok] by (simp add: event_step_def)
  next
    case accepted
    have "[] \<noteq> hex_encode rnd" using assms(2) Login by (cases rnd) (auto simp: real_random_def hex_encode_def)
    moreover have "fst ` set (ensure_session_capacity ord (aa_sessions a)) \<subseteq> fst ` set (aa_sessions a)"
      by (auto simp: ensure_session_capacity_def)
    ultimately show ?thesis
      using accepted Login assms(3) failures_ok_del [OF fok] session_capacity_ok [OF assms(1,3)]
      by (auto simp: event_step_def sessions_ok_def length_map_put set_map_put)
  qed
next
  case (Check t token)
  then show ?thesis using assms(3,4) check_session_ok by (simp add: event_step_def)
next
  case (Logout token)
  then show ?thesis using assms(3,4) length_map_del_le [of token "aa_sessions a"]
    by (auto simp: event_step_def sessions_ok_def)
qed

interpretation tracker: op_invariant "event_step conf ord" "\<lambda>ev. iterates ord \<and> real_random ev"
    "\<lambda>a. sessions_ok (aa_sessions a) \<and> failures_ok (aa_failures a)" for conf ord
  by unfold_locales (rule event_step_ok; simp)

lemma run_events_ok:
  assumes "iterates ord" and "list_all real_random evs" and "sessions_ok (aa_sessions a)" and "failures_ok (aa_failures a)"
  shows "sessions_ok (aa_sessions (run_events conf ord evs a)) \<and> failures_ok (aa_failures (run_events conf ord evs a))"
  unfolding run_events_def using tracker.foldl_inv [of ord evs a conf] assms by (simp add: list_all_iff)

lemma new_ok: "sessions_ok (aa_sessions new_admin_auth)" "failures_ok (aa_failures new_admin_auth)"
  by (simp_all add: new_admin_auth_def sessions_ok_def failures_ok_def max_failures_def)

section \<open>Sessions have a login behind them\<close>

definition granted :: "config \<Rightarrow> (string list \<Rightarrow> string list) \<Rightarrow> admin_event list \<Rightarrow> string \<Rightarrow> instant \<Rightarrow> bool" where
  "granted conf ord evs token expiry =
     (\<exists>pre t rnd client user pw post. evs = pre @ Login t rnd client user pw # post \<and>
        fst (admin_login conf ord t rnd client user pw (run_events conf ord pre new_admin_auth)) = Some token \<and>
        user = admin_username conf \<and> pw = admin_password conf \<and>
        expiry = t + session_ttl \<and> Logout token \<notin> set post)"

lemma granted_snoc: "granted conf ord evs token e \<Longrightarrow> ev \<noteq> Logout token \<Longrightarrow> granted conf ord (evs @ [ev]) token e"
  unfolding granted_def by (fastforce intro: exI [where x = "_ @ [ev]"])

lemma session_granted:
  "map_of (aa_sessions (run_events conf ord evs new_admin_auth)) token = Some e \<Longrightarrow> granted conf ord evs token e"
proof (induction evs rule: rev_induct)
  case Nil
  then show ?case by (simp add: new_admin_auth_def)
next
  case (snoc ev evs)
  let ?a = "run_events conf ord evs new_admin_auth"
  have now: "map_of (aa_sessions (event_step conf ord ev ?a)) token = Some e" using snoc.prems by simp
  show ?case
  proof (cases ev)
    case (Login t rnd client user pw)
    show ?thesis
    proof (cases rule: admin_login_cases [of conf ord t rnd client user pw ?a])
      case accepted
      show ?thesis
      proof (cases "token = hex_encode rnd")
        case True
        then have "e = t + session_ttl" using now Login accepted by (simp add: event_step_def)
        moreover have "fst (admin_login conf ord t rnd client user pw ?a) = Some token"
          using accepted(1) True by simp
        ultimately show ?thesis
          unfolding granted_def using Login accepted(3,4)
          by (intro exI [of _ evs] exI [of _ t] exI [of _ rnd] exI [of _ client] exI [of _ user] exI [of _ pw]
                exI [of _ "[]"]) simp
      next
        case False
        then have "map_of (aa_sessions ?a) token = Some e"
          using now Login accepted by (auto simp: event_step_def ensure_session_capacity_def split: if_splits)
        then show ?thesis using snoc.IH Login by (intro granted_snoc) simp_all
      qed
    qed (use now snoc.IH Login in \<open>auto simp: event_step_def intro!: granted_snoc\<close>)
  next
    case (Check t token')
    then have "map_of (aa_sessions ?a) token = Some e"
      using now by (auto simp: event_step_def check_session_def split: if_splits option.splits)
    then show ?thesis using snoc.IH Check by (intro granted_snoc) simp_all
  next
    case (Logout token')
    then have "token \<noteq> token'" "map_of (aa_sessions ?a) token = Some e"
      using now by (auto simp: event_step_def split: if_splits)
    then show ?thesis using snoc.IH Logout by (intro granted_snoc) simp_all
  qed
qed

section \<open>Guessing\<close>

text \<open>The logins of a client whose wrong credentials were actually compared.\<close>

fun guesses :: "config \<Rightarrow> (string list \<Rightarrow> string list) \<Rightarrow> string \<Rightarrow> admin_event list \<Rightarrow> admin_auth \<Rightarrow> nat" where
  "guesses conf ord c [] a = 0"
| "guesses conf ord c (ev # evs) a =
     (case ev of
        Login t rnd client user pw \<Rightarrow>
          if client = c \<and> \<not> fst (admin_locked t client (aa_failures a)) \<and> \<not> good_credentials conf ev then 1 else 0
      | _ \<Rightarrow> 0) + guesses conf ord c evs (event_step conf ord ev a)"

definition recent :: "instant \<Rightarrow> string \<Rightarrow> admin_auth \<Rightarrow> nat" where
  "recent t0 c a = length (filter (\<lambda>t. t0 \<le> t) (failures_of c (aa_failures a)))"

definition in_window :: "instant \<Rightarrow> admin_event \<Rightarrow> bool" where
  "in_window t0 ev = (case ev of Login t _ _ _ _ \<Rightarrow> t0 \<le> t \<and> t < t0 + failure_window | _ \<Rightarrow> True)"

definition login_client :: "admin_event \<Rightarrow> string set" where
  "login_client ev = (case ev of Login _ _ client _ _ \<Rightarrow> {client} | _ \<Rightarrow> {})"

definition bad_login_of :: "config \<Rightarrow> string \<Rightarrow> admin_event \<Rightarrow> bool" where
  "bad_login_of conf c ev = (case ev of Login _ _ client _ _ \<Rightarrow> client = c \<longrightarrow> \<not> good_credentials conf ev | _ \<Rightarrow> True)"

definition client_room :: "string set \<Rightarrow> admin_auth \<Rightarrow> bool" where
  "client_room F a = (finite F \<and> card F < max_failures \<and> map_wf (aa_failures a) \<and> fst ` set (aa_failures a) \<subseteq> F)"

lemma failures_of_put [simp]:
  "failures_of c (map_put k ts fs) = (if c = k then ts else failures_of c fs)"
  by (simp add: failures_of_def)

lemma failures_of_del [simp]: "failures_of c (map_del k fs) = (if c = k then [] else failures_of c fs)"
  by (simp add: failures_of_def)

lemma cleanup_keys: "client \<in> F \<Longrightarrow> map_wf fs \<Longrightarrow> fst ` set fs \<subseteq> F \<Longrightarrow>
   map_wf (cleanup_failures now client fs) \<and> fst ` set (cleanup_failures now client fs) \<subseteq> F"
  by (auto simp: cleanup_failures_def Let_def set_map_put)

lemma map_wf_length: "map_wf fs \<Longrightarrow> length fs = card (fst ` set fs)"
  unfolding map_wf_def using distinct_card [of "map fst fs"] by simp

lemma record_failure_room:
  fixes now :: instant
  assumes "finite F" and "card F < max_failures" and "client \<in> F" and "map_wf fs" and "fst ` set fs \<subseteq> F"
  defines "m \<equiv> map_put client (failures_of client (cleanup_failures now client fs) @ [now]) (cleanup_failures now client fs)"
  shows "record_failure ord now client fs = m" and "map_wf m" and "fst ` set m \<subseteq> F"
proof -
  note c = cleanup_keys [OF assms(3-5), of now]
  then show wf: "map_wf m" and keys: "fst ` set m \<subseteq> F" using assms(3) by (auto simp: m_def set_map_put)
  have "length m \<le> card F"
    using map_wf_length [OF wf] keys assms(1) by (simp add: card_mono)
  with assms(2) show "record_failure ord now client fs = m"
    by (simp add: record_failure_def ensure_failure_capacity_def m_def Let_def)
qed

lemma recent_cleanup:
  assumes "now < t0 + failure_window"
  shows "filter ((\<le>) t0) (failures_of c (cleanup_failures now client fs)) = filter ((\<le>) t0) (failures_of c fs)"
proof -
  have "filter ((\<le>) t0) (filter (\<lambda>t. now - failure_window < t) ts) = filter ((\<le>) t0) ts" for ts
    using assms by (induction ts) auto
  then show ?thesis by (simp add: failures_of_cleanup)
qed

lemma event_step_recent:
  assumes "in_window t0 ev" and "bad_login_of conf c ev" and "client_room F a" and "login_client ev \<subseteq> F"
  shows "recent t0 c (event_step conf ord ev a) = guesses conf ord c [ev] a + recent t0 c a"
    and "client_room F (event_step conf ord ev a)"
proof -
  have "recent t0 c (event_step conf ord ev a) = guesses conf ord c [ev] a + recent t0 c a \<and>
    client_room F (event_step conf ord ev a)"
  proof (cases ev)
    case (Login t rnd client user pw)
    have w: "t0 \<le> t" "t < t0 + failure_window" and mem: "client \<in> F"
      using assms(1,4) Login by (simp_all add: in_window_def login_client_def)
    have r: "finite F" "card F < max_failures" "map_wf (aa_failures a)" "fst ` set (aa_failures a) \<subseteq> F"
      using assms(3) by (auto simp: client_room_def)
    note ck = cleanup_keys [OF mem r(3,4), of t]
    note rf = record_failure_room [OF r(1,2) mem conjunct1 [OF ck] conjunct2 [OF ck]]
    show ?thesis
    proof (cases rule: admin_login_cases [of conf ord t rnd client user pw a])
      case locked
      then show ?thesis using Login w r ck
        by (simp add: event_step_def recent_def recent_cleanup admin_locked_def client_room_def)
    next
      case wrong
      then show ?thesis using Login w r rf
        by (auto simp: event_step_def recent_def recent_cleanup admin_locked_def client_room_def good_credentials_def)
    next
      case accepted
      moreover have "client \<noteq> c" using assms(2) Login accepted by (auto simp: bad_login_of_def good_credentials_def)
      ultimately show ?thesis using Login w r ck
        by (auto simp: event_step_def recent_def recent_cleanup client_room_def)
    qed
  next
    case (Check t token)
    then show ?thesis using assms(3) by (simp add: event_step_def recent_def client_room_def)
  next
    case (Logout token)
    then show ?thesis using assms(3) by (simp add: event_step_def recent_def client_room_def)
  qed
  then show "recent t0 c (event_step conf ord ev a) = guesses conf ord c [ev] a + recent t0 c a"
    "client_room F (event_step conf ord ev a)" by simp_all
qed

lemma run_recent:
  assumes "list_all (in_window t0) evs" and "list_all (bad_login_of conf c) evs" and "client_room F a"
    and "\<Union> (login_client ` set evs) \<subseteq> F"
  shows "recent t0 c (run_events conf ord evs a) = guesses conf ord c evs a + recent t0 c a"
  using assms
proof (induction evs arbitrary: a)
  case Nil
  then show ?case by simp
next
  case (Cons ev evs)
  have "recent t0 c (run_events conf ord evs (event_step conf ord ev a)) =
      guesses conf ord c evs (event_step conf ord ev a) + recent t0 c (event_step conf ord ev a)"
    using Cons.prems event_step_recent(2) [of t0 ev conf c F a ord] by (intro Cons.IH) auto
  then show ?case using event_step_recent(1) [of t0 ev conf c F a ord] Cons.prems by simp
qed

section \<open>Properties\<close>

text \<open>
  C40: whatever the order of map iterations, the tracker stays bounded over any history: at most 64
  sessions, at most 15 clients with failures, and at most 5 failures of each.
\<close>

theorem admin_bounds:
  assumes "iterates ord" and "list_all real_random evs"
  shows "length (aa_sessions (run_events conf ord evs new_admin_auth)) \<le> 64 \<and>
    length (aa_failures (run_events conf ord evs new_admin_auth)) \<le> 15 \<and>
    length (failures_of client (aa_failures (run_events conf ord evs new_admin_auth))) \<le> 5"
  using run_events_ok [OF assms new_ok, of conf] failures_of_le [of "aa_failures (run_events conf ord evs new_admin_auth)" client]
  by (auto simp: sessions_ok_def failures_ok_def max_sessions_def max_failures_def lock_threshold_def)

definition demo_events :: "admin_event list" where
  "demo_events = [Login 0 (replicate 32 CHR ''a'') ''1.2.3.4'' ''x'' '''',
     Login 1 (replicate 32 CHR ''b'') ''1.2.3.4'' '''' '''', Check 2 ''zz'']"

theorem admin_bounds_witness:
  "length (aa_sessions (run_events empty_config id demo_events new_admin_auth)) \<le> 64 \<and>
   length (aa_failures (run_events empty_config id demo_events new_admin_auth)) \<le> 15"
proof -
  have "iterates id" "list_all real_random demo_events"
    by (simp_all add: iterates_def demo_events_def real_random_def)
  from admin_bounds [OF this] show ?thesis by simp
qed

text \<open>
  C19: with the gate enabled, a token passes only when some login with the configured credentials,
  from a client that was not locked, issued it at most twelve hours ago, and it has not been logged
  out since.
\<close>

theorem admin_session_history:
  assumes "admin_auth_enabled conf"
    and "fst (check_session conf now token (run_events conf ord evs new_admin_auth))"
  shows "\<exists>pre t rnd client user pw post. evs = pre @ Login t rnd client user pw # post \<and>
    fst (admin_login conf ord t rnd client user pw (run_events conf ord pre new_admin_auth)) = Some token \<and>
    user = admin_username conf \<and> pw = admin_password conf \<and>
    now \<le> t + 12 * 3600 * second \<and> Logout token \<notin> set post"
proof -
  obtain e where e: "map_of (aa_sessions (run_events conf ord evs new_admin_auth)) token = Some e" "\<not> e < now"
    using assms by (auto simp: check_session_def split: option.splits if_splits)
  from session_granted [OF e(1)] e(2) show ?thesis
    unfolding granted_def session_ttl_def by fastforce
qed

definition demo_admin :: config where
  "demo_admin = empty_config\<lparr>admin_auth_enabled := True, admin_username := ''root'', admin_password := ''pw''\<rparr>"

theorem admin_session_history_witness:
  "fst (check_session demo_admin 5 (hex_encode ''k'') (run_events demo_admin id [Login 1 ''k'' ''h'' ''root'' ''pw''] new_admin_auth)) \<and>
   (\<exists>t. (5::int) \<le> t + 12 * 3600 * second)"
proof -
  have e: "admin_auth_enabled demo_admin" by (simp add: demo_admin_def)
  have c: "fst (check_session demo_admin 5 (hex_encode ''k'') (run_events demo_admin id [Login 1 ''k'' ''h'' ''root'' ''pw''] new_admin_auth))"
    by code_simp
  from admin_session_history [OF e c] c show ?thesis by blast
qed

text \<open>
  C20: within any fifteen minutes, and while fewer than sixteen client addresses are involved, a client
  that does not know the credentials gets at most five guesses compared, however many logins it
  sends; after five, even the right credentials are refused to it for the rest of the time.
\<close>

theorem admin_guess_bound:
  assumes "iterates ord" and "list_all real_random evs" and "sessions_ok (aa_sessions a)" and "failures_ok (aa_failures a)"
    and "list_all (in_window t0) evs" and "list_all (bad_login_of conf c) evs"
    and "card (fst ` set (aa_failures a) \<union> \<Union> (login_client ` set evs)) < 16"
  shows "guesses conf ord c evs a \<le> 5 \<and>
    (guesses conf ord c evs a = 5 \<longrightarrow> t0 \<le> t \<and> t < t0 + 15 * 60 * second \<longrightarrow>
       fst (admin_login conf ord t rnd c user pw (run_events conf ord evs a)) = None)"
proof -
  let ?F = "fst ` set (aa_failures a) \<union> \<Union> (login_client ` set evs)"
  let ?b = "run_events conf ord evs a"
  have "finite ?F" by (auto simp: login_client_def split: admin_event.splits)
  then have room: "client_room ?F a" using assms(4,7) by (auto simp: client_room_def failures_ok_def max_failures_def)
  have eq: "recent t0 c ?b = guesses conf ord c evs a + recent t0 c a"
    by (rule run_recent [OF assms(5,6) room]) simp
  have ok: "failures_ok (aa_failures ?b)" using run_events_ok [OF assms(1-4)] by simp
  have le: "recent t0 c ?b \<le> 5"
    using failures_of_le [OF ok, of c] length_filter_le le_trans
    unfolding recent_def lock_threshold_def by blast
  have "fst (admin_login conf ord t rnd c user pw ?b) = None"
    if "guesses conf ord c evs a = 5" "t < t0 + 15 * 60 * second"
  proof -
    have "5 \<le> length (filter ((\<le>) t0) (failures_of c (cleanup_failures t c (aa_failures ?b))))"
      using that eq recent_cleanup [of t t0 c c "aa_failures ?b"] by (simp add: recent_def failure_window_def)
    then have "lock_threshold \<le> length (failures_of c (cleanup_failures t c (aa_failures ?b)))"
      using length_filter_le le_trans unfolding lock_threshold_def by blast
    then show ?thesis by (simp add: admin_login_def admin_locked_def)
  qed
  with eq le show ?thesis by simp
qed

definition wrong_logins :: "nat \<Rightarrow> string \<Rightarrow> admin_event list" where
  "wrong_logins n client = replicate n (Login 1 (replicate 32 CHR ''r'') client ''root'' ''guess'')"

theorem admin_guess_bound_witness:
  "guesses demo_admin id ''h'' (wrong_logins 7 ''h'') new_admin_auth = 5 \<and>
   fst (admin_login demo_admin id 2 ''k'' ''h'' ''root'' ''pw'' (run_events demo_admin id (wrong_logins 7 ''h'') new_admin_auth)) = None"
proof -
  have h: "iterates id" "list_all real_random (wrong_logins 7 ''h'')" "list_all (in_window 0) (wrong_logins 7 ''h'')"
    "list_all (bad_login_of demo_admin ''h'') (wrong_logins 7 ''h'')"
    "card (fst ` set (aa_failures new_admin_auth) \<union> \<Union> (login_client ` set (wrong_logins 7 ''h''))) < 16"
    by (simp_all add: iterates_def wrong_logins_def real_random_def in_window_def bad_login_of_def failure_window_def
        good_credentials_def demo_admin_def new_admin_auth_def login_client_def list_all_iff)
  have g: "guesses demo_admin id ''h'' (wrong_logins 7 ''h'') new_admin_auth = 5" by code_simp
  from admin_guess_bound [OF h(1,2) new_ok h(3-5), of 2 "''k''" "''root''" "''pw''"] g show ?thesis by simp
qed

text \<open>
  The bound needs that room. The sixteenth client with a failure makes the tracker forget one
  of the sixteen, and that may be the locked one: here a client gets ten guesses compared in the
  same instant, with fifteen addresses failing once in between.
\<close>

theorem admin_lockout_evicted:
  "\<exists>ord evs. iterates ord \<and> list_all (in_window 0) evs \<and> list_all (bad_login_of demo_admin ''h'') evs \<and>
     guesses demo_admin ord ''h'' evs new_admin_auth = 10"
proof -
  define others where "others = concat (map (\<lambda>c. wrong_logins 1 [c]) ''abcdefgijklmnop'')"
  define evs where "evs = wrong_logins 5 ''h'' @ others @ wrong_logins 5 ''h''"
  have "guesses demo_admin id ''h'' evs new_admin_auth = 10"
    unfolding evs_def others_def by code_simp
  moreover have "list_all (in_window 0) evs" "list_all (bad_login_of demo_admin ''h'') evs"
    by (simp_all add: evs_def others_def wrong_logins_def in_window_def failure_window_def bad_login_of_def
        good_credentials_def demo_admin_def list_all_iff)
  moreover have "iterates id" by (simp add: iterates_def)
  ultimately show ?thesis by blast
qed

end
