(* ===== verification/ProxyState.thy ===== *)
theory ProxyState
  imports Net
begin

text \<open>
  The state of the mixed proxy that outlives one request (\<open>proxy.go\<close>): the tunnel it dials through
  and its generation, the signal to the refresher, the hosts known to work, the destinations dialled
  last, and the DNS cache with its calls in flight; and the dial loop over them.

  The methods that take a mutex are single operations. A tunnel is a number for its dialer and one
  for its resolver. A channel \<open>tunSwapped\<close> is the generation it was made in, and it is closed when
  the generation has moved on. Generations are naturals: a rotation takes seconds, so the 64 bits of
  the counter are not exhausted.
\<close>

section \<open>Definitions\<close>

definition dns_cache_ttl :: duration where "dns_cache_ttl = 5 * 60 * second"
definition dns_lookup_retries :: nat where "dns_lookup_retries = 4"
definition proxy_dial_timeout :: duration where "proxy_dial_timeout = 60 * second"
definition dial_retry_delay :: duration where "dial_retry_delay = 500 * millisecond"
definition recent_dial_ttl :: duration where "recent_dial_ttl = 10 * 60 * second"
definition recent_dial_cap :: nat where "recent_dial_cap = 8"

text \<open>What the code looks at in an error: whether it wraps \<open>context.DeadlineExceeded\<close>, whether it is
  a DNS error that timed out, and its text.\<close>

record dial_err =
  de_deadline :: bool
  de_dns_timeout :: bool
  de_text :: string

definition no_addresses :: "string \<Rightarrow> dial_err" where
  "no_addresses host = \<lparr>de_deadline = False, de_dns_timeout = False,
     de_text = ''lookup '' @ host @ '': no addresses found''\<rparr>"

definition is_retryable_dial_error :: "dial_err \<Rightarrow> bool" where
  "is_retryable_dial_error e =
     (de_deadline e \<or> de_dns_timeout e \<or> contains (de_text e) ''operation aborted'')"

record recent_dial =
  rd_addr :: string
  rd_at :: instant

record dns_entry =
  dn_addrs :: "string list"
  dn_expires :: instant

text \<open>\<open>px_kick\<close> is \<open>None\<close> before \<open>RefreshKick\<close> made the channel, then whether its one slot is
  full. \<open>px_calls\<close> maps a host to its call in flight, \<open>px_done\<close> a finished call to its result.\<close>

record proxy =
  px_dialer :: nat
  px_resolver :: "nat option"
  px_gen :: nat
  px_kick :: "bool option"
  px_last_kick :: nat
  px_cache :: "(string, dns_entry) gomap"
  px_calls :: "(string, nat) gomap"
  px_done :: "(nat, dial_err + string list) gomap"
  px_next :: nat
  px_recent :: "recent_dial list"
  px_live :: "(string, instant) gomap"

definition new_mixed_proxy :: "nat \<Rightarrow> nat option \<Rightarrow> proxy" where
  "new_mixed_proxy dialer resolver =
     \<lparr>px_dialer = dialer, px_resolver = resolver, px_gen = 0, px_kick = None, px_last_kick = 0,
      px_cache = [], px_calls = [], px_done = [], px_next = 0, px_recent = [], px_live = []\<rparr>"

subsection \<open>Tunnel generations and the refresh signal\<close>

definition set_tunnel :: "nat \<Rightarrow> nat option \<Rightarrow> proxy \<Rightarrow> proxy" where
  "set_tunnel d r p = p\<lparr>px_dialer := d, px_resolver := r, px_gen := px_gen p + 1\<rparr>"

definition tunnel_gen :: "proxy \<Rightarrow> nat \<times> nat" where
  "tunnel_gen p = (px_gen p, px_gen p)"

definition refresh_kick :: "proxy \<Rightarrow> proxy" where
  "refresh_kick p = (if px_kick p = None then p\<lparr>px_kick := Some False\<rparr> else p)"

text \<open>The two halves of \<open>kickRefresh\<close>: the decision under the lock, and the non-blocking send.\<close>

definition kick_decide :: "proxy \<Rightarrow> bool \<times> proxy" where
  "kick_decide p =
     (if px_kick p = None \<or> px_last_kick p = px_gen p then (False, p)
      else (True, p\<lparr>px_last_kick := px_gen p\<rparr>))"

definition kick_send :: "proxy \<Rightarrow> proxy" where
  "kick_send p = (if px_kick p = Some False then p\<lparr>px_kick := Some True\<rparr> else p)"

definition kick_refresh :: "proxy \<Rightarrow> proxy" where
  "kick_refresh p = (case kick_decide p of (True, p') \<Rightarrow> kick_send p' | (False, p') \<Rightarrow> p')"

text \<open>The refresher receiving from the channel; \<open>False\<close> when it would block.\<close>

definition kick_receive :: "proxy \<Rightarrow> bool \<times> proxy" where
  "kick_receive p = (if px_kick p = Some True then (True, p\<lparr>px_kick := Some False\<rparr>) else (False, p))"

text \<open>What ends a wait, when the generation has not moved yet.\<close>

datatype wake = Swapped | TimedOut | ProxyClosed

definition wait_tunnel_swap :: "nat \<Rightarrow> proxy \<Rightarrow> wake \<Rightarrow> bool" where
  "wait_tunnel_swap gen p w = (if fst (tunnel_gen p) \<noteq> gen then True else w = Swapped)"

subsection \<open>Live hosts and recent destinations\<close>

definition mark_host_live :: "instant \<Rightarrow> string \<Rightarrow> proxy \<Rightarrow> proxy" where
  "mark_host_live now host p =
     (let m = map_put host now (px_live p)
      in p\<lparr>px_live := (if 256 < length m then filter (\<lambda>(h, t). \<not> recent_dial_ttl < now - t) m else m)\<rparr>)"

definition host_was_live :: "instant \<Rightarrow> string \<Rightarrow> proxy \<Rightarrow> bool" where
  "host_was_live now host p =
     (case map_of (px_live p) host of None \<Rightarrow> False | Some t \<Rightarrow> now - t \<le> recent_dial_ttl)"

fun keep_recent :: "instant \<Rightarrow> string \<Rightarrow> recent_dial list \<Rightarrow> recent_dial list \<Rightarrow> recent_dial list" where
  "keep_recent now addr out [] = out"
| "keep_recent now addr out (d # ds) =
     (if rd_addr d = addr \<or> recent_dial_ttl < now - rd_at d \<or> recent_dial_cap \<le> length out
      then keep_recent now addr out ds else keep_recent now addr (out @ [d]) ds)"

definition record_recent_dial :: "instant \<Rightarrow> string \<Rightarrow> proxy \<Rightarrow> proxy" where
  "record_recent_dial now addr p =
     (case split_host_port addr of
        None \<Rightarrow> p
      | Some _ \<Rightarrow> p\<lparr>px_recent := keep_recent now addr [\<lparr>rd_addr = addr, rd_at = now\<rparr>] (px_recent p)\<rparr>)"

fun recent_addrs :: "instant \<Rightarrow> int \<Rightarrow> string list \<Rightarrow> recent_dial list \<Rightarrow> string list" where
  "recent_addrs now k out [] = out"
| "recent_addrs now k out (d # ds) =
     (if recent_dial_ttl < now - rd_at d then recent_addrs now k out ds
      else if k \<le> int (length out + 1) then out @ [rd_addr d]
      else recent_addrs now k (out @ [rd_addr d]) ds)"

definition recent_dial_addrs :: "instant \<Rightarrow> int \<Rightarrow> proxy \<Rightarrow> string list" where
  "recent_dial_addrs now k p = recent_addrs now k [] (px_recent p)"

subsection \<open>DNS\<close>

definition benchmark_net :: "u32 \<Rightarrow> bool" where
  "benchmark_net w =
     (drop_bit 24 w = 198 \<and> (take_bit 8 (drop_bit 16 w) = 18 \<or> take_bit 8 (drop_bit 16 w) = 19))"

definition is_benchmark_fake_ip :: "addr \<Rightarrow> bool" where
  "is_benchmark_fake_ip a =
     (case a of V4 w \<Rightarrow> benchmark_net w | V6 w z \<Rightarrow> is4in6 w \<and> benchmark_net (low4 w))"

definition usable_ips :: "string list \<Rightarrow> string list" where
  "usable_ips addrs =
     List.map_filter (\<lambda>s. case parse_ip s of
         None \<Rightarrow> None
       | Some ip \<Rightarrow> if is_benchmark_fake_ip ip then None else Some (show_ip ip)) addrs"

fun resolve_from :: "(nat \<Rightarrow> dial_err + string list) \<Rightarrow> string \<Rightarrow> nat \<Rightarrow> nat \<Rightarrow> dial_err \<Rightarrow> dial_err + string list" where
  "resolve_from answers host attempt 0 prev = Inl prev"
| "resolve_from answers host attempt (Suc n) prev =
     (case answers attempt of
        Inl e \<Rightarrow> resolve_from answers host (attempt + 1) n e
      | Inr addrs \<Rightarrow>
          if usable_ips addrs \<noteq> [] then Inr (usable_ips addrs)
          else resolve_from answers host (attempt + 1) n (no_addresses host))"

definition resolve_host :: "(nat \<Rightarrow> dial_err + string list) \<Rightarrow> string \<Rightarrow> dial_err + string list" where
  "resolve_host answers host = resolve_from answers host 0 dns_lookup_retries (no_addresses host)"

datatype lookup_start = Hit "string list" | Join nat | Lead nat

definition lookup_begin :: "instant \<Rightarrow> string \<Rightarrow> proxy \<Rightarrow> lookup_start \<times> proxy" where
  "lookup_begin now host p =
     (case (case map_of (px_cache p) host of
              None \<Rightarrow> None
            | Some e \<Rightarrow> if now < dn_expires e then Some (dn_addrs e) else None) of
        Some addrs \<Rightarrow> (Hit addrs, p)
      | None \<Rightarrow>
          (case map_of (px_calls p) host of
             Some i \<Rightarrow> (Join i, p)
           | None \<Rightarrow> (Lead (px_next p),
               p\<lparr>px_calls := map_put host (px_next p) (px_calls p), px_next := px_next p + 1\<rparr>)))"

definition lookup_finish :: "instant \<Rightarrow> string \<Rightarrow> nat \<Rightarrow> dial_err + string list \<Rightarrow> proxy \<Rightarrow> proxy" where
  "lookup_finish start host i r p =
     p\<lparr>px_cache := (case r of Inl _ \<Rightarrow> px_cache p
                    | Inr addrs \<Rightarrow> map_put host \<lparr>dn_addrs = addrs, dn_expires = start + dns_cache_ttl\<rparr> (px_cache p)),
       px_calls := map_del host (px_calls p), px_done := map_put i r (px_done p)\<rparr>"

subsection \<open>Dialling\<close>

text \<open>
  One attempt of \<open>dialContext\<close>, as the environment shapes it: what the other goroutines did before
  it, the time it starts and ends, the answers of the resolver, the result of a joined lookup that
  another goroutine runs, and the outcome of connecting to an address (the remote address of the
  connection, if it has one).
\<close>

record attempt =
  at_others :: "proxy \<Rightarrow> proxy"
  at_start :: instant
  at_answers :: "nat \<Rightarrow> dial_err + string list"
  at_joined :: "dial_err + string list"
  at_connect :: "nat \<Rightarrow> string \<Rightarrow> dial_err + string option"
  at_end :: instant

definition lookup_host :: "attempt \<Rightarrow> string \<Rightarrow> proxy \<Rightarrow> proxy \<times> (dial_err + string list)" where
  "lookup_host at host p =
     (case lookup_begin (at_start at) host p of
        (Hit addrs, p1) \<Rightarrow> (p1, Inr addrs)
      | (Join _, p1) \<Rightarrow> (p1, at_joined at)
      | (Lead i, p1) \<Rightarrow>
          let r = resolve_host (at_answers at) host
          in (lookup_finish (at_start at) host i r p1, r))"

fun connect_any :: "(string \<Rightarrow> dial_err + string option) \<Rightarrow> string \<Rightarrow> string \<Rightarrow> string list \<Rightarrow> dial_err option \<Rightarrow>
    dial_err + string option" where
  "connect_any connect host port [] prev = (case prev of None \<Rightarrow> Inl (no_addresses host) | Some e \<Rightarrow> Inl e)"
| "connect_any connect host port (a # as) prev =
     (case connect (join_host_port a port) of
        Inr remote \<Rightarrow> Inr remote
      | Inl e \<Rightarrow> connect_any connect host port as (Some e))"

definition dial_once :: "attempt \<Rightarrow> string \<Rightarrow> string \<Rightarrow> proxy \<Rightarrow> proxy \<times> (dial_err + string option)" where
  "dial_once at host port p =
     (let connect = at_connect at (px_dialer p) in
      if parse_ip host \<noteq> None \<or> px_resolver p = None then (p, connect (join_host_port host port))
      else case lookup_host at host p of
        (p1, Inl e) \<Rightarrow> (p1, Inl e)
      | (p1, Inr addrs) \<Rightarrow> (p1, connect_any connect host port addrs None))"

definition dial_recorded :: "instant \<Rightarrow> string \<Rightarrow> string \<Rightarrow> string option \<Rightarrow> proxy \<Rightarrow> proxy" where
  "dial_recorded now host port remote p =
     mark_host_live now host
       (if parse_ip host \<noteq> None then record_recent_dial now (join_host_port host port) p
        else case remote of None \<Rightarrow> p | Some r \<Rightarrow> record_recent_dial now r p)"

text \<open>The loop of \<open>dialContext\<close> up to a deadline; \<open>None\<close> when the attempts given do not decide it.
  The next attempt starts unless the deadline comes before the retry delay is over.\<close>

fun dial_loop :: "instant \<Rightarrow> string \<Rightarrow> string \<Rightarrow> attempt list \<Rightarrow> dial_err option \<Rightarrow> proxy \<Rightarrow>
    (proxy \<times> (dial_err + string option)) option" where
  "dial_loop deadline host port [] prev p = None"
| "dial_loop deadline host port (at # ats) prev p =
     (case dial_once at host port (at_others at p) of
        (p1, Inr remote) \<Rightarrow> Some (dial_recorded (at_end at) host port remote p1, Inr remote)
      | (p1, Inl e) \<Rightarrow>
          if deadline \<le> at_end at then
            Some (p1, Inl (case prev of
                     None \<Rightarrow> e
                   | Some l \<Rightarrow> if \<not> de_deadline e then e else l))
          else if \<not> is_retryable_dial_error e then Some (p1, Inl e)
          else
            let p2 = (if host_was_live (at_end at) host p1 then kick_refresh p1 else p1) in
            if deadline \<le> at_end at + dial_retry_delay then Some (p2, Inl e)
            else dial_loop deadline host port ats (Some e) p2)"

definition dial_context :: "instant option \<Rightarrow> instant \<Rightarrow> string \<Rightarrow> string \<Rightarrow> attempt list \<Rightarrow> proxy \<Rightarrow>
    (proxy \<times> (dial_err + string option)) option" where
  "dial_context ctx_deadline now host port ats p =
     dial_loop (case ctx_deadline of None \<Rightarrow> now + proxy_dial_timeout | Some d \<Rightarrow> d) host port ats None p"

subsection \<open>Relaying\<close>

text \<open>What happens on the two connections, in the order it happens: a chunk read from one side and
  written to the other, or the end of one side.\<close>

datatype relay_event = FromClient bytes | FromUpstream bytes | ClientEnds | UpstreamEnds

text \<open>The bytes written to the upstream and to the client; the callers close both connections as
  soon as \<open>relay\<close> returns, which is when the first direction is over.\<close>

fun relay :: "relay_event list \<Rightarrow> bytes \<times> bytes" where
  "relay [] = ([], [])"
| "relay (FromClient bs # evs) = (case relay evs of (u, c) \<Rightarrow> (bs @ u, c))"
| "relay (FromUpstream bs # evs) = (case relay evs of (u, c) \<Rightarrow> (u, bs @ c))"
| "relay (ClientEnds # evs) = ([], [])"
| "relay (UpstreamEnds # evs) = ([], [])"

section \<open>The refresh signal, interleaved\<close>

text \<open>Requests that have decided to kick but not yet sent, the generations of the decisions, and the
  number of signals the refresher took.\<close>

record kick_world =
  kw_proxy :: proxy
  kw_pending :: nat
  kw_decided :: "nat list"
  kw_received :: nat

inductive kick_step :: "kick_world \<Rightarrow> kick_world \<Rightarrow> bool" where
  swap: "kick_step w (w\<lparr>kw_proxy := set_tunnel d r (kw_proxy w)\<rparr>)"
| subscribe: "kick_step w (w\<lparr>kw_proxy := refresh_kick (kw_proxy w)\<rparr>)"
| decide: "kick_decide (kw_proxy w) = (True, p) \<Longrightarrow>
    kick_step w (w\<lparr>kw_proxy := p, kw_pending := kw_pending w + 1, kw_decided := px_gen p # kw_decided w\<rparr>)"
| send: "kw_pending w = Suc n \<Longrightarrow> kick_step w (w\<lparr>kw_proxy := kick_send (kw_proxy w), kw_pending := n\<rparr>)"
| receive: "kick_receive (kw_proxy w) = (True, p) \<Longrightarrow>
    kick_step w (w\<lparr>kw_proxy := p, kw_received := kw_received w + 1\<rparr>)"

inductive_cases kick_stepE: "kick_step w w'"

definition kick_start :: "nat \<Rightarrow> nat option \<Rightarrow> kick_world" where
  "kick_start d r = \<lparr>kw_proxy = new_mixed_proxy d r, kw_pending = 0, kw_decided = [], kw_received = 0\<rparr>"

definition kick_inv :: "kick_world \<Rightarrow> bool" where
  "kick_inv w =
     (let p = kw_proxy w in
      px_last_kick p \<le> px_gen p \<and>
      (case kw_decided w of [] \<Rightarrow> px_last_kick p = 0 | g # _ \<Rightarrow> px_last_kick p = g) \<and>
      sorted_wrt (>) (kw_decided w) \<and> (\<forall>g \<in> set (kw_decided w). 0 < g) \<and>
      kw_received w + kw_pending w + (if px_kick p = Some True then 1 else 0) \<le> length (kw_decided w))"

lemma kick_start_inv: "kick_inv (kick_start d r)"
  by (simp add: kick_inv_def kick_start_def new_mixed_proxy_def)

lemma kick_step_inv: "kick_step w w' \<Longrightarrow> kick_inv w \<Longrightarrow> kick_inv w'"
proof (erule kick_stepE, goal_cases)
  case (1 d r)
  then show ?case by (auto simp: kick_inv_def Let_def set_tunnel_def split: list.splits)
next
  case 2
  then show ?case by (auto simp: kick_inv_def Let_def refresh_kick_def split: list.splits)
next
  case (3 p)
  have p: "p = (kw_proxy w)\<lparr>px_last_kick := px_gen (kw_proxy w)\<rparr>" "px_last_kick (kw_proxy w) \<noteq> px_gen (kw_proxy w)"
    using 3(3) by (auto simp: kick_decide_def split: if_splits)
  have lt: "g < px_gen (kw_proxy w)" if "g \<in> set (kw_decided w)" for g
    using 3(1) p(2) that by (cases "kw_decided w") (fastforce simp: kick_inv_def Let_def)+
  have pos: "0 < px_gen (kw_proxy w)"
    using 3(1) p(2) by (auto simp: kick_inv_def Let_def)
  show ?case using 3 lt pos by (auto simp: kick_inv_def Let_def p(1))
next
  case (4 n)
  then show ?case by (auto simp: kick_inv_def Let_def kick_send_def split: list.splits if_splits)
next
  case (5 p)
  then show ?case by (auto simp: kick_inv_def Let_def kick_receive_def split: list.splits if_splits)
qed

interpretation kicks: step_invariant kick_step kick_inv
  by unfold_locales (rule kick_step_inv)

lemma sorted_gt_length:
  "sorted_wrt (>) gs \<Longrightarrow> \<forall>g \<in> set gs. 0 < g \<and> g \<le> n \<Longrightarrow> length gs \<le> n" for gs :: "nat list"
proof -
  assume s: "sorted_wrt (>) gs" and b: "\<forall>g \<in> set gs. 0 < g \<and> g \<le> n"
  have "distinct gs" using s by (induction gs) auto
  moreover have "set gs \<subseteq> {1..n}" using b by auto
  ultimately show ?thesis using card_mono [of "{1..n}" "set gs"] by (simp add: distinct_card)
qed

section \<open>Recent destinations\<close>

definition live_dial :: "instant \<Rightarrow> recent_dial \<Rightarrow> bool" where
  "live_dial now d = (now - rd_at d \<le> recent_dial_ttl)"

lemma keep_recent_eq:
  "keep_recent now a out ds =
     out @ take (recent_dial_cap - length out) (filter (\<lambda>d. rd_addr d \<noteq> a \<and> live_dial now d) ds)"
proof (induction ds arbitrary: out)
  case Nil
  then show ?case by simp
next
  case (Cons d ds)
  show ?case
  proof (cases "rd_addr d = a \<or> \<not> live_dial now d \<or> recent_dial_cap \<le> length out")
    case True
    then show ?thesis using Cons.IH by (auto simp: live_dial_def not_le)
  next
    case False
    then obtain n where "recent_dial_cap - length out = Suc n" by (cases "recent_dial_cap - length out") auto
    moreover from this have "recent_dial_cap - Suc (length out) = n" by simp
    ultimately show ?thesis using False Cons.IH [of "out @ [d]"] by (auto simp: live_dial_def not_le)
  qed
qed

lemma recent_addrs_eq:
  "recent_addrs now k out ds =
     out @ take (max 1 (nat k - length out)) (map rd_addr (filter (live_dial now) ds))"
proof (induction ds arbitrary: out)
  case Nil
  then show ?case by simp
next
  case (Cons d ds)
  show ?case
  proof (cases "live_dial now d")
    case False
    then show ?thesis using Cons.IH by (simp add: live_dial_def)
  next
    case True
    show ?thesis
    proof (cases "k \<le> int (length out + 1)")
      case True
      then have "max 1 (nat k - length out) = Suc 0" by simp
      then show ?thesis using True \<open>live_dial now d\<close> by (simp add: live_dial_def)
    next
      case False
      then obtain n where "nat k - length out = Suc n" "max 1 (nat k - Suc (length out)) = n" "0 < n"
        by (cases "nat k - length out") auto
      then show ?thesis using False \<open>live_dial now d\<close> Cons.IH [of "out @ [rd_addr d]"] by (simp add: live_dial_def)
    qed
  qed
qed

text \<open>The latest dial of every address, the newest first.\<close>

fun latest_dials :: "recent_dial list \<Rightarrow> recent_dial list" where
  "latest_dials [] = []"
| "latest_dials (d # ds) = d # filter (\<lambda>e. rd_addr e \<noteq> rd_addr d) (latest_dials ds)"

lemma latest_dials_sub: "set (latest_dials ds) \<subseteq> set ds"
  by (induction ds) auto

lemma latest_dials_distinct: "distinct (map rd_addr (latest_dials ds))"
  by (induction ds) (auto simp: distinct_map_filter)

lemma sorted_wrt_latest: "sorted_wrt P ds \<Longrightarrow> sorted_wrt P (latest_dials ds)"
  by (induction ds) (use latest_dials_sub in \<open>auto simp: sorted_wrt_filter\<close>)

lemma live_prefix:
  assumes "sorted_wrt (\<lambda>d e. rd_at e \<le> rd_at d) ds"
  shows "filter (live_dial t) ds = takeWhile (live_dial t) ds"
  using assms
proof (induction ds)
  case Nil
  then show ?case by simp
next
  case (Cons d ds)
  show ?case
  proof (cases "live_dial t d")
    case True
    then show ?thesis using Cons by simp
  next
    case False
    then have "\<forall>e \<in> set ds. \<not> live_dial t e" using Cons.prems by (fastforce simp: live_dial_def)
    then show ?thesis using False by (simp add: filter_empty_conv)
  qed
qed

lemma filter_one_out:
  "distinct (map rd_addr ds) \<Longrightarrow> length ds \<le> Suc (length (filter (\<lambda>d. rd_addr d \<noteq> a) ds))"
proof (induction ds)
  case Nil
  then show ?case by simp
next
  case (Cons d ds)
  show ?case
  proof (cases "rd_addr d = a")
    case True
    then have "filter (\<lambda>d. rd_addr d \<noteq> a) ds = ds"
      using Cons.prems by (auto simp: filter_id_conv intro: rev_image_eqI)
    then show ?thesis using True by simp
  next
    case False
    then show ?thesis using Cons by simp
  qed
qed

lemma live_dial_mono: "t \<le> now \<Longrightarrow> live_dial now d \<Longrightarrow> live_dial t d"
  by (simp add: live_dial_def)

lemma filter_none_live: "\<forall>d \<in> set ds. \<not> live_dial t d \<Longrightarrow> t \<le> now \<Longrightarrow> filter (live_dial now) (filter P ds) = []"
  using live_dial_mono by (fastforce simp: filter_empty_conv)

text \<open>Dropping what is too old or beyond the capacity early does not show later.\<close>

lemma recent_step:
  fixes D :: "recent_dial list"
  assumes sorted: "sorted_wrt (\<lambda>d e. rd_at e \<le> rd_at d) D" and dist: "distinct (map rd_addr D)"
    and L: "filter (live_dial t) L = filter (live_dial t) (take (Suc n) D)" and le: "t \<le> now"
  shows "filter (live_dial now) (take n (filter (\<lambda>d. rd_addr d \<noteq> a \<and> live_dial t d) L)) =
    filter (live_dial now) (take n (filter (\<lambda>d. rd_addr d \<noteq> a) D))"
proof -
  let ?k = "length (takeWhile (live_dial t) (take (Suc n) D))"
  have pre: "takeWhile (live_dial t) (take (Suc n) D) = take ?k D"
    by (metis takeWhile_eq_take take_take min.absorb2 length_takeWhile_le length_take min.cobounded2 min.commute le_trans)
  have "filter (\<lambda>d. rd_addr d \<noteq> a \<and> live_dial t d) L = filter (\<lambda>d. rd_addr d \<noteq> a) (filter (live_dial t) L)"
    by (simp add: conj_commute)
  also have "\<dots> = filter (\<lambda>d. rd_addr d \<noteq> a) (take ?k D)"
    using L live_prefix [OF sorted_wrt_take [OF sorted, of "Suc n"], of t] pre by simp
  finally have eq: "filter (\<lambda>d. rd_addr d \<noteq> a \<and> live_dial t d) L = filter (\<lambda>d. rd_addr d \<noteq> a) (take ?k D)" .
  have D: "filter (\<lambda>d. rd_addr d \<noteq> a) D =
      filter (\<lambda>d. rd_addr d \<noteq> a) (take ?k D) @ filter (\<lambda>d. rd_addr d \<noteq> a) (drop ?k D)"
    by (metis append_take_drop_id filter_append)
  show ?thesis
  proof (cases "Suc n \<le> ?k")
    case True
    then have k: "Suc n \<le> length (take ?k D)" by (metis length_takeWhile_le length_take min_def pre le_trans)
    have "distinct (map rd_addr (take ?k D))" using dist by (simp add: distinct_take flip: take_map)
    then have "n \<le> length (filter (\<lambda>d. rd_addr d \<noteq> a) (take ?k D))"
      using filter_one_out [of "take ?k D" a] k by linarith
    then show ?thesis unfolding eq D by simp
  next
    case False
    have "\<forall>d \<in> set (drop ?k D). \<not> live_dial t d"
    proof (cases "length D \<le> ?k")
      case True
      then show ?thesis by simp
    next
      case len: False
      then have "?k < length (take (Suc n) D)" using False by simp
      then have "\<not> live_dial t (D ! ?k)" using nth_length_takeWhile [of "live_dial t" "take (Suc n) D"] False by simp
      moreover have "rd_at d \<le> rd_at (D ! ?k)" if "d \<in> set (drop ?k D)" for d
        using that sorted len unfolding sorted_wrt_iff_nth_less
        by (auto simp: in_set_conv_nth) (metis le_add1 le_less less_diff_conv add.commute order_refl)
      ultimately show ?thesis by (fastforce simp: live_dial_def)
    qed
    note none = filter_none_live [OF this le]
    have "filter (live_dial now) (take m (filter (\<lambda>d. rd_addr d \<noteq> a) (drop ?k D))) = []" for m
      using none [of "\<lambda>d. rd_addr d \<noteq> a"] by (auto simp: filter_empty_conv dest!: in_set_takeD)
    then show ?thesis unfolding eq D by simp
  qed
qed

definition record_all :: "(string \<times> instant) list \<Rightarrow> proxy \<Rightarrow> proxy" where
  "record_all hist p = foldr (\<lambda>(a, t) p. record_recent_dial t a p) hist p"

definition dials_of :: "(string \<times> instant) list \<Rightarrow> recent_dial list" where
  "dials_of hist = map (\<lambda>(a, t). \<lparr>rd_addr = a, rd_at = t\<rparr>) (filter (\<lambda>(a, t). split_host_port a \<noteq> None) hist)"

definition newest_first :: "(string \<times> instant) list \<Rightarrow> bool" where
  "newest_first hist = sorted_wrt (\<lambda>x y. snd y \<le> snd x) hist"

lemma newest_first_dials:
  "newest_first hist \<Longrightarrow> sorted_wrt (\<lambda>d e. rd_at e \<le> rd_at d) (dials_of hist)"
  by (simp add: newest_first_def dials_of_def sorted_wrt_map sorted_wrt_filter case_prod_beta)

lemma record_all_recent:
  assumes "newest_first hist" and "\<forall>x \<in> set hist. snd x \<le> now" and "px_recent p = []"
  shows "filter (live_dial now) (px_recent (record_all hist p)) =
    filter (live_dial now) (take recent_dial_cap (latest_dials (dials_of hist)))"
  using assms
proof (induction hist arbitrary: now)
  case Nil
  then show ?case by (simp add: record_all_def dials_of_def)
next
  case (Cons x hist)
  obtain a t where x: "x = (a, t)" by (cases x)
  have nf: "newest_first hist" and le: "\<forall>y \<in> set hist. snd y \<le> t" "t \<le> now"
    using Cons.prems by (auto simp: newest_first_def x)
  show ?case
  proof (cases "split_host_port a")
    case None
    then show ?thesis using Cons x nf
      by (simp add: record_all_def dials_of_def record_recent_dial_def)
  next
    case (Some hp)
    let ?D = "latest_dials (dials_of hist)"
    have "filter (live_dial t) (px_recent (record_all hist p)) = filter (live_dial t) (take (Suc 7) ?D)"
      using Cons.IH [OF nf le(1) Cons.prems(3)] by (simp add: recent_dial_cap_def)
    note step = recent_step [OF sorted_wrt_latest [OF newest_first_dials [OF nf]] latest_dials_distinct this le(2), of a]
    have "px_recent (record_all (x # hist) p) =
        \<lparr>rd_addr = a, rd_at = t\<rparr> # take 7 (filter (\<lambda>d. rd_addr d \<noteq> a \<and> live_dial t d) (px_recent (record_all hist p)))"
      using Some by (simp add: record_all_def x record_recent_dial_def keep_recent_eq recent_dial_cap_def)
    moreover have "take recent_dial_cap (latest_dials (dials_of (x # hist))) =
        \<lparr>rd_addr = a, rd_at = t\<rparr> # take 7 (filter (\<lambda>d. rd_addr d \<noteq> a) ?D)"
      using Some by (simp add: x dials_of_def recent_dial_cap_def eval_nat_numeral(3) [symmetric])
    ultimately show ?thesis using step by simp
  qed
qed

section \<open>DNS lookups, interleaved\<close>

text \<open>What a goroutine in \<open>lookupHost\<close> is doing.\<close>

datatype dns_phase = Idle | Leading string nat instant | Waiting string nat | Got string "dial_err + string list"

record dns_world =
  dw_proxy :: proxy
  dw_phase :: "nat \<Rightarrow> dns_phase"

inductive dns_step :: "dns_world \<Rightarrow> dns_world \<Rightarrow> bool" where
  hit: "dw_phase w g = Idle \<Longrightarrow> lookup_begin now host (dw_proxy w) = (Hit addrs, p) \<Longrightarrow>
    dns_step w (w\<lparr>dw_proxy := p, dw_phase := (dw_phase w)(g := Got host (Inr addrs))\<rparr>)"
| join: "dw_phase w g = Idle \<Longrightarrow> lookup_begin now host (dw_proxy w) = (Join i, p) \<Longrightarrow>
    dns_step w (w\<lparr>dw_proxy := p, dw_phase := (dw_phase w)(g := Waiting host i)\<rparr>)"
| lead: "dw_phase w g = Idle \<Longrightarrow> lookup_begin now host (dw_proxy w) = (Lead i, p) \<Longrightarrow>
    dns_step w (w\<lparr>dw_proxy := p, dw_phase := (dw_phase w)(g := Leading host i now)\<rparr>)"
| finish: "dw_phase w g = Leading host i start \<Longrightarrow> r = resolve_host answers host \<Longrightarrow>
    dns_step w (w\<lparr>dw_proxy := lookup_finish start host i r (dw_proxy w), dw_phase := (dw_phase w)(g := Got host r)\<rparr>)"
| wake: "dw_phase w g = Waiting host i \<Longrightarrow> map_of (px_done (dw_proxy w)) i = Some r \<Longrightarrow>
    dns_step w (w\<lparr>dw_phase := (dw_phase w)(g := Got host r)\<rparr>)"
| cancel: "dw_phase w g = Waiting host i \<Longrightarrow>
    dns_step w (w\<lparr>dw_phase := (dw_phase w)(g := Got host (Inl e))\<rparr>)"
| return_dns: "dw_phase w g = Got host r \<Longrightarrow> dns_step w (w\<lparr>dw_phase := (dw_phase w)(g := Idle)\<rparr>)"

inductive_cases dns_stepE: "dns_step w w'"

definition dns_start :: "nat \<Rightarrow> nat option \<Rightarrow> dns_world" where
  "dns_start d r = \<lparr>dw_proxy = new_mixed_proxy d r, dw_phase = (\<lambda>_. Idle)\<rparr>"

definition usable_addr :: "string \<Rightarrow> bool" where
  "usable_addr s = (\<exists>ip. parse_ip s = Some ip \<and> \<not> is_benchmark_fake_ip ip)"

definition good_result :: "dial_err + string list \<Rightarrow> bool" where
  "good_result r = (case r of Inl _ \<Rightarrow> True | Inr as \<Rightarrow> as \<noteq> [] \<and> (\<exists>answer. as = usable_ips answer))"

lemma good_result_intros [simp, intro]:
  "good_result (Inl e)" "usable_ips answer \<noteq> [] \<Longrightarrow> good_result (Inr (usable_ips answer))"
  by (auto simp: good_result_def)

text \<open>Every leader is registered under its host, every registered call has one leader, and who waits
  waits for a registered or a finished call.\<close>

definition dns_inv :: "dns_world \<Rightarrow> bool" where
  "dns_inv w =
     ((\<forall>g host i t. dw_phase w g = Leading host i t \<longrightarrow> map_of (px_calls (dw_proxy w)) host = Some i \<and> i < px_next (dw_proxy w)) \<and>
      (\<forall>host i. map_of (px_calls (dw_proxy w)) host = Some i \<longrightarrow> (\<exists>g t. dw_phase w g = Leading host i t)) \<and>
      (\<forall>g g' h h' i t t'. dw_phase w g = Leading h i t \<longrightarrow> dw_phase w g' = Leading h' i t' \<longrightarrow> g = g') \<and>
      (\<forall>g host i. dw_phase w g = Waiting host i \<longrightarrow>
         map_of (px_calls (dw_proxy w)) host = Some i \<or> map_of (px_done (dw_proxy w)) i \<noteq> None))"

definition dns_good :: "dns_world \<Rightarrow> bool" where
  "dns_good w =
     ((\<forall>i r. map_of (px_done (dw_proxy w)) i = Some r \<longrightarrow> good_result r) \<and>
      (\<forall>h e. map_of (px_cache (dw_proxy w)) h = Some e \<longrightarrow> good_result (Inr (dn_addrs e))) \<and>
      (\<forall>g host r. dw_phase w g = Got host r \<longrightarrow> good_result r))"

lemma resolve_from_good: "good_result (resolve_from answers host k n prev)"
  by (induction n arbitrary: k prev) (auto split: sum.splits)

lemma lookup_begin_cases:
  assumes "lookup_begin now host p = (s, p')"
  obtains (hit) e where "s = Hit (dn_addrs e)" "p' = p" "map_of (px_cache p) host = Some e" "now < dn_expires e"
  | (join) i where "s = Join i" "p' = p" "map_of (px_calls p) host = Some i"
  | (lead) "s = Lead (px_next p)" "map_of (px_calls p) host = None"
      "p' = p\<lparr>px_calls := map_put host (px_next p) (px_calls p), px_next := px_next p + 1\<rparr>"
proof (cases "case map_of (px_cache p) host of
              None \<Rightarrow> None
            | Some e \<Rightarrow> if now < dn_expires e then Some (dn_addrs e) else None")
  case (Some addrs)
  then obtain e where "map_of (px_cache p) host = Some e" "now < dn_expires e" "addrs = dn_addrs e"
    by (auto split: option.splits if_splits)
  with assms show ?thesis by (intro hit [of e]) (auto simp: lookup_begin_def)
next
  case None
  show ?thesis
  proof (cases "map_of (px_calls p) host")
    case none: None
    with assms None have "(s, p') = (Lead (px_next p),
        p\<lparr>px_calls := map_put host (px_next p) (px_calls p), px_next := px_next p + 1\<rparr>)"
      unfolding lookup_begin_def None by simp
    then show ?thesis using lead none by simp
  next
    case (Some i)
    with assms None have "(s, p') = (Join i, p)"
      unfolding lookup_begin_def None by simp
    then show ?thesis using join Some by simp
  qed
qed

lemma dns_start_inv: "dns_inv (dns_start d r)" "dns_good (dns_start d r)"
  by (simp_all add: dns_inv_def dns_good_def dns_start_def new_mixed_proxy_def)

lemma dns_step_good: "dns_step w w' \<Longrightarrow> dns_good w \<Longrightarrow> dns_good w'"
proof (erule dns_stepE, goal_cases)
  case (1 g now host addrs p)
  then show ?case by (auto elim!: lookup_begin_cases simp: dns_good_def)
next
  case (2 g now host i p)
  then show ?case by (auto elim!: lookup_begin_cases simp: dns_good_def)
next
  case (3 g now host i p)
  then show ?case by (auto elim!: lookup_begin_cases simp: dns_good_def)
next
  case (4 g host i start answers)
  have "good_result (resolve_host answers host)" using resolve_from_good by (simp add: resolve_host_def)
  then show ?case using 4(1,2) by (auto simp: dns_good_def lookup_finish_def split: sum.splits if_splits)
next
  case (5 g host i r)
  then show ?case by (auto simp: dns_good_def)
next
  case (6 g host i e)
  then show ?case by (auto simp: dns_good_def)
next
  case (7 g host r)
  then show ?case by (auto simp: dns_good_def)
qed

lemma dns_invD:
  assumes "dns_inv w"
  shows "dw_phase w g = Leading h i t \<Longrightarrow> map_of (px_calls (dw_proxy w)) h = Some i \<and> i < px_next (dw_proxy w)"
    and "map_of (px_calls (dw_proxy w)) h = Some i \<Longrightarrow> \<exists>g t. dw_phase w g = Leading h i t"
    and "dw_phase w g = Leading h i t \<Longrightarrow> dw_phase w g' = Leading h' i t' \<Longrightarrow> g = g'"
    and "dw_phase w g = Waiting h i \<Longrightarrow>
      map_of (px_calls (dw_proxy w)) h = Some i \<or> map_of (px_done (dw_proxy w)) i \<noteq> None"
  using assms unfolding dns_inv_def by blast+

lemma dns_invI:
  assumes "\<And>g h i t. dw_phase w g = Leading h i t \<Longrightarrow> map_of (px_calls (dw_proxy w)) h = Some i \<and> i < px_next (dw_proxy w)"
    and "\<And>h i. map_of (px_calls (dw_proxy w)) h = Some i \<Longrightarrow> \<exists>g t. dw_phase w g = Leading h i t"
    and "\<And>g g' h h' i t t'. dw_phase w g = Leading h i t \<Longrightarrow> dw_phase w g' = Leading h' i t' \<Longrightarrow> g = g'"
    and "\<And>g h i. dw_phase w g = Waiting h i \<Longrightarrow>
      map_of (px_calls (dw_proxy w)) h = Some i \<or> map_of (px_done (dw_proxy w)) i \<noteq> None"
  shows "dns_inv w"
  using assms unfolding dns_inv_def by blast

text \<open>A goroutine that neither starts nor stops leading, and waits for a call in flight if it waits.\<close>

lemma dns_inv_passive:
  assumes inv: "dns_inv w" and no: "\<And>h i t. dw_phase w g \<noteq> Leading h i t" "\<And>h i t. ph \<noteq> Leading h i t"
    and wait: "\<And>h i. ph = Waiting h i \<Longrightarrow> map_of (px_calls (dw_proxy w)) h = Some i"
  shows "dns_inv (w\<lparr>dw_phase := (dw_phase w)(g := ph)\<rparr>)"
proof -
  have "\<exists>g' t. ((dw_phase w)(g := ph)) g' = Leading h i t" if "map_of (px_calls (dw_proxy w)) h = Some i" for h i
    using dns_invD(2) [OF inv that] no(1) by (metis fun_upd_other)
  then show ?thesis
    using dns_invD(1,3,4) [OF inv] no wait unfolding dns_inv_def by simp metis
qed

lemma dns_inv_lead:
  assumes inv: "dns_inv w" and idle: "dw_phase w g = Idle" and new: "map_of (px_calls (dw_proxy w)) host = None"
  defines "p \<equiv> dw_proxy w"
  shows "dns_inv (w\<lparr>dw_proxy := p\<lparr>px_calls := map_put host (px_next p) (px_calls p), px_next := px_next p + 1\<rparr>,
    dw_phase := (dw_phase w)(g := Leading host (px_next p) now)\<rparr>)"
proof -
  have kept: "\<exists>g' t. ((dw_phase w)(g := Leading host (px_next p) now)) g' = Leading h i t"
    if "((map_of (px_calls p))(host \<mapsto> px_next p)) h = Some i" for h i
  proof (cases "h = host")
    case True
    then show ?thesis using that by auto
  next
    case False
    then have "map_of (px_calls (dw_proxy w)) h = Some i" using that by (simp add: p_def)
    then obtain g' t where "dw_phase w g' = Leading h i t" using dns_invD(2) [OF inv] by blast
    then show ?thesis using idle by (metis dns_phase.distinct(1) fun_upd_other)
  qed
  have old: "h \<noteq> host \<and> map_of (px_calls p) h = Some i \<and> i < px_next p" if "dw_phase w g' = Leading h i t" for g' h i t
    using dns_invD(1) [OF inv that] new by (auto simp: p_def)
  show ?thesis
  proof (rule dns_invI, goal_cases)
    case (1 g' h i t)
    then show ?case using old by (fastforce simp: p_def split: if_splits)
  next
    case (2 h i)
    then show ?case using kept by (simp add: p_def)
  next
    case (3 g1 g2 h h' i t t')
    then show ?case using old dns_invD(3) [OF inv] by (auto split: if_splits)
  next
    case (4 g' h i)
    then have "dw_phase w g' = Waiting h i" by (simp split: if_splits)
    from dns_invD(4) [OF inv this] show ?case using new by (cases "h = host") (simp_all add: p_def)
  qed
qed

lemma dns_inv_finish:
  assumes inv: "dns_inv w" and ld: "dw_phase w g = Leading host i start"
  shows "dns_inv (w\<lparr>dw_proxy := lookup_finish start host i r (dw_proxy w), dw_phase := (dw_phase w)(g := Got host r)\<rparr>)"
proof -
  let ?p = "dw_proxy w"
  have reg: "map_of (px_calls ?p) host = Some i" using dns_invD(1) [OF inv ld] by simp
  have other: "h \<noteq> host" if "dw_phase w g' = Leading h j t" "g' \<noteq> g" for g' h j t
    using that dns_invD(1) [OF inv that(1)] dns_invD(3) [OF inv ld] reg by auto
  have kept: "\<exists>g' t. ((dw_phase w)(g := Got host r)) g' = Leading h j t"
    if "h \<noteq> host" "map_of (px_calls ?p) h = Some j" for h j
    using dns_invD(2) [OF inv that(2)] ld that(1) by (metis dns_phase.inject(1) fun_upd_other)
  have 4: "h \<noteq> host \<and> map_of (px_calls ?p) h = Some j \<or> j = i \<or> map_of (px_done ?p) j \<noteq> None"
    if "dw_phase w g' = Waiting h j" for g' h j
    using dns_invD(4) [OF inv that] reg by auto
  have waits: "map_of (map_del host (px_calls ?p)) h = Some j \<or> map_of (map_put i r (px_done ?p)) j \<noteq> None"
    if "((dw_phase w)(g := Got host r)) g' = Waiting h j" for g' h j
    using that 4 [of g' h j] by (auto split: if_splits)
  show ?thesis
  proof (rule dns_invI, goal_cases)
    case (1 g' h j t)
    then show ?case using other dns_invD(1) [OF inv] by (auto simp: lookup_finish_def split: if_splits)
  next
    case (2 h j)
    then have "h \<noteq> host" "map_of (px_calls ?p) h = Some j" by (auto simp: lookup_finish_def split: if_splits)
    then show ?case using kept by simp
  next
    case (3 g1 g2 h h' j t t')
    then show ?case using dns_invD(3) [OF inv] by (auto split: if_splits)
  next
    case (4 g' h j)
    then show ?case using waits by (simp add: lookup_finish_def)
  qed
qed

lemma dns_step_inv: "dns_step w w' \<Longrightarrow> dns_inv w \<Longrightarrow> dns_inv w'"
proof (erule dns_stepE, goal_cases)
  case (1 g now host addrs p)
  then have "p = dw_proxy w" by (auto elim!: lookup_begin_cases)
  then show ?case using 1 dns_inv_passive [of w g "Got host (Inr addrs)"] by simp
next
  case (2 g now host i p)
  then have "p = dw_proxy w" "map_of (px_calls (dw_proxy w)) host = Some i"
    by (auto elim!: lookup_begin_cases)
  then show ?case using 2 dns_inv_passive [of w g "Waiting host i"] by simp
next
  case (3 g now host i p)
  then have "i = px_next (dw_proxy w)" "map_of (px_calls (dw_proxy w)) host = None"
    "p = (dw_proxy w)\<lparr>px_calls := map_put host i (px_calls (dw_proxy w)), px_next := px_next (dw_proxy w) + 1\<rparr>"
    by (auto elim!: lookup_begin_cases)
  then show ?case using 3 dns_inv_lead [of w g host now] by simp
next
  case (4 g host i start answers)
  then show ?case using dns_inv_finish by simp
next
  case (5 g host i r)
  then show ?case using dns_inv_passive [of w g "Got host r"] by simp
next
  case (6 g host i e)
  then show ?case using dns_inv_passive [of w g "Got host (Inl e)"] by simp
next
  case (7 g host r)
  then show ?case using dns_inv_passive [of w g Idle] by simp
qed

interpretation lookups: step_invariant dns_step "\<lambda>w. dns_inv w \<and> dns_good w"
  by unfold_locales (auto intro: dns_step_inv dns_step_good)

lemma usable_ips_usable: "s \<in> set (usable_ips answer) \<Longrightarrow> \<exists>ip. s = show_ip ip \<and> \<not> is_benchmark_fake_ip ip"
  by (auto simp: usable_ips_def List.map_filter_def split: option.splits if_splits)

section \<open>Dialling\<close>

text \<open>A schedule in which every attempt ends at least the retry delay after the one before.\<close>

fun paced :: "instant \<Rightarrow> attempt list \<Rightarrow> bool" where
  "paced t [] = True"
| "paced t (at # ats) = (t \<le> at_end at \<and> paced (at_end at + dial_retry_delay) ats)"

lemma dial_loop_decides:
  assumes "paced t ats" and "ats \<noteq> []" and "deadline \<le> t + int (length ats) * dial_retry_delay"
  shows "\<exists>r. dial_loop deadline host port ats prev p = Some r"
  using assms
proof (induction ats arbitrary: t prev p)
  case Nil
  then show ?case by simp
next
  case (Cons at ats)
  obtain p1 r where once: "dial_once at host port (at_others at p) = (p1, r)" by fastforce
  show ?case
  proof (cases "\<exists>e. r = Inl e \<and> at_end at + dial_retry_delay < deadline \<and> is_retryable_dial_error e")
    case False
    then show ?thesis using once
      by (cases r) (auto simp: Let_def not_less dial_retry_delay_def)
  next
    case True
    then obtain e where e: "r = Inl e" "at_end at + dial_retry_delay < deadline" "is_retryable_dial_error e" by blast
    have t: "t \<le> at_end at" using Cons.prems(1) by simp
    have "int (length (at # ats)) * dial_retry_delay = dial_retry_delay + int (length ats) * dial_retry_delay"
      by (simp add: distrib_right)
    then have bound: "deadline \<le> (at_end at + dial_retry_delay) + int (length ats) * dial_retry_delay"
      using Cons.prems(3) t by linarith
    have "ats \<noteq> []" using bound e(2) by auto
    then have "\<exists>x. dial_loop deadline host port ats (Some e)
        (if host_was_live (at_end at) host p1 then kick_refresh p1 else p1) = Some x"
      using Cons.IH [OF _ _ bound] Cons.prems(1) by simp
    moreover have "\<not> deadline \<le> at_end at" "\<not> deadline \<le> at_end at + dial_retry_delay"
      using e(2) by (simp_all add: dial_retry_delay_def)
    ultimately show ?thesis using once e by (simp add: Let_def)
  qed
qed

lemma lookup_host_frame [state_frame]:
  "px_kick (fst (lookup_host at host p)) = px_kick p"
  "px_last_kick (fst (lookup_host at host p)) = px_last_kick p"
  "px_live (fst (lookup_host at host p)) = px_live p"
  by (auto simp: lookup_host_def lookup_begin_def lookup_finish_def Let_def
      split: option.splits lookup_start.splits if_splits)

lemma dial_once_frame [state_frame]:
  "px_kick (fst (dial_once at host port p)) = px_kick p"
  "px_last_kick (fst (dial_once at host port p)) = px_last_kick p"
  "px_live (fst (dial_once at host port p)) = px_live p"
  using lookup_host_frame [of at host p]
  by (auto simp: dial_once_def Let_def split: prod.splits sum.splits)

lemma mark_host_live_now: "host_was_live now host (mark_host_live now host p)"
proof -
  have "map_of (filter (\<lambda>(h, t). \<not> recent_dial_ttl < now - t) m) host = Some now" if "map_of m host = Some now" for m
    using that by (induction m) (auto simp: recent_dial_ttl_def split: if_splits)
  then show ?thesis by (simp add: host_was_live_def mark_host_live_def Let_def recent_dial_ttl_def)
qed

lemma record_recent_frame [state_frame]:
  "px_kick (record_recent_dial now a p) = px_kick p"
  "px_last_kick (record_recent_dial now a p) = px_last_kick p"
  by (simp_all add: record_recent_dial_def split: option.splits)

lemma dial_recorded_frame [state_frame]:
  "px_kick (dial_recorded now host port remote p) = px_kick p"
  "px_last_kick (dial_recorded now host port remote p) = px_last_kick p"
  by (simp_all add: dial_recorded_def mark_host_live_def Let_def record_recent_frame split: option.splits)

lemma dial_loop_result:
  assumes "dial_loop deadline host port ats prev p = Some (p', r)"
  shows "case r of
      Inr remote \<Rightarrow> \<exists>at \<in> set ats. host_was_live (at_end at) host p'
    | Inl e \<Rightarrow> prev = Some e \<or> (\<exists>at \<in> set ats. \<exists>q q'. dial_once at host port q = (q', Inl e))"
  using assms
proof (induction ats arbitrary: prev p)
  case Nil
  then show ?case by simp
next
  case (Cons at ats)
  obtain p1 r1 where once: "dial_once at host port (at_others at p) = (p1, r1)" by fastforce
  then have ex: "\<exists>q q'. dial_once at host port q = (q', r1)" by blast
  show ?case
  proof (cases r1)
    case (Inr remote)
    then show ?thesis using Cons.prems once mark_host_live_now by (auto simp: dial_recorded_def)
  next
    case (Inl e)
    show ?thesis
    proof (cases "deadline \<le> at_end at \<or> \<not> is_retryable_dial_error e \<or> deadline \<le> at_end at + dial_retry_delay")
      case True
      then show ?thesis using Cons.prems once Inl ex
        by (auto simp: Let_def split: if_splits option.splits) blast+
    next
      case False
      then have "dial_loop deadline host port ats (Some e)
          (if host_was_live (at_end at) host p1 then kick_refresh p1 else p1) = Some (p', r)"
        using Cons.prems once Inl by (simp add: Let_def)
      from Cons.IH [OF this] show ?thesis using once Inl by (auto split: sum.splits)
    qed
  qed
qed

lemma dial_loop_no_kick:
  assumes "dial_loop deadline host port ats prev p = Some (p', r)" and "\<forall>at \<in> set ats. \<forall>q. at_others at q = q"
    and "\<forall>at \<in> set ats. \<not> host_was_live (at_end at) host p"
  shows "px_kick p' = px_kick p \<and> px_last_kick p' = px_last_kick p"
  using assms
proof (induction ats arbitrary: prev p)
  case Nil
  then show ?case by simp
next
  case (Cons at ats)
  obtain p1 r1 where once: "dial_once at host port p = (p1, r1)" by fastforce
  then have f: "px_kick p1 = px_kick p" "px_last_kick p1 = px_last_kick p" "px_live p1 = px_live p"
    using dial_once_frame [of at host port p] by simp_all
  then have live: "host_was_live t host p1 = host_was_live t host p" for t by (simp add: host_was_live_def)
  have dead: "\<not> host_was_live (at_end at) host p" "at_others at p = p" using Cons.prems by simp_all
  show ?case
  proof (cases "\<exists>e. r1 = Inl e \<and> dial_loop deadline host port ats (Some e) p1 = Some (p', r)")
    case True
    then obtain e where "dial_loop deadline host port ats (Some e) p1 = Some (p', r)" by blast
    from Cons.IH [OF this] Cons.prems live f show ?thesis by simp
  next
    case False
    then show ?thesis using Cons.prems(1) once dead f live
      by (auto simp: Let_def dial_recorded_frame split: sum.splits if_splits)
  qed
qed

section \<open>Properties\<close>

text \<open>
  C24: however the requests, the refresher and the tunnel swaps interleave, the decisions to kick are
  made at strictly increasing generations, so each tunnel is reported dead at most once, and the
  refresher receives no more signals than that. The first tunnel, generation 0, is never reported:
  the counter of the last kick starts at the same number.
\<close>

theorem kick_once_per_generation:
  assumes "kick_step\<^sup>*\<^sup>* (kick_start d r) w"
  shows "sorted_wrt (>) (kw_decided w) \<and> kw_received w \<le> length (kw_decided w) \<and>
    length (kw_decided w) \<le> px_gen (kw_proxy w) \<and>
    (px_gen (kw_proxy w) = 0 \<longrightarrow> kick_refresh (kw_proxy w) = kw_proxy w)"
proof -
  have inv: "kick_inv w" by (rule kicks.steps_inv [OF assms kick_start_inv])
  have le: "\<forall>g \<in> set (kw_decided w). 0 < g \<and> g \<le> px_gen (kw_proxy w)"
    using inv by (cases "kw_decided w") (fastforce simp: kick_inv_def Let_def)+
  have "length (kw_decided w) \<le> px_gen (kw_proxy w)"
    using inv le by (intro sorted_gt_length) (simp_all add: kick_inv_def Let_def)
  then show ?thesis using inv
    by (auto simp: kick_inv_def Let_def kick_refresh_def kick_decide_def split: list.splits)
qed

theorem kick_once_per_generation_witness:
  "\<exists>w. kick_step\<^sup>*\<^sup>* (kick_start 1 None) w \<and> length (kw_decided w) = 1 \<and> px_gen (kw_proxy w) = 1 \<and>
     kw_received w \<le> length (kw_decided w)"
proof -
  let ?w0 = "kick_start 1 None"
  let ?w1 = "?w0\<lparr>kw_proxy := refresh_kick (kw_proxy ?w0)\<rparr>"
  let ?w2 = "?w1\<lparr>kw_proxy := set_tunnel 2 None (kw_proxy ?w1)\<rparr>"
  let ?p = "(kw_proxy ?w2)\<lparr>px_last_kick := 1\<rparr>"
  let ?w3 = "?w2\<lparr>kw_proxy := ?p, kw_pending := kw_pending ?w2 + 1, kw_decided := px_gen ?p # kw_decided ?w2\<rparr>"
  have "kick_decide (kw_proxy ?w2) = (True, ?p)"
    by (simp add: kick_decide_def kick_start_def new_mixed_proxy_def refresh_kick_def set_tunnel_def)
  then have "kick_step ?w2 ?w3" by (rule kick_step.decide)
  moreover have "kick_step ?w0 ?w1" by (rule kick_step.subscribe)
  moreover have "kick_step ?w1 ?w2" by (rule kick_step.swap)
  ultimately have r: "kick_step\<^sup>*\<^sup>* ?w0 ?w3" by (meson rtranclp.rtrancl_into_rtrancl rtranclp.rtrancl_refl)
  show ?thesis
    using kick_once_per_generation [OF r] r
    by (intro exI [of _ ?w3]) (simp add: kick_start_def new_mixed_proxy_def refresh_kick_def set_tunnel_def)
qed



text \<open>
  C30: at any moment, whatever the interleaving of lookups, a host has at most one lookup in flight;
  a request that joined one has a leader that will deliver it a result, or the result is there; and
  no address inside 198.18.0.0/15 (the fake addresses of a local proxy) is ever handed out.
\<close>

theorem dns_single_flight:
  assumes "dns_step\<^sup>*\<^sup>* (dns_start d r) w"
  shows "(dw_phase w g = Leading h i t \<longrightarrow> dw_phase w g' = Leading h i' t' \<longrightarrow> g = g') \<and>
    (dw_phase w g = Waiting h i \<longrightarrow>
       (\<exists>l t. dw_phase w l = Leading h i t) \<or> (\<exists>res. map_of (px_done (dw_proxy w)) i = Some res)) \<and>
    (dw_phase w g = Got h (Inr addrs) \<longrightarrow>
       addrs \<noteq> [] \<and> list_all (\<lambda>s. \<exists>ip. s = show_ip ip \<and> \<not> is_benchmark_fake_ip ip) addrs)"
proof -
  have inv: "dns_inv w" and good: "dns_good w" using lookups.steps_inv [OF assms] dns_start_inv by simp_all
  have "g = g'" if "dw_phase w g = Leading h i t" "dw_phase w g' = Leading h i' t'"
    using dns_invD(1) [OF inv that(1)] dns_invD(1) [OF inv that(2)] dns_invD(3) [OF inv that(1)] that(2) by simp
  moreover have "(\<exists>l t. dw_phase w l = Leading h i t) \<or> (\<exists>res. map_of (px_done (dw_proxy w)) i = Some res)"
    if "dw_phase w g = Waiting h i"
    using dns_invD(4) [OF inv that] dns_invD(2) [OF inv] by auto
  moreover have "addrs \<noteq> [] \<and> list_all (\<lambda>s. \<exists>ip. s = show_ip ip \<and> \<not> is_benchmark_fake_ip ip) addrs"
    if "dw_phase w g = Got h (Inr addrs)"
    using that good usable_ips_usable by (force simp: dns_good_def good_result_def list_all_iff)
  ultimately show ?thesis by blast
qed

definition demo_answer :: "nat \<Rightarrow> dial_err + string list" where
  "demo_answer k = (if k = 0 then Inr [''198.18.0.9''] else Inr [''10.1.2.3''])"

theorem dns_single_flight_witness:
  "\<exists>w. dns_step\<^sup>*\<^sup>* (dns_start 1 (Some 1)) w \<and> dw_phase w 0 = Got ''h'' (Inr [''10.1.2.3'']) \<and>
     list_all (\<lambda>s. \<exists>ip. s = show_ip ip \<and> \<not> is_benchmark_fake_ip ip) [''10.1.2.3'']"
proof -
  let ?w0 = "dns_start 1 (Some 1)"
  let ?p = "(dw_proxy ?w0)\<lparr>px_calls := map_put ''h'' 0 [], px_next := 1\<rparr>"
  let ?w1 = "?w0\<lparr>dw_proxy := ?p, dw_phase := (dw_phase ?w0)(0 := Leading ''h'' 0 7)\<rparr>"
  have r: "resolve_host demo_answer ''h'' = Inr [''10.1.2.3'']" by code_simp
  have "lookup_begin 7 ''h'' (dw_proxy ?w0) = (Lead 0, ?p)"
    by (simp add: lookup_begin_def dns_start_def new_mixed_proxy_def)
  then have s: "dns_step ?w0 ?w1" by (intro dns_step.lead) (simp_all add: dns_start_def)
  have "dw_phase ?w1 0 = Leading ''h'' 0 7" by simp
  from dns_step.finish [OF this, of _ demo_answer] r
  obtain w where "dns_step ?w1 w" "dw_phase w 0 = Got ''h'' (Inr [''10.1.2.3''])" by fastforce
  moreover from this s have reach: "dns_step\<^sup>*\<^sup>* ?w0 w" by (meson rtranclp.rtrancl_into_rtrancl rtranclp.rtrancl_refl)
  ultimately show ?thesis using dns_single_flight [OF reach, of 0 _ _ _ 0] by blast
qed


definition demo_attempt :: "nat \<Rightarrow> attempt" where
  "demo_attempt k = \<lparr>at_others = (\<lambda>q. q), at_start = int k * second, at_answers = demo_answer,
     at_joined = Inr [], at_connect = (\<lambda>d a. if k < 2
       then Inl \<lparr>de_deadline = True, de_dns_timeout = False, de_text = ''''\<rparr> else Inr (Some a)),
     at_end = int k * second\<rparr>"

lemma demo_paced: "paced (int k * second - 500 * millisecond) (map demo_attempt [k..<k + n])"
proof (induction n arbitrary: k)
  case 0
  then show ?case by simp
next
  case (Suc n)
  have t: "int k * second + dial_retry_delay = int (Suc k) * second - 500 * millisecond"
    by (simp add: dial_retry_delay_def)
  have l: "[k..<k + Suc n] = k # [Suc k..<Suc k + n]" using upt_conv_Cons [of k "k + Suc n"] by simp
  have e: "at_end (demo_attempt k) = int k * second" by (simp add: demo_attempt_def)
  show ?case unfolding l list.map paced.simps e t using Suc [of "Suc k"] by simp
qed


end
