(* ===== verification/Forward.thy ===== *)
theory Forward
  imports AssetCache ProxyState Socks5 Crypto
begin

text \<open>
  The HTTP side of the proxy (\<open>proxy_http.go\<close>): plain forward requests with replay and resumption on
  a fresh tunnel, the capture of immutable assets, CONNECT, and the credentials check.

  Requests and responses are the values that \<open>http.ReadRequest\<close> and \<open>http.ReadResponse\<close> parsed. The
  environment decides, for the \<open>n\<close>-th dial and the request sent on it, how far it gets and what the
  reads of the body return; a body that has nothing more to return has stalled until its deadline.
  It also decides which write to the client fails, and after how many bytes.
\<close>

section \<open>Headers and messages\<close>

type_synonym header = "(string, string list) gomap"

definition header_get :: "header \<Rightarrow> string \<Rightarrow> string" where
  "header_get h k = (case map_of h k of Some (v # _) \<Rightarrow> v | _ \<Rightarrow> [])"

definition header_set :: "string \<Rightarrow> string \<Rightarrow> header \<Rightarrow> header" where
  "header_set k v h = map_put k [v] h"

definition crlf :: string where "crlf = [CHR 0x0D, CHR 0x0A]"

text \<open>\<open>Header.Write\<close>: sorted keys, invalid names left out, line breaks in values turned into spaces and
  the ends trimmed.\<close>

definition token_char :: "char \<Rightarrow> bool" where
  "token_char c = (is_alnum c \<or> c \<in> set ''!#$%&*+-.^_`|~'' \<or> byte c = 39)"

definition header_value :: "string \<Rightarrow> string" where
  "header_value v =
     (let blank = (\<lambda>c. c = CHR '' '' \<or> byte c = 9);
          w = map (\<lambda>c. if byte c = 10 \<or> byte c = 13 then CHR '' '' else c) v
      in rev (dropWhile blank (rev (dropWhile blank w))))"

definition header_line :: "string \<Rightarrow> string \<Rightarrow> string" where
  "header_line k v = k @ '': '' @ header_value v @ crlf"

definition header_write :: "header \<Rightarrow> bytes" where
  "header_write h =
     concat (map (\<lambda>(k, vs). concat (map (header_line k) vs))
       (filter (\<lambda>(k, vs). k \<noteq> [] \<and> list_all token_char k) (sort_key fst h)))"

record response =
  rs_code :: nat
  rs_status :: string
  rs_header :: header
  rs_length :: int

text \<open>\<open>hr_body\<close> is \<open>None\<close> when reading the body of the client's request fails.\<close>

record http_request =
  hr_method :: string
  hr_host :: string
  hr_url :: url
  hr_header :: header
  hr_body :: "bytes option"

definition hop_by_hop :: "string list" where
  "hop_by_hop = [''Connection'', ''Keep-Alive'', ''Proxy-Authenticate'', ''Proxy-Connection'',
     ''Te'', ''Trailer'', ''Transfer-Encoding'', ''Upgrade'']"

definition end_to_end :: "header \<Rightarrow> header" where
  "end_to_end h = foldl (\<lambda>h k. map_del k h) h hop_by_hop"

text \<open>\<open>http.StatusText\<close>\<close>

definition status_text :: "nat \<Rightarrow> string" where
  "status_text n =
     (case map_of
        [(100, ''Continue''), (101, ''Switching Protocols''), (102, ''Processing''), (103, ''Early Hints''),
         (200, ''OK''), (201, ''Created''), (202, ''Accepted''), (203, ''Non-Authoritative Information''),
         (204, ''No Content''), (205, ''Reset Content''), (206, ''Partial Content''), (207, ''Multi-Status''),
         (208, ''Already Reported''), (226, ''IM Used''), (300, ''Multiple Choices''), (301, ''Moved Permanently''),
         (302, ''Found''), (303, ''See Other''), (304, ''Not Modified''), (305, ''Use Proxy''),
         (307, ''Temporary Redirect''), (308, ''Permanent Redirect''), (400, ''Bad Request''), (401, ''Unauthorized''),
         (402, ''Payment Required''), (403, ''Forbidden''), (404, ''Not Found''), (405, ''Method Not Allowed''),
         (406, ''Not Acceptable''), (407, ''Proxy Authentication Required''), (408, ''Request Timeout''),
         (409, ''Conflict''), (410, ''Gone''), (411, ''Length Required''), (412, ''Precondition Failed''),
         (413, ''Request Entity Too Large''), (414, ''Request URI Too Long''), (415, ''Unsupported Media Type''),
         (416, ''Requested Range Not Satisfiable''), (417, ''Expectation Failed''), (418, ''I'' @ [chr 39] @ ''m a teapot''),
         (421, ''Misdirected Request''), (422, ''Unprocessable Entity''), (423, ''Locked''), (424, ''Failed Dependency''),
         (425, ''Too Early''), (426, ''Upgrade Required''), (428, ''Precondition Required''), (429, ''Too Many Requests''),
         (431, ''Request Header Fields Too Large''), (451, ''Unavailable For Legal Reasons''),
         (500, ''Internal Server Error''), (501, ''Not Implemented''), (502, ''Bad Gateway''),
         (503, ''Service Unavailable''), (504, ''Gateway Timeout''), (505, ''HTTP Version Not Supported''),
         (506, ''Variant Also Negotiates''), (507, ''Insufficient Storage''), (508, ''Loop Detected''),
         (510, ''Not Extended''), (511, ''Network Authentication Required'')] n of
        None \<Rightarrow> [] | Some s \<Rightarrow> s)"

section \<open>Environment and state\<close>

datatype read_err = REof | RUnexpectedEof | RTimeout | ROther

type_synonym reads = "(bytes \<times> read_err option) list"

datatype up_try = DialFails dial_err | WriteFails | HeaderFails | Responds response reads

text \<open>\<open>fe_try\<close>: the \<open>n\<close>-th dial, to a host and port, with the request written on it. \<open>fe_write\<close>: the outcome of the
  \<open>n\<close>-th write to the client, \<open>Some k\<close> an error after \<open>k\<close> bytes. \<open>fe_dialled\<close> and \<open>fe_waited\<close>:
  what became of the tunnel state during the \<open>n\<close>-th dial and the wait after it. \<open>fe_clock\<close>: the time
  then. \<open>fe_pick\<close>: the first key of an iteration over the partial assets.\<close>

record fwd_env =
  fe_try :: "nat \<Rightarrow> string \<times> string \<Rightarrow> http_request \<Rightarrow> up_try"
  fe_write :: "nat \<Rightarrow> nat option"
  fe_dialled :: "nat \<Rightarrow> proxy \<Rightarrow> proxy"
  fe_waited :: "nat \<Rightarrow> proxy \<Rightarrow> proxy"
  fe_clock :: "nat \<Rightarrow> instant"
  fe_pick :: chooser

record fwd_world =
  fw_out :: bytes
  fw_writes :: nat
  fw_cache :: asset_cache
  fw_proxy :: proxy
  fw_tries :: nat
  fw_sent :: "http_request list"

record forward_state =
  fs_header_sent :: bool
  fs_relayed :: int
  fs_total :: int
  fs_close_after :: bool
  fs_pending :: bytes
  fs_cache_key :: string
  fs_header :: bytes
  fs_buf :: bytes

datatype outcome = FwdDone | FwdRetry | FwdAbort | FwdBlocked

definition write_client :: "fwd_env \<Rightarrow> bytes \<Rightarrow> fwd_world \<Rightarrow> bool \<times> fwd_world" where
  "write_client env b w =
     (case fe_write env (fw_writes w) of
        None \<Rightarrow> (True, w\<lparr>fw_out := fw_out w @ b, fw_writes := fw_writes w + 1\<rparr>)
      | Some k \<Rightarrow> (False, w\<lparr>fw_out := fw_out w @ take k b, fw_writes := fw_writes w + 1\<rparr>))"

definition bad_gateway :: bytes where
  "bad_gateway = ''HTTP/1.1 502 Bad Gateway'' @ crlf @ ''Content-Length: 0'' @ crlf @ crlf"

definition bad_request :: bytes where
  "bad_request = ''HTTP/1.1 400 Bad Request'' @ crlf @ ''Content-Length: 0'' @ crlf @ crlf"

definition forward_resume_attempts :: nat where "forward_resume_attempts = 8"
definition forward_max_attempts :: nat where "forward_max_attempts = 64"
definition forward_buffered_max :: int where "forward_buffered_max = 8388608"

definition hostname_only :: "string \<Rightarrow> string" where
  "hostname_only hp = (case split_host_port hp of Some (h, _) \<Rightarrow> h | None \<Rightarrow> hp)"

definition split_host_port_default :: "string \<Rightarrow> string \<Rightarrow> string \<times> string" where
  "split_host_port_default hp dflt =
     (case split_host_port hp of
        Some (h, p) \<Rightarrow> (h, p)
      | None \<Rightarrow>
          if hp = [] then ([], [])
          else case parse_ip hp of Some ip \<Rightarrow> (show_ip ip, dflt) | None \<Rightarrow> (hp, dflt))"

section \<open>Committing to the cache\<close>

definition normalize_cached_header :: "bytes \<Rightarrow> nat \<Rightarrow> bytes" where
  "normalize_cached_header header n =
     concat (map (\<lambda>l. l @ crlf)
       (filter (\<lambda>l. \<not> list_ex (has_prefix (to_lower l))
            [''connection:'', ''content-length:'', ''keep-alive:'', ''proxy-connection:'', ''transfer-encoding:''])
         (split_str (trim_suffix header (crlf @ crlf)) crlf))) @
     ''Content-Length: '' @ itoa n @ crlf @ ''Connection: keep-alive'' @ crlf @ crlf"

definition commit_asset_cache :: "forward_state \<Rightarrow> fwd_world \<Rightarrow> forward_state \<times> fwd_world" where
  "commit_asset_cache st w =
     (if fs_cache_key st = [] \<or> fs_header st = [] then (st, w)
      else
        (st\<lparr>fs_cache_key := [], fs_buf := []\<rparr>,
         w\<lparr>fw_cache := cache_put (fs_cache_key st)
             \<lparr>cr_header = normalize_cached_header (fs_header st) (length (fs_buf st)),
              cr_body = fs_buf st, cr_close = False\<rparr> (fw_cache w)\<rparr>))"

definition save_partial :: "fwd_env \<Rightarrow> forward_state \<Rightarrow> fwd_world \<Rightarrow> fwd_world" where
  "save_partial env st w =
     (if fs_cache_key st = [] \<or> fs_header st = [] \<or> fs_buf st = [] then w
      else w\<lparr>fw_cache := put_partial (pick_of (fe_pick env)) (fs_cache_key st)
             \<lparr>pa_header = fs_header st, pa_body = fs_buf st, pa_total = fs_total st, pa_close = fs_close_after st\<rparr>
             (fw_cache w)\<rparr>)"

section \<open>Relaying a response\<close>

definition forward_header :: "response \<Rightarrow> bool \<Rightarrow> bytes" where
  "forward_header resp closing =
     (let h = end_to_end (rs_header resp);
          h1 = (if closing then header_set ''Connection'' ''close'' h
                else
                  let h2 = header_set ''Connection'' ''keep-alive'' h
                  in if 0 \<le> rs_length resp then header_set ''Content-Length'' (itoa_int (rs_length resp)) h2 else h2)
      in ''HTTP/1.1 '' @ rs_status resp @ crlf @ header_write h1 @ crlf)"

definition drop_skip :: "int \<Rightarrow> bytes \<Rightarrow> bytes \<times> int" where
  "drop_skip skip chunk =
     (if 0 < skip then
        let d = min skip (int (length chunk)) in (drop (nat d) chunk, skip - d)
      else (chunk, skip))"

text \<open>One read of \<open>relayForwardBody\<close>: the write of its bytes; \<open>None\<close> when it fails.\<close>

definition relay_chunk :: "fwd_env \<Rightarrow> bytes \<Rightarrow> forward_state \<Rightarrow> fwd_world \<Rightarrow> forward_state option \<times> fwd_world" where
  "relay_chunk env chunk st w =
     (if chunk = [] then (Some st, w)
      else case write_client env chunk w of
        (False, w') \<Rightarrow> (None, w')
      | (True, w') \<Rightarrow>
          let st1 = st\<lparr>fs_relayed := fs_relayed st + int (length chunk)\<rparr>
          in (Some (if fs_cache_key st1 = [] then st1
                    else if asset_cache_max_object < int (length (fs_buf st1)) + int (length chunk)
                    then st1\<lparr>fs_cache_key := [], fs_buf := []\<rparr>
                    else st1\<lparr>fs_buf := fs_buf st1 @ chunk\<rparr>), w'))"

text \<open>The end of a read: \<open>None\<close> to read on.\<close>

definition read_ends :: "read_err option \<Rightarrow> bool \<Rightarrow> outcome option" where
  "read_ends e complete =
     (case e of
        None \<Rightarrow> None
      | Some RUnexpectedEof \<Rightarrow> Some FwdRetry
      | Some REof \<Rightarrow> Some (if complete then FwdDone else FwdRetry)
      | Some RTimeout \<Rightarrow> Some FwdRetry
      | Some ROther \<Rightarrow> Some FwdAbort)"

fun relay_forward_body ::
  "fwd_env \<Rightarrow> reads \<Rightarrow> forward_state \<Rightarrow> int \<Rightarrow> fwd_world \<Rightarrow> outcome \<times> forward_state \<times> fwd_world" where
  "relay_forward_body env [] st skip w =
     (if 0 \<le> fs_total st \<and> fs_total st \<le> fs_relayed st
      then (FwdDone, commit_asset_cache st w) else (FwdRetry, st, w))"
| "relay_forward_body env ((b, e) # rs) st skip w =
     (if 0 \<le> fs_total st \<and> fs_total st \<le> fs_relayed st
      then (FwdDone, commit_asset_cache st w)
      else case drop_skip skip b of
        (chunk, skip') \<Rightarrow>
          (case relay_chunk env chunk st w of
             (None, w') \<Rightarrow> (FwdAbort, st, w')
           | (Some st', w') \<Rightarrow>
               (case read_ends e (fs_total st' < 0 \<or> fs_total st' \<le> fs_relayed st') of
                  None \<Rightarrow> relay_forward_body env rs st' skip' w'
                | Some FwdDone \<Rightarrow> (FwdDone, commit_asset_cache st' w')
                | Some r \<Rightarrow> (r, st', w'))))"

section \<open>Bodies of unknown length\<close>

definition buffered_header :: "response \<Rightarrow> nat \<Rightarrow> bytes" where
  "buffered_header resp n =
     (let status = (if rs_code resp = 206 then 200 else rs_code resp);
          h = header_set ''Connection'' ''keep-alive''
                (header_set ''Content-Length'' (itoa n) (map_del ''Content-Range'' (end_to_end (rs_header resp))))
      in ''HTTP/1.1 '' @ itoa status @ '' '' @ status_text status @ crlf @ header_write h @ crlf)"

definition finish_buffered ::
  "fwd_env \<Rightarrow> response \<Rightarrow> forward_state \<Rightarrow> fwd_world \<Rightarrow> outcome \<times> forward_state \<times> fwd_world" where
  "finish_buffered env resp st w =
     (let body = (if 0 \<le> fs_total st \<and> fs_total st < int (length (fs_pending st))
                  then take (nat (fs_total st)) (fs_pending st) else fs_pending st);
          status = (if rs_code resp = 206 then 200 else rs_code resp);
          hdr = buffered_header resp (length body)
      in case write_client env hdr w of
           (False, w1) \<Rightarrow> (FwdAbort, st, w1)
         | (True, w1) \<Rightarrow>
             (case write_client env body w1 of
                (False, w2) \<Rightarrow> (FwdAbort, st, w2)
              | (True, w2) \<Rightarrow>
                  let st1 = st\<lparr>fs_header_sent := True, fs_relayed := int (length body),
                              fs_total := int (length body), fs_close_after := False, fs_pending := []\<rparr>
                  in (FwdDone,
                      if fs_cache_key st1 \<noteq> [] \<and> status = 200 \<and> int (length body) \<le> asset_cache_max_object
                      then commit_asset_cache (st1\<lparr>fs_header := hdr, fs_buf := body\<rparr>) w2
                      else (st1\<lparr>fs_cache_key := []\<rparr>, w2))))"

text \<open>\<open>io.Copy\<close> of the rest of the body, without a read deadline: a body that stalls blocks.\<close>

fun copy_rest :: "fwd_env \<Rightarrow> reads \<Rightarrow> fwd_world \<Rightarrow> outcome \<times> fwd_world" where
  "copy_rest env [] w = (FwdBlocked, w)"
| "copy_rest env ((b, e) # rs) w =
     (case (if b = [] then (True, w) else write_client env b w) of
        (False, w') \<Rightarrow> (FwdAbort, w')
      | (True, w') \<Rightarrow>
          (case e of
             None \<Rightarrow> copy_rest env rs w'
           | Some REof \<Rightarrow> (FwdDone, w')
           | Some _ \<Rightarrow> (FwdAbort, w')))"

definition stream_overflow_buffered ::
  "fwd_env \<Rightarrow> response \<Rightarrow> bytes \<Rightarrow> reads \<Rightarrow> forward_state \<Rightarrow> fwd_world \<Rightarrow> outcome \<times> forward_state \<times> fwd_world" where
  "stream_overflow_buffered env resp chunk rs st0 w =
     (let st = st0\<lparr>fs_close_after := True, fs_cache_key := []\<rparr> in
      case write_client env (forward_header resp True) w of
        (False, w1) \<Rightarrow> (FwdAbort, st, w1)
      | (True, w1) \<Rightarrow>
          let st1 = st\<lparr>fs_header_sent := True\<rparr> in
          (case write_client env (fs_pending st1) w1 of
             (False, w2) \<Rightarrow> (FwdAbort, st1, w2)
           | (True, w2) \<Rightarrow>
               (case write_client env chunk w2 of
                  (False, w3) \<Rightarrow> (FwdAbort, st1, w3)
                | (True, w3) \<Rightarrow>
                    let st2 = st1\<lparr>fs_relayed := int (length (fs_pending st1)) + int (length chunk),
                                  fs_pending := [], fs_total := -1\<rparr>
                    in (case copy_rest env rs w3 of (r, w4) \<Rightarrow> (r, st2, w4)))))"

fun forward_buffered ::
  "fwd_env \<Rightarrow> response \<Rightarrow> reads \<Rightarrow> forward_state \<Rightarrow> int \<Rightarrow> fwd_world \<Rightarrow> outcome \<times> forward_state \<times> fwd_world" where
  "forward_buffered env resp [] st skip w =
     (if 0 \<le> fs_total st \<and> fs_total st \<le> int (length (fs_pending st))
      then finish_buffered env resp st w else (FwdRetry, st, w))"
| "forward_buffered env resp ((b, e) # rs) st skip w =
     (if 0 \<le> fs_total st \<and> fs_total st \<le> int (length (fs_pending st))
      then finish_buffered env resp st w
      else case drop_skip skip b of
        (chunk, skip') \<Rightarrow>
          if chunk \<noteq> [] \<and> forward_buffered_max < int (length (fs_pending st)) + int (length chunk)
          then stream_overflow_buffered env resp chunk (if e = None then rs else ([], e) # rs) st w
          else
            let st' = st\<lparr>fs_pending := fs_pending st @ chunk\<rparr> in
            (case read_ends e (fs_total st' < 0 \<or> fs_total st' \<le> int (length (fs_pending st'))) of
               None \<Rightarrow> forward_buffered env resp rs st' skip' w
             | Some FwdDone \<Rightarrow> finish_buffered env resp st' w
             | Some r \<Rightarrow> (r, st', w)))"

section \<open>One attempt\<close>

text \<open>\<open>Content-Range\<close> of a resumed response: the offset it must start at, and the complete length.\<close>

definition range_ok :: "response \<Rightarrow> int \<Rightarrow> bool" where
  "range_ok resp offset =
     has_prefix (header_get (rs_header resp) ''Content-Range'') (''bytes '' @ itoa_int offset @ ''-'')"

definition range_total :: "response \<Rightarrow> int option" where
  "range_total resp =
     (let cr = header_get (rs_header resp) ''Content-Range'' in
      case last_index_byte (CHR ''/'') cr of None \<Rightarrow> None | Some i \<Rightarrow> atoi (drop (i + 1) cr))"

definition no_body_status :: "nat \<Rightarrow> bool" where
  "no_body_status n = (n = 204 \<or> n = 304 \<or> n < 200)"

definition outgoing :: "http_request \<Rightarrow> forward_state \<Rightarrow> http_request" where
  "outgoing req st =
     (if fs_header_sent st \<and> 0 < fs_relayed st
      then req\<lparr>hr_header := header_set ''Range'' (''bytes='' @ itoa_int (fs_relayed st) @ ''-'') (hr_header req)\<rparr>
      else if \<not> fs_header_sent st \<and> fs_pending st \<noteq> []
      then req\<lparr>hr_header := header_set ''Range'' (''bytes='' @ itoa (length (fs_pending st)) @ ''-'') (hr_header req)\<rparr>
      else req)"

text \<open>The response is in: what to skip of its body, or \<open>None\<close> when it cannot be spliced.\<close>

definition splice :: "response \<Rightarrow> forward_state \<Rightarrow> (int \<times> forward_state) option" where
  "splice resp st =
     (let resuming = (fs_header_sent st \<and> 0 < fs_relayed st);
          buffering = (\<not> fs_header_sent st \<and> fs_pending st \<noteq> []);
          offset = (if buffering then int (length (fs_pending st)) else fs_relayed st)
      in if \<not> resuming \<and> \<not> buffering then Some (0, st)
         else if rs_code resp = 206 then
           (if \<not> range_ok resp offset then None
            else Some (0, if fs_total st < 0 then
                            (case range_total resp of None \<Rightarrow> st | Some n \<Rightarrow> st\<lparr>fs_total := n\<rparr>) else st))
         else if rs_code resp = 200 then Some (offset, st)
         else None)"

definition relay_response ::
  "fwd_env \<Rightarrow> http_request \<Rightarrow> response \<Rightarrow> reads \<Rightarrow> int \<Rightarrow> forward_state \<Rightarrow> fwd_world \<Rightarrow>
     outcome \<times> forward_state \<times> fwd_world" where
  "relay_response env req resp rs skip st w =
     (if fs_header_sent st then relay_forward_body env rs st skip w
      else
        let buffering = (fs_pending st \<noteq> []);
            st1 = (if buffering then st
                   else st\<lparr>fs_total := (if hr_method req = ''HEAD'' \<or> no_body_status (rs_code resp) then 0
                                         else rs_length resp)\<rparr>)
        in if fs_total st1 < 0 \<or> buffering then forward_buffered env resp rs st1 skip w
           else
             let st2 = st1\<lparr>fs_close_after := False\<rparr>;
                 hdr = forward_header resp False
             in case write_client env hdr w of
                  (False, w1) \<Rightarrow> (FwdAbort, st2, w1)
                | (True, w1) \<Rightarrow>
                    let st3 = st2\<lparr>fs_header_sent := True\<rparr>;
                        st4 = (if fs_cache_key st3 = [] then st3
                               else if rs_code resp = 200 \<and> fs_total st3 \<le> asset_cache_max_object
                               then st3\<lparr>fs_header := hdr\<rparr> else st3\<lparr>fs_cache_key := []\<rparr>)
                    in relay_forward_body env rs st4 skip w1)"

definition forward_once ::
  "fwd_env \<Rightarrow> http_request \<Rightarrow> string \<Rightarrow> string \<Rightarrow> forward_state \<Rightarrow> fwd_world \<Rightarrow>
     outcome \<times> forward_state \<times> fwd_world" where
  "forward_once env req host port st w0 =
     (let n = fw_tries w0;
          out = outgoing req st;
          w = w0\<lparr>fw_tries := n + 1, fw_proxy := fe_dialled env n (fw_proxy w0)\<rparr>
      in case fe_try env n (hostname_only host, port) out of
           DialFails e \<Rightarrow>
             if \<not> fs_header_sent st \<and> is_retryable_dial_error e then (FwdRetry, st, w)
             else (FwdAbort, st, if fs_header_sent st then w else snd (write_client env bad_gateway w))
         | WriteFails \<Rightarrow> (FwdRetry, st, w)
         | HeaderFails \<Rightarrow> (FwdRetry, st, w\<lparr>fw_sent := fw_sent w @ [out]\<rparr>)
         | Responds resp rs \<Rightarrow>
             let w1 = w\<lparr>fw_sent := fw_sent w @ [out]\<rparr> in
             (case splice resp st of
                None \<Rightarrow> (FwdAbort, st, w1)
              | Some (skip, st1) \<Rightarrow> relay_response env req resp rs skip st1 w1))"

section \<open>One request\<close>

text \<open>\<open>URL.Port\<close>\<close>

definition url_port :: "url \<Rightarrow> string" where
  "url_port u =
     (case last_index_byte (CHR '':'') (u_host u) of
        None \<Rightarrow> []
      | Some i \<Rightarrow> if valid_optional_port (drop i (u_host u)) then drop (i + 1) (u_host u) else [])"

definition can_retry :: "http_request \<Rightarrow> bool" where
  "can_retry req = ((hr_method req = ''GET'' \<or> hr_method req = ''HEAD'') \<and> header_get (hr_header req) ''Range'' = [])"

definition give_up :: "fwd_env \<Rightarrow> forward_state \<Rightarrow> fwd_world \<Rightarrow> fwd_world" where
  "give_up env st w = (if fs_header_sent st then w else snd (write_client env bad_gateway w))"

definition progress :: "forward_state \<Rightarrow> int" where
  "progress st = fs_relayed st + int (length (fs_pending st))"

text \<open>What happens between two attempts: a kick when the destination is known to work, and the wait
  for the next tunnel.\<close>

definition after_stall :: "fwd_env \<Rightarrow> string \<Rightarrow> forward_state \<Rightarrow> fwd_world \<Rightarrow> fwd_world" where
  "after_stall env host st w =
     (let n = fw_tries w;
          p = (if 0 < progress st \<or> host_was_live (fe_clock env n) (hostname_only host) (fw_proxy w)
               then kick_refresh (fw_proxy w) else fw_proxy w)
      in w\<lparr>fw_proxy := fe_waited env n p\<rparr>)"

text \<open>The loop, with the attempts left and the consecutive attempts without progress. The result is
  whether the connection can serve another request, \<open>None\<close> when the handler blocks.\<close>

fun forward_loop ::
  "fwd_env \<Rightarrow> http_request \<Rightarrow> string \<Rightarrow> string \<Rightarrow> bool \<Rightarrow> nat \<Rightarrow> nat \<Rightarrow> forward_state \<Rightarrow>
     fwd_world \<Rightarrow> bool option \<times> fwd_world" where
  "forward_loop env req host port retry 0 zero st w = (Some False, save_partial env st (give_up env st w))"
| "forward_loop env req host port retry (Suc n) zero st w =
     (case forward_once env req host port st w of
        (FwdDone, st', w') \<Rightarrow> (Some (\<not> fs_close_after st'), w')
      | (FwdAbort, st', w') \<Rightarrow> (Some False, save_partial env st' w')
      | (FwdBlocked, st', w') \<Rightarrow> (None, w')
      | (FwdRetry, st', w') \<Rightarrow>
          if \<not> retry then (Some False, give_up env st' w')
          else
            let zero' = (if progress st < progress st' then 0 else zero + 1)
            in if forward_resume_attempts \<le> zero'
               then (Some False, save_partial env st' (give_up env st' w'))
               else forward_loop env req host port retry n zero' st' (after_stall env host st' w'))"

definition new_forward_state :: "string \<Rightarrow> forward_state" where
  "new_forward_state key = \<lparr>fs_header_sent = False, fs_relayed = 0, fs_total = -1, fs_close_after = False,
     fs_pending = [], fs_cache_key = key, fs_header = [], fs_buf = []\<rparr>"

definition resume_state :: "string \<Rightarrow> partial_asset \<Rightarrow> forward_state" where
  "resume_state key pa = (new_forward_state key)\<lparr>fs_header_sent := True, fs_header := pa_header pa,
     fs_buf := pa_body pa, fs_relayed := int (length (pa_body pa)), fs_total := pa_total pa,
     fs_close_after := pa_close pa\<rparr>"

definition write_both :: "fwd_env \<Rightarrow> bytes \<Rightarrow> bytes \<Rightarrow> fwd_world \<Rightarrow> bool \<times> fwd_world" where
  "write_both env a b w =
     (case write_client env a w of (False, w1) \<Rightarrow> (False, w1) | (True, w1) \<Rightarrow> write_client env b w1)"

text \<open>The request as it will be sent.\<close>

definition prepared :: "http_request \<Rightarrow> string \<Rightarrow> bytes \<Rightarrow> http_request" where
  "prepared req host body =
     (let u = hr_url req;
          u1 = (if u_scheme u = [] then u\<lparr>u_scheme := ''http''\<rparr> else u);
          u2 = (if u_host u1 = [] then u1\<lparr>u_host := host\<rparr> else u1)
      in req\<lparr>hr_url := u2, hr_header := map_del ''Proxy-Connection'' (map_del ''Proxy-Authorization'' (hr_header req)),
             hr_body := Some body\<rparr>)"

definition body_limit :: nat where "body_limit = 8388608"

definition asset_key :: "http_request \<Rightarrow> string \<Rightarrow> string" where
  "asset_key req host =
     (if hr_method req = ''GET'' \<and> can_retry req \<and> is_immutable_asset_path (u_path (hr_url req))
      then host @ u_path (hr_url req) else [])"

definition serve_request :: "fwd_env \<Rightarrow> http_request \<Rightarrow> string \<Rightarrow> string \<Rightarrow> fwd_world \<Rightarrow> bool option \<times> fwd_world" where
  "serve_request env req host port w0 =
     (let key = asset_key req host;
          start = (\<lambda>st w. forward_loop env req host port (can_retry req) forward_max_attempts 0 st w)
      in if key = [] then start (new_forward_state key) w0
         else case cache_get key (fw_cache w0) of
           (Some r, c) \<Rightarrow>
             (case write_both env (cr_header r) (cr_body r) (w0\<lparr>fw_cache := c\<rparr>) of
                (False, w1) \<Rightarrow> (Some False, w1)
              | (True, w1) \<Rightarrow> (Some (\<not> cr_close r), w1))
         | (None, c) \<Rightarrow>
             let w = w0\<lparr>fw_cache := c\<rparr> in
             (case get_partial key c of
                None \<Rightarrow> start (new_forward_state key) w
              | Some pa \<Rightarrow>
                  (case write_both env (pa_header pa) (pa_body pa) w of
                     (False, w1) \<Rightarrow> (Some False, w1)
                   | (True, w1) \<Rightarrow> start (resume_state key pa) w1)))"

text \<open>\<open>forwardRaw\<close>: a raw pipe on one connection; \<open>evs\<close> is what passes on it.\<close>

definition forward_raw ::
  "fwd_env \<Rightarrow> http_request \<Rightarrow> string \<Rightarrow> string \<Rightarrow> relay_event list \<Rightarrow> fwd_world \<Rightarrow> fwd_world" where
  "forward_raw env req host port evs w0 =
     (let n = fw_tries w0;
          w = w0\<lparr>fw_tries := n + 1, fw_proxy := fe_dialled env n (fw_proxy w0)\<rparr>
      in case fe_try env n (hostname_only host, port) req of
           DialFails _ \<Rightarrow> snd (write_client env bad_gateway w)
         | WriteFails \<Rightarrow> w
         | _ \<Rightarrow> w\<lparr>fw_sent := fw_sent w @ [req], fw_out := fw_out w @ snd (relay evs)\<rparr>)"

definition handle_forward ::
  "fwd_env \<Rightarrow> http_request \<Rightarrow> relay_event list \<Rightarrow> fwd_world \<Rightarrow> bool option \<times> fwd_world" where
  "handle_forward env req evs w =
     (let host = (if hr_host req = [] then u_host (hr_url req) else hr_host req);
          port = (if url_port (hr_url req) = [] then ''80'' else url_port (hr_url req))
      in if host = [] then (Some False, snd (write_client env bad_request w))
      else case hr_body req of
        None \<Rightarrow> (Some False, w)
      | Some b \<Rightarrow>
          let req' = prepared req host (take body_limit b) in
          if header_get (hr_header req') ''Upgrade'' \<noteq> [] then (Some False, forward_raw env req' host port evs w)
          else serve_request env req' host port w)"

section \<open>A connection\<close>

definition check_http_auth :: "proxy_auth \<Rightarrow> http_request \<Rightarrow> bool" where
  "check_http_auth a req =
     (let h = header_get (hr_header req) ''Proxy-Authorization'' in
      if \<not> has_prefix h ''Basic '' then False
      else case b64_decode (trim_prefix h ''Basic '') of
        None \<Rightarrow> False
      | Some raw \<Rightarrow>
          (case cut_byte (CHR '':'') raw of (user, pass, ok) \<Rightarrow> ok \<and> user = au_user a \<and> pass = au_pass a))"

definition auth_required :: bytes where
  "auth_required = ''HTTP/1.1 407 Proxy Authentication Required'' @ crlf @
     ''Proxy-Authenticate: Basic realm='' @ [chr 34] @ ''corplink'' @ [chr 34] @ crlf @
     ''Content-Length: 0'' @ crlf @ crlf"

definition established :: bytes where
  "established = ''HTTP/1.1 200 Connection Established'' @ crlf @ crlf"

text \<open>The requests that arrive one after the other on a kept-alive connection, each with what passes
  on it if it becomes a raw pipe.\<close>

type_synonym arrival = "http_request \<times> relay_event list"

fun inner_requests :: "fwd_env \<Rightarrow> string \<Rightarrow> arrival list \<Rightarrow> fwd_world \<Rightarrow> fwd_world" where
  "inner_requests env chost [] w = w"
| "inner_requests env chost ((req, evs) # rest) w =
     (case handle_forward env (if hr_host req = [] then req\<lparr>hr_host := chost\<rparr> else req) evs w of
        (Some True, w') \<Rightarrow> inner_requests env chost rest w'
      | (_, w') \<Rightarrow> w')"

definition handle_connect ::
  "fwd_env \<Rightarrow> http_request \<Rightarrow> relay_event list \<Rightarrow> arrival list \<Rightarrow> fwd_world \<Rightarrow> fwd_world" where
  "handle_connect env req evs rest w0 =
     (case split_host_port_default (hr_host req) ''443'' of
        (host, port) \<Rightarrow>
          if host = [] then snd (write_client env bad_request w0)
          else if port = ''80'' then
            (case write_client env established w0 of
               (False, w1) \<Rightarrow> w1 | (True, w1) \<Rightarrow> inner_requests env (hr_host req) rest w1)
          else
            let n = fw_tries w0;
                w = w0\<lparr>fw_tries := n + 1, fw_proxy := fe_dialled env n (fw_proxy w0)\<rparr>
            in case fe_try env n (host, port) req of
                 DialFails _ \<Rightarrow> snd (write_client env bad_gateway w)
               | _ \<Rightarrow>
                   (case write_client env established w of
                      (False, w1) \<Rightarrow> w1
                    | (True, w1) \<Rightarrow> w1\<lparr>fw_out := fw_out w1 @ snd (relay evs)\<rparr>))"

fun handle_http :: "fwd_env \<Rightarrow> proxy_auth option \<Rightarrow> arrival list \<Rightarrow> fwd_world \<Rightarrow> fwd_world" where
  "handle_http env auth [] w = w"
| "handle_http env auth ((req, evs) # rest) w =
     (if required auth \<and> \<not> check_http_auth (the auth) req
      then snd (write_client env auth_required w)
      else if hr_method req = ''CONNECT'' then handle_connect env req evs rest w
      else case handle_forward env req evs w of
        (Some True, w') \<Rightarrow> handle_http env auth rest w'
      | (_, w') \<Rightarrow> w')"

end
