(* ===== verification/Seamless.thy ===== *)
theory Seamless
  imports Forward
begin

text \<open>
  What the forward proxy promises: for an origin whose entity is byte-stable, the client receives that
  entity once, whole when the request is reported as served, however often the tunnel broke in
  between; and the cache holds nothing else. The file also has the credentials gate of the HTTP side
  and the bounds on the attempts.
\<close>

section \<open>Framing\<close>

definition ends_crlf :: "bytes \<Rightarrow> bool" where
  "ends_crlf s = (s = [] \<or> has_suffix s crlf)"

definition has_line :: "bytes \<Rightarrow> string \<Rightarrow> bool" where
  "has_line h l = (\<exists>a b. h = a @ l @ crlf @ b \<and> ends_crlf a)"

lemma has_lineI: "ends_crlf a \<Longrightarrow> has_line (a @ l @ crlf @ b) l"
  by (auto simp: has_line_def)

definition framed :: "bytes \<Rightarrow> bytes \<Rightarrow> bool" where
  "framed B h = (has_line h (''Content-Length: '' @ itoa (length B)) \<and> has_suffix h (crlf @ crlf))"

lemma has_suffix_append [simp]: "has_suffix (a @ b) b"
  by (simp add: has_suffix_def)

lemma has_suffix_appendI: "has_suffix b s \<Longrightarrow> has_suffix (a @ b) s"
  by (auto simp: has_suffix_def)

lemma ends_crlf_simps [simp]: "ends_crlf []" "ends_crlf (a @ crlf)"
  by (simp_all add: ends_crlf_def)

lemma ends_crlf_append [intro]: "ends_crlf a \<Longrightarrow> ends_crlf b \<Longrightarrow> ends_crlf (a @ b)"
  by (auto simp: ends_crlf_def intro: has_suffix_appendI)

lemma ends_crlf_before: "ends_crlf a \<Longrightarrow> ends_crlf (x @ crlf @ a)"
  using ends_crlf_append [of "x @ crlf" a] by simp

lemma ends_crlf_concat: "\<forall>x \<in> set xs. ends_crlf x \<Longrightarrow> ends_crlf (concat xs)"
  by (induction xs) auto

lemma ends_crlf_line [simp]: "ends_crlf (header_line k v)"
  using ends_crlf_simps(2) [of "k @ '': '' @ header_value v"] by (simp add: header_line_def)

lemma header_value_digits:
  assumes "\<forall>c \<in> set v. is_digit c" shows "header_value v = v"
proof -
  have nb: "\<not> (c = CHR '' '' \<or> byte c = 9)" "\<not> (byte c = 10 \<or> byte c = 13)" if "c \<in> set v" for c
    using assms that by (auto simp: is_digit_def byte_def)
  have dw: "dropWhile (\<lambda>c. c = CHR '' '' \<or> byte c = 9) xs = xs" if "set xs \<subseteq> set v" for xs
    using nb(1) that by (cases xs) auto
  have "map (\<lambda>c. if byte c = 10 \<or> byte c = 13 then CHR '' '' else c) v = v"
    using nb(2) by (intro map_idI) simp
  then show ?thesis by (simp add: header_value_def dw)
qed

lemma header_write_line:
  assumes "map_of h k = Some [v]" and "k \<noteq> []" and "list_all token_char k"
  shows "\<exists>a b. header_write h = a @ header_line k v @ b \<and> ends_crlf a \<and> ends_crlf b"
proof -
  let ?f = "\<lambda>(k, vs). concat (map (header_line k) vs)"
  let ?ls = "filter (\<lambda>(k, vs). k \<noteq> [] \<and> list_all token_char k) (sort_key fst h)"
  have "(k, [v]) \<in> set ?ls" using assms by (auto dest: map_of_SomeD)
  then obtain xs ys where "?ls = xs @ (k, [v]) # ys" by (meson split_list)
  then have "header_write h = concat (map ?f xs) @ header_line k v @ concat (map ?f ys)"
    by (simp add: header_write_def)
  moreover have "ends_crlf (concat (map ?f zs))" for zs
    by (intro ends_crlf_concat) (auto intro!: ends_crlf_concat)
  ultimately show ?thesis by blast
qed

lemma header_framed:
  assumes "map_of h ''Content-Length'' = Some [itoa (length B)]"
  shows "framed B (pre @ crlf @ header_write h @ crlf)"
proof -
  have k: "''Content-Length'' \<noteq> ''''" "list_all token_char ''Content-Length''" by (simp, code_simp)
  obtain a b where w: "header_write h = a @ header_line ''Content-Length'' (itoa (length B)) @ b"
    "ends_crlf a" "ends_crlf b"
    using header_write_line [OF assms k] by blast
  have v: "header_value (itoa (length B)) = itoa (length B)"
    by (rule header_value_digits) (simp add: itoa_digits_set)
  have eq: "pre @ crlf @ header_write h @ crlf =
      (pre @ crlf @ a) @ (''Content-Length: '' @ itoa (length B)) @ crlf @ (b @ crlf)"
    by (simp add: w(1) header_line_def v)
  have "ends_crlf (pre @ crlf @ a)" using w(2) by (rule ends_crlf_before)
  then have "has_line (pre @ crlf @ header_write h @ crlf) (''Content-Length: '' @ itoa (length B))"
    unfolding eq by (rule has_lineI)
  moreover have "has_suffix (crlf @ b @ crlf) (crlf @ crlf)"
    using w(3) by (auto simp: ends_crlf_def has_suffix_def)
  then have "has_suffix (((pre @ crlf @ a) @ ''Content-Length: '' @ itoa (length B)) @ (crlf @ b @ crlf)) (crlf @ crlf)"
    by (rule has_suffix_appendI)
  then have "has_suffix (pre @ crlf @ header_write h @ crlf) (crlf @ crlf)" unfolding eq by simp
  ultimately show ?thesis by (simp add: framed_def)
qed

lemma map_of_end_to_end: "k \<notin> set hop_by_hop \<Longrightarrow> map_of (end_to_end h) k = map_of h k"
  by (simp add: end_to_end_def hop_by_hop_def)

lemma forward_header_framed: "rs_length resp = int (length B) \<Longrightarrow> framed B (forward_header resp False)"
  using header_framed [of "header_set ''Content-Length'' (itoa (length B)) (header_set ''Connection'' ''keep-alive'' (end_to_end (rs_header resp)))" B
      "''HTTP/1.1 '' @ rs_status resp"]
  by (simp add: forward_header_def header_set_def Let_def itoa_int_def)

lemma buffered_header_framed: "framed B (buffered_header resp (length B))"
  using header_framed [of "header_set ''Connection'' ''keep-alive'' (header_set ''Content-Length'' (itoa (length B))
      (map_del ''Content-Range'' (end_to_end (rs_header resp))))" B
      "''HTTP/1.1 '' @ itoa (if rs_code resp = 206 then 200 else rs_code resp) @ '' '' @
       status_text (if rs_code resp = 206 then 200 else rs_code resp)"]
  by (simp add: buffered_header_def header_set_def Let_def)

lemma normalized_framed: "framed B (normalize_cached_header h (length B))"
proof -
  obtain ls where n: "normalize_cached_header h (length B) = concat (map (\<lambda>l. l @ crlf) ls) @
      (''Content-Length: '' @ itoa (length B)) @ crlf @ (''Connection: keep-alive'' @ crlf @ crlf)"
    unfolding normalize_cached_header_def by simp
  have "ends_crlf (concat (map (\<lambda>l. l @ crlf) ls))" by (intro ends_crlf_concat) auto
  from has_lineI [OF this] show ?thesis
    unfolding framed_def n by (blast intro: has_suffix_appendI has_suffix_append)
qed

lemma framed_not_Nil: "framed B h \<Longrightarrow> h \<noteq> []"
  by (auto simp: framed_def has_suffix_def crlf_def)

definition closing :: "bytes \<Rightarrow> bool" where
  "closing h = has_line h ''Connection: close''"

lemma forward_header_closing: "closing (forward_header resp True)"
proof -
  let ?h = "header_set ''Connection'' ''close'' (end_to_end (rs_header resp))"
  have k: "map_of ?h ''Connection'' = Some [''close'']" "''Connection'' \<noteq> ''''" "list_all token_char ''Connection''"
    by (simp add: header_set_def, simp, code_simp)
  obtain a b where w: "header_write ?h = a @ header_line ''Connection'' ''close'' @ b" "ends_crlf a" "ends_crlf b"
    using header_write_line [OF k] by blast
  have "header_value ''close'' = ''close''" by code_simp
  then have eq: "forward_header resp True =
      (''HTTP/1.1 '' @ rs_status resp @ crlf @ a) @ ''Connection: close'' @ crlf @ (b @ crlf)"
    by (simp add: forward_header_def Let_def w(1) header_line_def)
  have "ends_crlf (''HTTP/1.1 '' @ rs_status resp @ crlf @ a)"
    using ends_crlf_before [OF w(2), of "''HTTP/1.1 '' @ rs_status resp"] by simp
  then have "has_line ((''HTTP/1.1 '' @ rs_status resp @ crlf @ a) @ ''Connection: close'' @ crlf @ (b @ crlf))
      ''Connection: close''" by (rule has_lineI)
  then show ?thesis unfolding closing_def eq .
qed

section \<open>Cache and output invariants\<close>

definition cache_ok :: "string \<Rightarrow> bytes \<Rightarrow> asset_cache \<Rightarrow> bool" where
  "cache_ok K B c =
     (cache_inv c \<and>
      (\<forall>r. cache_lookup K c = Some r \<longrightarrow> cr_body r = B \<and> framed B (cr_header r) \<and> \<not> cr_close r) \<and>
      (\<forall>pa. get_partial K c = Some pa \<longrightarrow> pa_body pa = take (length (pa_body pa)) B \<and> framed B (pa_header pa) \<and>
         pa_total pa = int (length B) \<and> \<not> pa_close pa))"

definition sent_ok :: "bytes \<Rightarrow> bytes \<Rightarrow> bool" where
  "sent_ok B pre =
     ((\<exists>hdr n. pre = take n (hdr @ B) \<and> (framed B hdr \<or> closing hdr)) \<or> (\<exists>n. pre = take n bad_gateway))"

lemma partials_evict [simp]: "partials (evict_loop sz c) = partials c"
proof (induction sz c rule: evict_loop.induct)
  case (1 sz c)
  then show ?case by (subst evict_loop.simps) (simp add: drop_element_def)
qed

lemma get_partial_put: "get_partial K (cache_put K r c) = None \<or> get_partial K (cache_put K r c) = get_partial K c"
  by (simp add: cache_put_def Let_def get_partial_def)

lemma cache_ok_put:
  assumes "cache_ok K B c" and "cr_body r = B" and "framed B (cr_header r)" and "\<not> cr_close r"
  shows "cache_ok K B (cache_put K r c)"
proof -
  have inv: "cache_inv c" using assms(1) by (simp add: cache_ok_def)
  have "cr_body q = B \<and> framed B (cr_header q) \<and> \<not> cr_close q" if "cache_lookup K (cache_put K r c) = Some q" for q
    using run_op_lookup [OF inv, of K "Put K r" q] that assms by (auto simp: run_op_def op_writes_def cache_ok_def)
  then show ?thesis
    using assms(1) cache_put_refines(1) [OF inv] get_partial_put [of K r c] by (auto simp: cache_ok_def)
qed

lemma cache_ok_put_partial:
  assumes "cache_ok K B c" and "pick_ok pick" and "pa_body pa = take (length (pa_body pa)) B" and "framed B (pa_header pa)"
    and "pa_total pa = int (length B)" and "\<not> pa_close pa"
  shows "cache_ok K B (put_partial pick K pa c)"
proof -
  have "cache_lookup K (put_partial pick K pa c) = cache_lookup K c"
    by (simp add: cache_lookup_def cache_get_def split: option.splits)
  moreover have "get_partial K (put_partial pick K pa c) \<in> {Some pa, get_partial K c}"
    by (simp add: put_partial_def get_partial_def Let_def)
  ultimately show ?thesis
    using assms put_partial_inv [OF _ assms(2), of c K pa] by (auto simp: cache_ok_def)
qed

lemma cache_ok_get:
  assumes "cache_ok K B c" shows "cache_ok K B (snd (cache_get K c))"
proof -
  have inv: "cache_inv c" using assms by (simp add: cache_ok_def)
  have "cache_lookup K (snd (cache_get K c)) = Some q \<Longrightarrow> cache_lookup K c = Some q" for q
    using run_op_lookup [OF inv, of K "Get K" q] by (simp add: run_op_def op_writes_def)
  moreover have "get_partial K (snd (cache_get K c)) = get_partial K c"
    by (simp add: cache_get_def get_partial_def split: option.splits)
  ultimately show ?thesis
    using assms cache_get_refines(1) [OF inv, of K] unfolding cache_ok_def by metis
qed

text \<open>Before the header is out, and after.\<close>

definition waiting :: "bytes \<Rightarrow> string \<Rightarrow> bytes \<Rightarrow> forward_state \<Rightarrow> fwd_world \<Rightarrow> bool" where
  "waiting B K out st w =
     (\<not> fs_header_sent st \<and> fs_relayed st = 0 \<and> fw_out w = out \<and> fs_total st \<in> {-1, int (length B)} \<and>
      fs_pending st = take (length (fs_pending st)) B \<and> fs_header st = [] \<and> fs_buf st = [] \<and>
      fs_cache_key st \<in> {[], K})"

definition relaying :: "bytes \<Rightarrow> string \<Rightarrow> bytes \<Rightarrow> forward_state \<Rightarrow> fwd_world \<Rightarrow> bool" where
  "relaying B K out st w =
     (fs_header_sent st \<and> 0 \<le> fs_relayed st \<and> fs_relayed st \<le> int (length B) \<and> fs_total st = int (length B) \<and>
      fs_pending st = [] \<and> \<not> fs_close_after st \<and>
      (\<exists>hdr. framed B hdr \<and> fw_out w = out @ hdr @ take (nat (fs_relayed st)) B) \<and>
      (fs_cache_key st = [] \<or>
       fs_cache_key st = K \<and> fs_buf st = take (nat (fs_relayed st)) B \<and> framed B (fs_header st)))"

definition savable :: "bytes \<Rightarrow> string \<Rightarrow> forward_state \<Rightarrow> bool" where
  "savable B K st =
     (fs_cache_key st = [] \<or> fs_header st = [] \<or>
      fs_cache_key st = K \<and> fs_buf st = take (length (fs_buf st)) B \<and> framed B (fs_header st) \<and>
      fs_total st = int (length B) \<and> \<not> fs_close_after st)"

definition fwd_post :: "bytes \<Rightarrow> string \<Rightarrow> bytes \<Rightarrow> outcome \<Rightarrow> forward_state \<Rightarrow> fwd_world \<Rightarrow> bool" where
  "fwd_post B K out r st w =
     (cache_ok K B (fw_cache w) \<and>
      (case r of
         FwdDone \<Rightarrow> \<exists>hdr. fw_out w = out @ hdr @ B \<and> (if fs_close_after st then closing hdr else framed B hdr)
       | FwdRetry \<Rightarrow> waiting B K out st w \<or> relaying B K out st w
       | FwdAbort \<Rightarrow> savable B K st \<and> (\<exists>pre. fw_out w = out @ pre \<and> sent_ok B pre)
       | FwdBlocked \<Rightarrow> \<exists>pre. fw_out w = out @ pre \<and> sent_ok B pre))"

lemma sent_ok_intros:
  "framed B hdr \<Longrightarrow> sent_ok B (take n (hdr @ B))" "closing hdr \<Longrightarrow> sent_ok B (take n (hdr @ B))"
  "sent_ok B (take n bad_gateway)"
  by (auto simp: sent_ok_def)

lemma sent_ok_part:
  assumes "framed B hdr \<or> closing hdr"
  shows "sent_ok B (hdr @ take m B)" "sent_ok B (take m hdr)"
proof -
  have "hdr @ take m B = take (length hdr + m) (hdr @ B)" "take m hdr = take (min m (length hdr)) (hdr @ B)"
    by (simp_all add: min_def)
  then show "sent_ok B (hdr @ take m B)" "sent_ok B (take m hdr)" using assms unfolding sent_ok_def by metis+
qed

lemma sent_ok_Nil [simp]: "sent_ok B []"
  using sent_ok_intros(3) [of B 0] by simp

lemma relaying_savable: "relaying B K out st w \<Longrightarrow> savable B K st"
  by (auto simp: relaying_def savable_def min_def)

lemma waiting_savable: "waiting B K out st w \<Longrightarrow> savable B K st"
  by (simp add: waiting_def savable_def)

lemma relaying_sent:
  assumes "relaying B K out st w"
  shows "\<exists>pre. fw_out w = out @ pre \<and> sent_ok B pre"
proof -
  obtain hdr where h: "framed B hdr" "fw_out w = out @ hdr @ take (nat (fs_relayed st)) B"
    using assms by (auto simp: relaying_def)
  have "hdr @ take (nat (fs_relayed st)) B = take (length hdr + nat (fs_relayed st)) (hdr @ B)" by simp
  then show ?thesis using h sent_ok_intros(1) by metis
qed

lemma write_client_out:
  "write_client env b w = (ok, w') \<Longrightarrow>
     fw_cache w' = fw_cache w \<and> (\<exists>n. fw_out w' = fw_out w @ take n b) \<and> (ok \<longrightarrow> fw_out w' = fw_out w @ b)"
  by (auto simp: write_client_def split: option.splits intro: exI [of _ "length b"])

lemma commit_ok:
  assumes "cache_ok K B (fw_cache w)" and "fs_cache_key st = [] \<or> fs_cache_key st = K \<and> fs_buf st = B \<and> framed B (fs_header st)"
    and "commit_asset_cache st w = (st', w')"
  shows "cache_ok K B (fw_cache w') \<and> fw_out w' = fw_out w \<and> fs_close_after st' = fs_close_after st"
  using assms cache_ok_put [OF assms(1)] normalized_framed
  by (auto simp: commit_asset_cache_def split: if_splits)

lemma save_partial_ok:
  assumes "cache_ok K B (fw_cache w)" and "savable B K st"
  shows "cache_ok K B (fw_cache (save_partial env st w)) \<and> fw_out (save_partial env st w) = fw_out w"
  using assms cache_ok_put_partial [OF assms(1)] by (auto simp: save_partial_def savable_def)

section \<open>Relaying what the origin sends\<close>

text \<open>Reads that yield the bytes \<open>D\<close> in order, with a clean end only when all of them have come.\<close>

fun faithful :: "bytes \<Rightarrow> reads \<Rightarrow> bool" where
  "faithful D [] = True"
| "faithful D ((b, e) # rs) =
     (take (length b) D = b \<and> (e = Some REof \<longrightarrow> drop (length b) D = []) \<and> faithful (drop (length b) D) rs)"

lemma drop_skip_faithful:
  assumes "faithful (drop (p - s) B) ((b, e) # rs)" and "s \<le> p" and "p \<le> length B"
    and "drop_skip (int s) b = (chunk, skip')"
  obtains s' where "skip' = int s'" "take p B @ chunk = take (p + length chunk) B" "s' \<le> p + length chunk"
    "p + length chunk \<le> length B" "faithful (drop (p + length chunk - s') B) rs"
    "e = Some REof \<Longrightarrow> p + length chunk = length B" "chunk = [] \<or> s' = 0"
proof -
  have f: "take (length b) (drop (p - s) B) = b" "e = Some REof \<longrightarrow> length B \<le> p - s + length b"
    "faithful (drop (p - s + length b) B) rs"
    using assms(1) by (auto simp: add.commute)
  have len: "p - s + length b \<le> length B"
    using f(1) assms(2,3) by (metis length_take length_drop min.cobounded1 le_diff_conv2 add.commute diff_le_self le_trans)
  have chunk: "chunk = drop (min s (length b)) b" "skip' = int (s - min s (length b))"
    using assms(4) by (auto simp: drop_skip_def Let_def min_def split: if_splits)
  have "chunk = take (length chunk) (drop p B)"
  proof (cases "s \<le> length b")
    case True
    have "chunk = drop s (take (length b) (drop (p - s) B))" using f(1) True by (simp add: chunk(1))
    also have "\<dots> = take (length b - s) (drop p B)" using assms(2) by (simp add: drop_take)
    finally show ?thesis using True by (simp add: chunk(1) min_def)
  next
    case False
    then show ?thesis by (simp add: chunk(1))
  qed
  then have app: "take p B @ chunk = take (p + length chunk) B" by (metis take_add)
  have pos: "p + length chunk - (s - min s (length b)) = p - s + length b"
    using assms(2) by (simp add: chunk(1) min_def)
  show ?thesis
  proof (rule that [of "s - min s (length b)"])
    show "p + length chunk \<le> length B" using len assms(2,3) by (simp add: chunk(1) min_def split: if_splits)
    show "e = Some REof \<Longrightarrow> p + length chunk = length B"
      using f(2) len assms(2,3) by (cases "s \<le> length b") (auto simp: chunk(1) min_def)
    show "faithful (drop (p + length chunk - (s - min s (length b))) B) rs" using f(3) by (simp only: pos)
    show "chunk = [] \<or> s - min s (length b) = 0" by (auto simp: chunk(1) min_def)
  qed (use app assms(2) in \<open>simp_all add: chunk(2)\<close>)
qed

lemma take_part:
  assumes "take p B @ chunk = take (p + length chunk) B" and "p + length chunk \<le> length B"
  shows "take p B @ take n chunk = take (min (p + length chunk) (p + n)) B"
proof -
  have "take p B @ take n chunk = take (p + n) (take p B @ chunk)" using assms(2) by simp
  then show ?thesis by (simp add: assms(1) min.commute)
qed

lemma relay_chunk_ok:
  assumes st: "relaying B K out st w" and cache: "cache_ok K B (fw_cache w)"
    and p: "fs_relayed st = int p" and app: "take p B @ chunk = take (p + length chunk) B" and le: "p + length chunk \<le> length B"
    and r: "relay_chunk env chunk st w = (r, w')"
  shows "cache_ok K B (fw_cache w') \<and>
    (case r of
       Some st' \<Rightarrow> relaying B K out st' w' \<and> fs_relayed st' = int (p + length chunk)
     | None \<Rightarrow> \<exists>pre. fw_out w' = out @ pre \<and> sent_ok B pre)"
proof (cases "chunk = []")
  case True
  then show ?thesis using assms by (auto simp: relay_chunk_def)
next
  case False
  obtain ok w1 where wr: "write_client env chunk w = (ok, w1)" by fastforce
  note o = write_client_out [OF wr]
  obtain hdr where h: "framed B hdr" "fw_out w = out @ hdr @ take p B"
    using st p by (auto simp: relaying_def)
  show ?thesis
  proof (cases ok)
    case True
    then have "w' = w1" "fw_out w1 = out @ hdr @ take (p + length chunk) B" "fw_cache w1 = fw_cache w"
      using False wr r o h(2) app by (simp_all add: relay_chunk_def Let_def)
    moreover have "take p B @ chunk = take (nat (int p + int (length chunk))) B"
      using app by (simp add: nat_add_distrib)
    ultimately show ?thesis
      using False True wr r st p le h(1) cache
      by (auto simp: relay_chunk_def Let_def relaying_def nat_add_distrib app split: if_splits)
  next
    case no: False
    then have "r = None" "w' = w1" using False wr r by (simp_all add: relay_chunk_def)
    moreover obtain n where "fw_out w1 = out @ hdr @ take p B @ take n chunk" using o h(2) by auto
    moreover note take_part [OF app le, of n]
    ultimately have "fw_out w' = out @ hdr @ take (min (p + length chunk) (p + n)) B" by argo
    then show ?thesis
      using \<open>r = None\<close> \<open>w' = w1\<close> o cache sent_ok_part(1) [of B hdr "min (p + length chunk) (p + n)"] h(1) by simp
  qed
qed

lemma relaying_commit:
  assumes "relaying B K out st w" and "cache_ok K B (fw_cache w)" and "fs_relayed st = int (length B)"
    and "commit_asset_cache st w = (st', w')"
  shows "fwd_post B K out FwdDone st' w'"
proof -
  have "fs_cache_key st = [] \<or> fs_cache_key st = K \<and> fs_buf st = B \<and> framed B (fs_header st)"
    using assms(1,3) by (simp add: relaying_def)
  from commit_ok [OF assms(2) this assms(4)] show ?thesis
    using assms(1,3) by (auto simp: fwd_post_def relaying_def)
qed

text \<open>A read that ends with an error or the end of the body.\<close>

lemma relay_read_end:
  assumes r1: "relaying B K out st1 w1" "cache_ok K B (fw_cache w1)" "fs_relayed st1 = int n"
    and eof: "err = REof \<Longrightarrow> n = length B"
    and step: "(r, st', w') =
      (case read_ends (Some err) (fs_total st1 < 0 \<or> fs_total st1 \<le> fs_relayed st1) of
         None \<Rightarrow> rest | Some FwdDone \<Rightarrow> (FwdDone, commit_asset_cache st1 w1) | Some r \<Rightarrow> (r, st1, w1))"
  shows "fwd_post B K out r st' w'"
proof (cases "err = REof")
  case True
  have "fs_total st1 = int (length B)" using r1(1) by (simp add: relaying_def)
  then have "r = FwdDone" "commit_asset_cache st1 w1 = (st', w')"
    using step True r1(3) eof by (simp_all add: read_ends_def)
  then show ?thesis using relaying_commit [OF r1(1,2)] True eof r1(3) by simp
next
  case False
  then show ?thesis
    using step r1 relaying_savable [OF r1(1)] relaying_sent [OF r1(1)]
    by (cases err) (auto simp: read_ends_def fwd_post_def)
qed

text \<open>Every write to the client succeeds.\<close>

definition writes_ok :: "fwd_env \<Rightarrow> bool" where
  "writes_ok env = (\<forall>n. fe_write env n = None)"

lemma writes_okD: "writes_ok env \<Longrightarrow> write_client env b w = (True, w\<lparr>fw_out := fw_out w @ b, fw_writes := fw_writes w + 1\<rparr>)"
  by (simp add: writes_ok_def write_client_def)

text \<open>One read of a body that is relayed as it comes.\<close>

lemma relay_read [consumes 7, case_names broken on]:
  assumes "relaying B K out st w" and "cache_ok K B (fw_cache w)" and "fs_relayed st = int p" and "s \<le> p"
    and "faithful (drop (p - s) B) ((b, e) # rs)" and "relay_forward_body env ((b, e) # rs) st (int s) w = (r, st', w')"
    and "p \<noteq> length B"
  obtains (broken) w1 where "(r, st', w') = (FwdAbort, st, w1)" "cache_ok K B (fw_cache w1)"
      "\<exists>pre. fw_out w1 = out @ pre \<and> sent_ok B pre" "\<not> writes_ok env"
    | (on) chunk s' st1 w1 where "drop_skip (int s) b = (chunk, int s')" "s' \<le> p + length chunk"
      "faithful (drop (p + length chunk - s') B) rs" "e = Some REof \<longrightarrow> p + length chunk = length B"
      "relaying B K out st1 w1" "fs_relayed st1 = int (p + length chunk)" "cache_ok K B (fw_cache w1)"
      "writes_ok env \<longrightarrow> fw_tries w1 = fw_tries w"
      "(r, st', w') = (case read_ends e (fs_total st1 < 0 \<or> fs_total st1 \<le> fs_relayed st1) of
          None \<Rightarrow> relay_forward_body env rs st1 (int s') w1
        | Some FwdDone \<Rightarrow> (FwdDone, commit_asset_cache st1 w1)
        | Some r \<Rightarrow> (r, st1, w1))"
proof -
  have pB: "p \<le> length B" and tot: "fs_total st = int (length B)" using assms(1,3) by (simp_all add: relaying_def)
  obtain chunk skip' where ds: "drop_skip (int s) b = (chunk, skip')" by fastforce
  obtain s' where s': "skip' = int s'" "take p B @ chunk = take (p + length chunk) B" "s' \<le> p + length chunk"
    "p + length chunk \<le> length B" "faithful (drop (p + length chunk - s') B) rs"
    "e = Some REof \<Longrightarrow> p + length chunk = length B"
    using drop_skip_faithful [OF assms(5,4) pB ds] by metis
  obtain q w1 where rc: "relay_chunk env chunk st w = (q, w1)" by fastforce
  note ok = relay_chunk_ok [OF assms(1-3) s'(2,4) rc]
  have tr: "q \<noteq> None \<and> fw_tries w1 = fw_tries w" if "writes_ok env"
    using rc by (auto simp: relay_chunk_def writes_okD [OF that] Let_def split: if_splits)
  show thesis
  proof (cases q)
    case None
    then have "(r, st', w') = (FwdAbort, st, w1)" using assms(3,6,7) pB tot by (simp add: ds rc)
    then show thesis using broken [of w1] ok None tr by auto
  next
    case (Some st1)
    have "(r, st', w') = (case read_ends e (fs_total st1 < 0 \<or> fs_total st1 \<le> fs_relayed st1) of
        None \<Rightarrow> relay_forward_body env rs st1 (int s') w1
      | Some FwdDone \<Rightarrow> (FwdDone, commit_asset_cache st1 w1)
      | Some r \<Rightarrow> (r, st1, w1))"
      using assms(3,6,7) pB tot s'(1) by (simp add: ds rc Some)
    then show thesis using on [OF _ s'(3,5) _ _ _ _ _, of st1 w1] ok Some tr ds s'(1,6) by auto
  qed
qed

lemma relay_forward_body_ok:
  assumes "relaying B K out st w" and "cache_ok K B (fw_cache w)" and "fs_relayed st = int p" and "s \<le> p"
    and "faithful (drop (p - s) B) rs"
    and "relay_forward_body env rs st (int s) w = (r, st', w')"
  shows "fwd_post B K out r st' w'"
  using assms
proof (induction rs arbitrary: st w p s)
  case Nil
  have "p \<le> length B" "fs_total st = int (length B)" using Nil.prems(1,3) by (simp_all add: relaying_def)
  then show ?case
    using Nil.prems relaying_commit [OF Nil.prems(1,2)] by (auto simp: fwd_post_def split: if_splits)
next
  case (Cons x rs)
  obtain b e where x: "x = (b, e)" by (cases x)
  show ?case
  proof (cases "p = length B")
    case True
    then have "(r, st', w') = (FwdDone, commit_asset_cache st w)"
      using Cons.prems(1,3,6) by (simp add: x relaying_def)
    then show ?thesis using relaying_commit [OF Cons.prems(1,2)] Cons.prems(3) True by simp
  next
    case False
    with Cons.prems(1-4) Cons.prems(5,6) [unfolded x] show ?thesis
    proof (cases rule: relay_read)
      case (broken w1)
      then show ?thesis using relaying_savable [OF Cons.prems(1)] by (simp add: fwd_post_def)
    next
      case (on chunk s' st1 w1)
      show ?thesis
      proof (cases e)
        case None
        then have "relay_forward_body env rs st1 (int s') w1 = (r, st', w')" using on(9) by (simp add: read_ends_def)
        from Cons.IH [OF on(5,7,6,2,3) this] show ?thesis .
      next
        case (Some err)
        then show ?thesis using relay_read_end [OF on(5,7,6) _ on(9) [unfolded Some]] on(4) by simp
      qed
    qed
  qed
qed

section \<open>Buffering what the origin sends\<close>

lemma finish_buffered_ok:
  assumes st: "waiting B K out st w" and cache: "cache_ok K B (fw_cache w)" and all: "fs_pending st = B"
    and fin: "finish_buffered env resp st w = (r, st', w')"
  shows "fwd_post B K out r st' w'"
proof -
  let ?hdr = "buffered_header resp (length B)"
  have body: "(if 0 \<le> fs_total st \<and> fs_total st < int (length (fs_pending st))
                  then take (nat (fs_total st)) (fs_pending st) else fs_pending st) = B"
    using st all by (auto simp: waiting_def)
  have out: "fw_out w = out" using st by (simp add: waiting_def)
  obtain ok1 w1 where w1: "write_client env ?hdr w = (ok1, w1)" by fastforce
  note o1 = write_client_out [OF w1]
  show ?thesis
  proof (cases ok1)
    case False
    then have "r = FwdAbort" "st' = st" "w' = w1" using fin w1 by (simp_all add: finish_buffered_def Let_def body)
    then show ?thesis
      using o1 cache out waiting_savable [OF st] sent_ok_part(2) [of B ?hdr] buffered_header_framed [of B resp]
      by (auto simp: fwd_post_def)
  next
    case True
    obtain ok2 w2 where w2: "write_client env B w1 = (ok2, w2)" by fastforce
    note o2 = write_client_out [OF w2]
    show ?thesis
    proof (cases ok2)
      case False
      then have "r = FwdAbort" "st' = st" "w' = w2"
        using fin w1 w2 True by (simp_all add: finish_buffered_def Let_def body)
      then show ?thesis
        using o1 o2 True cache out waiting_savable [OF st] sent_ok_part(1) [of B ?hdr] buffered_header_framed [of B resp]
        by (auto simp: fwd_post_def)
    next
      case ok2: True
      let ?st1 = "st\<lparr>fs_header_sent := True, fs_relayed := int (length B), fs_total := int (length B),
        fs_close_after := False, fs_pending := []\<rparr>"
      have o: "fw_out w2 = out @ ?hdr @ B" "fw_cache w2 = fw_cache w" using o1 o2 True ok2 out by auto
      have res: "(r, st', w') = (FwdDone, if fs_cache_key ?st1 \<noteq> [] \<and> (if rs_code resp = 206 then 200 else rs_code resp) = 200
            \<and> int (length B) \<le> asset_cache_max_object
          then commit_asset_cache (?st1\<lparr>fs_header := ?hdr, fs_buf := B\<rparr>) w2
          else (?st1\<lparr>fs_cache_key := []\<rparr>, w2))"
        using fin w1 w2 True ok2 by (simp add: finish_buffered_def Let_def body)
      have "fs_cache_key ?st1 = [] \<or> fs_cache_key ?st1 = K" using st by (auto simp: waiting_def)
      then have "cache_ok K B (fw_cache w') \<and> fw_out w' = fw_out w2 \<and> \<not> fs_close_after st'"
        using res cache o(2) commit_ok [of K B w2 "?st1\<lparr>fs_header := ?hdr, fs_buf := B\<rparr>" st' w']
          buffered_header_framed [of B resp]
        by (auto split: if_splits)
      then show ?thesis using res o(1) buffered_header_framed [of B resp] by (auto simp: fwd_post_def)
    qed
  qed
qed

lemma copy_rest_ok:
  assumes "closing hdr" and "fw_out w = out @ hdr @ take q B" and "q \<le> length B" and "faithful (drop q B) rs"
    and "copy_rest env rs w = (r, w')"
  shows "fw_cache w' = fw_cache w \<and> r \<noteq> FwdRetry \<and>
    (if r = FwdDone then fw_out w' = out @ hdr @ B else \<exists>pre. fw_out w' = out @ pre \<and> sent_ok B pre)"
  using assms(2-)
proof (induction rs arbitrary: w q)
  case Nil
  then show ?case using sent_ok_part(1) [of B hdr q] assms(1) by auto
next
  case (Cons x rs)
  obtain b e where x: "x = (b, e)" by (cases x)
  have f: "take (length b) (drop q B) = b" "e = Some REof \<longrightarrow> length B \<le> q + length b" "faithful (drop (q + length b) B) rs"
    using Cons.prems(3) by (auto simp: x add.commute)
  have app: "take q B @ b = take (q + length b) B" using f(1) by (metis take_add)
  have le: "q + length b \<le> length B"
    using f(1) Cons.prems(2) by (metis length_take length_drop min.cobounded1 le_diff_conv2 add.commute)
  obtain ok w1 where w1: "(if b = [] then (True, w) else write_client env b w) = (ok, w1)" by fastforce
  have o: "fw_cache w1 = fw_cache w" "\<exists>n. fw_out w1 = fw_out w @ take n b" "ok \<longrightarrow> fw_out w1 = fw_out w @ b"
    using w1 write_client_out [of env b w ok w1] by (auto split: if_splits)
  show ?case
  proof (cases ok)
    case False
    obtain n where "fw_out w1 = out @ hdr @ take q B @ take n b" using o(2) Cons.prems(1) by auto
    moreover note take_part [OF app le, of n]
    ultimately have "fw_out w1 = out @ hdr @ take (min (q + length b) (q + n)) B" by simp
    then show ?thesis using False w1 o(1) Cons.prems(4) sent_ok_part(1) [of B hdr] assms(1) by (auto simp: x)
  next
    case True
    then have out: "fw_out w1 = out @ hdr @ take (q + length b) B" using o(3) Cons.prems(1) app by simp
    show ?thesis
    proof (cases e)
      case None
      then have "copy_rest env rs w1 = (r, w')" using Cons.prems(4) True w1 by (simp add: x)
      from Cons.IH [OF out le f(3) this] show ?thesis using o(1) by simp
    next
      case (Some err)
      then show ?thesis
        using Cons.prems(4) True w1 out o(1) f(2) le sent_ok_part(1) [of B hdr "q + length b"] assms(1)
        by (cases err) (auto simp: x)
    qed
  qed
qed

lemma stream_overflow_ok:
  assumes st: "waiting B K out st w" and cache: "cache_ok K B (fw_cache w)"
    and p: "length (fs_pending st) = p" and app: "take p B @ chunk = take (p + length chunk) B"
    and le: "p + length chunk \<le> length B" and f: "faithful (drop (p + length chunk) B) rs"
    and ov: "stream_overflow_buffered env resp chunk rs st w = (r, st', w')"
  shows "fwd_post B K out r st' w'"
proof -
  let ?hdr = "forward_header resp True"
  have pend: "fs_pending st = take p B" and out: "fw_out w = out" using st p by (simp_all add: waiting_def)
  have cl: "framed B ?hdr \<or> closing ?hdr" by (simp add: forward_header_closing)
  obtain ok1 w1 where w1: "write_client env ?hdr w = (ok1, w1)" by fastforce
  obtain ok2 w2 where w2: "write_client env (take p B) w1 = (ok2, w2)" by fastforce
  obtain ok3 w3 where w3: "write_client env chunk w2 = (ok3, w3)" by fastforce
  obtain r4 w4 where w4: "copy_rest env rs w3 = (r4, w4)" by fastforce
  note o1 = write_client_out [OF w1] and o2 = write_client_out [OF w2] and o3 = write_client_out [OF w3]
  have res: "(r, st', w') =
     (if \<not> ok1 then (FwdAbort, st\<lparr>fs_close_after := True, fs_cache_key := []\<rparr>, w1)
      else if \<not> ok2 then (FwdAbort, st\<lparr>fs_close_after := True, fs_cache_key := [], fs_header_sent := True\<rparr>, w2)
      else if \<not> ok3 then (FwdAbort, st\<lparr>fs_close_after := True, fs_cache_key := [], fs_header_sent := True\<rparr>, w3)
      else (r4, st\<lparr>fs_close_after := True, fs_cache_key := [], fs_header_sent := True,
              fs_relayed := int p + int (length chunk), fs_pending := [], fs_total := -1\<rparr>, w4))"
    using ov w1 w2 w3 w4 p
    by (cases ok1; cases ok2; cases ok3) (simp_all add: stream_overflow_buffered_def Let_def pend)
  consider "\<not> ok1" | "ok1" "\<not> ok2" | "ok1" "ok2" "\<not> ok3" | "ok1" "ok2" "ok3" by blast
  then show ?thesis
  proof cases
    case 1
    then show ?thesis using res o1 cache out sent_ok_part(2) [OF cl] by (auto simp: fwd_post_def savable_def)
  next
    case 2
    then obtain n where "fw_out w2 = out @ ?hdr @ take n (take p B)" using o1 o2 out by auto
    then show ?thesis using 2 res o1 o2 cache sent_ok_part(1) [OF cl] by (auto simp: fwd_post_def savable_def min_def)
  next
    case 3
    then obtain n where "fw_out w3 = out @ ?hdr @ take p B @ take n chunk" using o1 o2 o3 out by auto
    then show ?thesis using 3 res o1 o2 o3 cache sent_ok_part(1) [OF cl] take_part [OF app le]
      by (auto simp: fwd_post_def savable_def)
  next
    case 4
    then have "fw_out w3 = out @ ?hdr @ take (p + length chunk) B" using o1 o2 o3 out app by simp
    from copy_rest_ok [OF forward_header_closing this le f w4] 4 show ?thesis
      using res o1 o2 o3 cache by (cases r4) (auto simp: fwd_post_def savable_def forward_header_closing)
  qed
qed

lemma buffered_read_end:
  assumes st1: "waiting B K out st1 w" "cache_ok K B (fw_cache w)"
    and eof: "err = REof \<Longrightarrow> fs_pending st1 = B"
    and step: "(r, st', w') =
      (case read_ends (Some err) (fs_total st1 < 0 \<or> fs_total st1 \<le> int (length (fs_pending st1))) of
         None \<Rightarrow> rest | Some FwdDone \<Rightarrow> finish_buffered env resp st1 w | Some r \<Rightarrow> (r, st1, w))"
  shows "fwd_post B K out r st' w'"
proof (cases "err = REof")
  case True
  moreover have "fs_total st1 \<in> {-1, int (length B)}" using st1(1) by (auto simp: waiting_def)
  ultimately have "finish_buffered env resp st1 w = (r, st', w')"
    using step eof by (auto simp: read_ends_def)
  then show ?thesis using finish_buffered_ok [OF st1] True eof by simp
next
  case False
  have "fw_out w = out" using st1(1) by (simp add: waiting_def)
  then show ?thesis
    using step False st1 waiting_savable [OF st1(1)]
    by (cases err) (simp_all add: read_ends_def fwd_post_def exI [of _ "[]"])
qed

text \<open>One read of a body that is still buffered.\<close>

lemma buffered_read:
  assumes "waiting B K out st w" and "length (fs_pending st) = p" and "s \<le> p"
    and "faithful (drop (p - s) B) ((b, e) # rs)"
    and "forward_buffered env resp ((b, e) # rs) st (int s) w = (r, st', w')"
    and "\<not> (0 \<le> fs_total st \<and> fs_total st \<le> int p)"
  obtains chunk s' st1 where "drop_skip (int s) b = (chunk, int s')" "take p B @ chunk = take (p + length chunk) B"
    "s' \<le> p + length chunk" "p + length chunk \<le> length B" "faithful (drop (p + length chunk - s') B) rs"
    "e = Some REof \<longrightarrow> p + length chunk = length B" "chunk = [] \<or> s' = 0"
    "waiting B K out st1 w" "fs_pending st1 = take (p + length chunk) B" "length (fs_pending st1) = p + length chunk"
    "(r, st', w') =
      (if chunk \<noteq> [] \<and> forward_buffered_max < int p + int (length chunk)
       then stream_overflow_buffered env resp chunk (if e = None then rs else ([], e) # rs) st w
       else (case read_ends e (fs_total st1 < 0 \<or> fs_total st1 \<le> int (length (fs_pending st1))) of
               None \<Rightarrow> forward_buffered env resp rs st1 (int s') w
             | Some FwdDone \<Rightarrow> finish_buffered env resp st1 w
             | Some r \<Rightarrow> (r, st1, w)))"
proof -
  have pend: "fs_pending st = take p B" using assms(1,2) by (auto simp: waiting_def)
  have pB: "p \<le> length B" using pend assms(2) by (metis length_take min.cobounded1)
  obtain chunk skip' where ds: "drop_skip (int s) b = (chunk, skip')" by fastforce
  obtain s' where s': "skip' = int s'" "take p B @ chunk = take (p + length chunk) B" "s' \<le> p + length chunk"
    "p + length chunk \<le> length B" "faithful (drop (p + length chunk - s') B) rs"
    "e = Some REof \<Longrightarrow> p + length chunk = length B" "chunk = [] \<or> s' = 0"
    using drop_skip_faithful [OF _ assms(3) pB ds] assms(4) by metis
  let ?st1 = "st\<lparr>fs_pending := fs_pending st @ chunk\<rparr>"
  have p1: "fs_pending ?st1 = take (p + length chunk) B" using s'(2) pend by simp
  have st1: "waiting B K out ?st1 w" using assms(1) p1 s'(4) by (auto simp: waiting_def)
  have len: "length (fs_pending ?st1) = p + length chunk" using p1 s'(4) by simp
  have neg: "(0 \<le> fs_total st \<and> fs_total st \<le> int (length (fs_pending st))) = False"
    using assms(2,6) by simp
  have step: "(r, st', w') =
      (if chunk \<noteq> [] \<and> forward_buffered_max < int p + int (length chunk)
       then stream_overflow_buffered env resp chunk (if e = None then rs else ([], e) # rs) st w
       else (case read_ends e (fs_total ?st1 < 0 \<or> fs_total ?st1 \<le> int (length (fs_pending ?st1))) of
               None \<Rightarrow> forward_buffered env resp rs ?st1 (int s') w
             | Some FwdDone \<Rightarrow> finish_buffered env resp ?st1 w
             | Some r \<Rightarrow> (r, ?st1, w)))"
    unfolding assms(5) [symmetric] forward_buffered.simps neg ds
    by (simp only: if_False prod.case Let_def assms(2) s'(1))
  show thesis using that [OF _ s'(2-5) _ s'(7) st1 p1 len step] ds s'(1,6) by simp
qed

lemma forward_buffered_ok:
  assumes "waiting B K out st w" and "cache_ok K B (fw_cache w)" and "length (fs_pending st) = p" and "s \<le> p"
    and "faithful (drop (p - s) B) rs"
    and "forward_buffered env resp rs st (int s) w = (r, st', w')"
  shows "fwd_post B K out r st' w'"
  using assms
proof (induction rs arbitrary: st p s)
  case Nil
  show ?case
  proof (cases "0 \<le> fs_total st \<and> fs_total st \<le> int p")
    case True
    then have "fs_pending st = B" using Nil.prems(1,3) by (auto simp: waiting_def)
    then show ?thesis using Nil.prems(3,6) True finish_buffered_ok [OF Nil.prems(1,2)] by simp
  next
    case False
    then show ?thesis using Nil.prems(1-3,6) by (auto simp: fwd_post_def)
  qed
next
  case (Cons x rs)
  obtain b e where x: "x = (b, e)" by (cases x)
  show ?case
  proof (cases "0 \<le> fs_total st \<and> fs_total st \<le> int p")
    case True
    then have "fs_pending st = B" using Cons.prems(1,3) by (auto simp: waiting_def)
    then show ?thesis using Cons.prems(3,6) True finish_buffered_ok [OF Cons.prems(1,2)] by (simp add: x)
  next
    case False
    from buffered_read [OF Cons.prems(1,3,4) Cons.prems(5,6) [unfolded x] False]
    obtain chunk s' st1 where "drop_skip (int s) b = (chunk, int s')"
      and rd: "take p B @ chunk = take (p + length chunk) B" "s' \<le> p + length chunk"
      "p + length chunk \<le> length B" "faithful (drop (p + length chunk - s') B) rs"
      "e = Some REof \<longrightarrow> p + length chunk = length B" "chunk = [] \<or> s' = 0"
      and st1: "waiting B K out st1 w" and p1: "fs_pending st1 = take (p + length chunk) B"
      and len: "length (fs_pending st1) = p + length chunk"
      and step: "(r, st', w') =
        (if chunk \<noteq> [] \<and> forward_buffered_max < int p + int (length chunk)
         then stream_overflow_buffered env resp chunk (if e = None then rs else ([], e) # rs) st w
         else (case read_ends e (fs_total st1 < 0 \<or> fs_total st1 \<le> int (length (fs_pending st1))) of
                 None \<Rightarrow> forward_buffered env resp rs st1 (int s') w
               | Some FwdDone \<Rightarrow> finish_buffered env resp st1 w
               | Some r \<Rightarrow> (r, st1, w)))" .
    show ?thesis
    proof (cases "chunk \<noteq> [] \<and> forward_buffered_max < int p + int (length chunk)")
      case True
      have f: "faithful (drop (p + length chunk) B) (if e = None then rs else ([], e) # rs)"
        using rd(4-6) True by auto
      show ?thesis using step True stream_overflow_ok [OF Cons.prems(1-3) rd(1,3) f, of env resp r st' w'] by simp
    next
      case no: False
      show ?thesis
      proof (cases e)
        case None
        then have "forward_buffered env resp rs st1 (int s') w = (r, st', w')"
          using step no by (simp add: read_ends_def)
        then show ?thesis using Cons.IH [OF st1 Cons.prems(2) len rd(2,4)] by simp
      next
        case (Some err)
        have "err = REof \<Longrightarrow> fs_pending st1 = B" using p1 rd(5) Some by simp
        then show ?thesis by (rule buffered_read_end [OF st1 Cons.prems(2) _ step [unfolded if_not_P [OF no] Some]])
      qed
    qed
  qed
qed

section \<open>One attempt\<close>

text \<open>What an origin whose entity is \<open>B\<close> may answer: the whole of it, and to a range request also a part
  that says where it starts, or a refusal.\<close>

definition answers :: "bytes \<Rightarrow> http_request \<Rightarrow> up_try \<Rightarrow> bool" where
  "answers B req t =
     (case t of
        Responds resp rs \<Rightarrow>
          (if rs_code resp = 200 then rs_length resp \<in> {-1, int (length B)} \<and> faithful B rs
           else header_get (hr_header req) ''Range'' \<noteq> [] \<and>
             (rs_code resp = 206 \<longrightarrow>
                (\<exists>j \<le> length B. range_ok resp (int j) \<and> faithful (drop j B) rs) \<and>
                range_total resp \<in> {None, Some (int (length B))}))
      | _ \<Rightarrow> True)"

definition stable_origin :: "bytes \<Rightarrow> fwd_env \<Rightarrow> bool" where
  "stable_origin B env = (\<forall>n hp req. answers B req (fe_try env n hp req))"

lemma digits_cut:
  assumes "\<forall>c \<in> set a. is_digit c" and "\<forall>c \<in> set b. is_digit c" and "\<not> is_digit z" and "a @ z # r = b @ z # r'"
  shows "a = b"
  using assms by (metis append_same_eq takeWhile_append2 takeWhile.simps(2) append_Nil2)

lemma range_ok_unique:
  assumes "range_ok resp (int j)" and "range_ok resp (int k)" shows "j = k"
proof -
  obtain r r' where e: "itoa j @ CHR ''-'' # r = itoa k @ CHR ''-'' # r'"
    using assms unfolding range_ok_def has_prefix_iff itoa_int_def by (clarsimp) (metis (no_types))
  have "\<not> is_digit (CHR ''-'')" by code_simp
  then have "itoa j = itoa k" using digits_cut [OF _ _ _ e] itoa_digits_set by blast
  then show ?thesis by simp
qed

lemma header_get_set [simp]: "header_get (header_set k v h) k = v"
  by (simp add: header_get_def header_set_def)

lemma outgoing_range:
  assumes "header_get (hr_header req) ''Range'' = []"
  shows "header_get (hr_header (outgoing req st)) ''Range'' \<noteq> [] \<longleftrightarrow>
     fs_header_sent st \<and> 0 < fs_relayed st \<or> \<not> fs_header_sent st \<and> fs_pending st \<noteq> []"
  using assms by (simp add: outgoing_def)

text \<open>Where the body of an accepted response starts.\<close>

lemma splice_cases:
  assumes a: "answers B (outgoing req st) (Responds resp rs)" and rng: "header_get (hr_header req) ''Range'' = []"
    and st: "waiting B K out st w \<or> relaying B K out st w" and s: "splice resp st = Some (skip, st1)"
  shows "\<exists>k \<le> nat (progress st). skip = int k \<and> faithful (drop (nat (progress st) - k) B) rs \<and>
     (rs_code resp = 200 \<and> k = nat (progress st) \<or> rs_code resp = 206 \<and> k = 0) \<and>
     (waiting B K out st w \<longrightarrow> waiting B K out st1 w) \<and> (relaying B K out st w \<longrightarrow> relaying B K out st1 w) \<and>
     fs_pending st1 = fs_pending st \<and> fs_relayed st1 = fs_relayed st \<and> fs_header_sent st1 = fs_header_sent st \<and>
     (progress st = 0 \<longrightarrow> rs_code resp = 200 \<and> rs_length resp \<in> {-1, int (length B)})"
proof -
  let ?p = "nat (progress st)"
  have prog: "progress st = int ?p" "?p \<le> length B"
    using st by (auto simp: progress_def waiting_def relaying_def) (metis length_take min.cobounded1)+
  have kind: "fs_header_sent st \<and> 0 < fs_relayed st \<or> \<not> fs_header_sent st \<and> fs_pending st \<noteq> [] \<longleftrightarrow> 0 < ?p"
    using st by (auto simp: progress_def waiting_def relaying_def)
  have off: "(if \<not> fs_header_sent st \<and> fs_pending st \<noteq> [] then int (length (fs_pending st)) else fs_relayed st) = int ?p"
    if "0 < ?p" using st that by (auto simp: progress_def waiting_def relaying_def)
  show ?thesis
  proof (cases "0 < ?p")
    case False
    then have "rs_code resp = 200" "rs_length resp \<in> {-1, int (length B)}" "faithful B rs" "skip = 0" "st1 = st"
      using a s kind outgoing_range [OF rng] by (auto simp: answers_def splice_def Let_def split: if_splits)
    then show ?thesis using False by simp
  next
    case True
    show ?thesis
    proof (cases "rs_code resp = 200")
      case c200: True
      then have "skip = int ?p" "st1 = st" "faithful B rs"
        using a s kind True off by (auto simp: answers_def splice_def Let_def split: if_splits)
      then show ?thesis using True prog(1) c200 by (intro exI [of _ ?p]) simp
    next
      case False
      then have c: "rs_code resp = 206" "range_ok resp (int ?p)" "skip = 0"
        "st1 = (if fs_total st < 0 then (case range_total resp of None \<Rightarrow> st | Some n \<Rightarrow> st\<lparr>fs_total := n\<rparr>) else st)"
        using s kind True off by (auto simp: splice_def Let_def split: if_splits)
      obtain j where j: "range_ok resp (int j)" "faithful (drop j B) rs"
        "range_total resp \<in> {None, Some (int (length B))}"
        using a c(1) by (auto simp: answers_def)
      have "j = ?p" by (rule range_ok_unique [OF j(1) c(2)])
      then show ?thesis
        using j c True prog(1) by (intro exI [of _ 0]) (auto simp: waiting_def relaying_def split: if_splits)
    qed
  qed
qed

lemma splice_ok:
  assumes "answers B (outgoing req st) (Responds resp rs)" and "header_get (hr_header req) ''Range'' = []"
    and wr: "waiting B K out st w \<or> relaying B K out st w" and "splice resp st = Some (skip, st1)"
  obtains k where "k \<le> nat (progress st)" "skip = int k" "faithful (drop (nat (progress st) - k) B) rs"
    "waiting B K out st1 w \<or> relaying B K out st1 w" "progress st1 = progress st"
    "progress st = 0 \<longrightarrow> rs_code resp = 200 \<and> rs_length resp \<in> {-1, int (length B)}"
    "rs_code resp = 200 \<and> k = nat (progress st) \<or> rs_code resp = 206 \<and> k = 0"
proof -
  from splice_cases [OF assms] obtain k where k: "k \<le> nat (progress st)" "skip = int k"
    "faithful (drop (nat (progress st) - k) B) rs"
    "rs_code resp = 200 \<and> k = nat (progress st) \<or> rs_code resp = 206 \<and> k = 0"
    "waiting B K out st w \<longrightarrow> waiting B K out st1 w" "relaying B K out st w \<longrightarrow> relaying B K out st1 w"
    "fs_pending st1 = fs_pending st" "fs_relayed st1 = fs_relayed st"
    "progress st = 0 \<longrightarrow> rs_code resp = 200 \<and> rs_length resp \<in> {-1, int (length B)}"
    by (elim exE conjE) blast
  moreover from k(5,6) wr have "waiting B K out st1 w \<or> relaying B K out st1 w" by blast
  moreover from k(7,8) have "progress st1 = progress st" by (simp add: progress_def)
  ultimately show ?thesis by (intro that)
qed

text \<open>Where an accepted response is relayed to, and from which state.\<close>

text \<open>A response with a length: its header goes out first.\<close>

lemma relay_header_out:
  assumes wt: "waiting B K out st w" and pend: "fs_pending st = []" and len: "rs_length resp = int (length B)"
    and code: "rs_code resp = 200" and get: "hr_method req = ''GET''"
    and r: "relay_response env req resp rs (int k) st w = (r, st', w')"
  obtains (sent) st1 w1 where "relaying B K out st1 w1" "fw_cache w1 = fw_cache w" "fs_relayed st1 = 0"
      "relay_forward_body env rs st1 (int k) w1 = (r, st', w')" "fw_tries w1 = fw_tries w"
    | (refused) n where "r = FwdAbort" "savable B K st'" "fw_out w' = out @ take n (forward_header resp False)"
      "framed B (forward_header resp False)" "fw_cache w' = fw_cache w" "\<not> writes_ok env"
proof -
  let ?hdr = "forward_header resp False" and ?st1 = "st\<lparr>fs_total := rs_length resp\<rparr>"
  obtain ok w1 where w1: "write_client env ?hdr w = (ok, w1)" by fastforce
  note o = write_client_out [OF w1]
  have fr_hdr: "framed B ?hdr" by (rule forward_header_framed [OF len])
  have out: "fw_out w = out" and unsent: "\<not> fs_header_sent st" "fs_relayed st = 0" using wt by (simp_all add: waiting_def)
  define st4 where "st4 = (let st3 = ?st1\<lparr>fs_close_after := False, fs_header_sent := True\<rparr> in
      if fs_cache_key st3 = [] then st3
      else if rs_code resp = 200 \<and> fs_total st3 \<le> asset_cache_max_object
      then st3\<lparr>fs_header := ?hdr\<rparr> else st3\<lparr>fs_cache_key := []\<rparr>)"
  have step: "(r, st', w') = (if ok then relay_forward_body env rs st4 (int k) w1
      else (FwdAbort, ?st1\<lparr>fs_close_after := False\<rparr>, w1))"
    using r unsent pend get code len w1
    by (cases ok) (simp_all add: relay_response_def Let_def no_body_status_def st4_def)
  show ?thesis
  proof (cases ok)
    case True
    have rel: "relaying B K out st4 w1" "fs_relayed st4 = 0"
      using wt True o out len fr_hdr pend unfolding st4_def relaying_def waiting_def by (auto simp: Let_def)
    have "fw_tries w1 = fw_tries w" using w1 by (auto simp: write_client_def split: option.splits)
    then show ?thesis using sent [OF rel(1) _ rel(2)] step True o by simp
  next
    case False
    then have "\<not> writes_ok env" using w1 by (auto simp: write_client_def writes_ok_def split: option.splits)
    moreover have "savable B K st'" using step False wt by (auto simp: savable_def waiting_def)
    moreover obtain n where "fw_out w' = out @ take n ?hdr" using step False o out by auto
    ultimately show ?thesis using refused [of n] step False o fr_hdr by simp
  qed
qed

lemma relay_response_cases [consumes 7, case_names relay buffer refused]:
  assumes wr: "waiting B K out st w \<or> relaying B K out st w" and cache: "cache_ok K B (fw_cache w)"
    and k: "k \<le> nat (progress st)" and f: "faithful (drop (nat (progress st) - k) B) rs"
    and get: "hr_method req = ''GET''"
    and fresh: "progress st = 0 \<longrightarrow> rs_code resp = 200 \<and> rs_length resp \<in> {-1, int (length B)}"
    and r: "relay_response env req resp rs (int k) st w = (r, st', w')"
  obtains (relay) st1 w1 where "relaying B K out st1 w1" "cache_ok K B (fw_cache w1)" "fs_relayed st1 = int (nat (progress st))"
      "relay_forward_body env rs st1 (int k) w1 = (r, st', w')" "fw_tries w1 = fw_tries w"
    | (buffer) st1 where "waiting B K out st1 w" "length (fs_pending st1) = nat (progress st)"
      "forward_buffered env resp rs st1 (int k) w = (r, st', w')"
    | (refused) n where "r = FwdAbort" "savable B K st'" "fw_out w' = out @ take n (forward_header resp False)"
      "framed B (forward_header resp False)" "fw_cache w' = fw_cache w" "\<not> writes_ok env"
proof (cases "fs_header_sent st")
  case True
  then have rel: "relaying B K out st w" using wr by (simp add: waiting_def)
  then have p: "fs_relayed st = int (nat (progress st))" by (simp add: progress_def relaying_def)
  have "relay_forward_body env rs st (int k) w = (r, st', w')" using r True by (simp add: relay_response_def)
  from relay [OF rel cache p this refl] show ?thesis .
next
  case False
  then have wt: "waiting B K out st w" using wr by (simp add: relaying_def)
  have p: "length (fs_pending st) = nat (progress st)" using wt by (simp add: progress_def waiting_def)
  show ?thesis
  proof (cases "fs_pending st = []")
    case nopend: False
    then have "forward_buffered env resp rs st (int k) w = (r, st', w')"
      using r False by (simp add: relay_response_def Let_def)
    from buffer [OF wt p this] show ?thesis .
  next
    case pend: True
    then have z: "progress st = 0" "k = 0" using p k wt by (simp_all add: progress_def waiting_def)
    note fr = fresh [rule_format, OF z(1)]
    let ?st1 = "st\<lparr>fs_total := rs_length resp\<rparr>"
    have st1: "waiting B K out ?st1 w" "length (fs_pending ?st1) = nat (progress st)"
      using wt fr p by (simp_all add: waiting_def)
    show ?thesis
    proof (cases "rs_length resp < 0")
      case True
      then have "forward_buffered env resp rs ?st1 (int k) w = (r, st', w')"
        using r False pend get fr by (simp add: relay_response_def Let_def no_body_status_def)
      from buffer [OF st1 this] show ?thesis .
    next
      case big: False
      then have len: "rs_length resp = int (length B)" using fr by simp
      show ?thesis
      proof (rule relay_header_out [OF wt pend len _ get r])
        show "rs_code resp = 200" using fr by simp
      qed (use relay cache z refused in \<open>simp_all\<close>)
    qed
  qed
qed

lemma relay_response_ok:
  assumes wr: "waiting B K out st w \<or> relaying B K out st w" and cache: "cache_ok K B (fw_cache w)"
    and k: "k \<le> nat (progress st)" and f: "faithful (drop (nat (progress st) - k) B) rs"
    and get: "hr_method req = ''GET''"
    and fresh: "progress st = 0 \<longrightarrow> rs_code resp = 200 \<and> rs_length resp \<in> {-1, int (length B)}"
    and r: "relay_response env req resp rs (int k) st w = (r, st', w')"
  shows "fwd_post B K out r st' w'"
  using assms
proof (cases rule: relay_response_cases)
  case (relay st1 w1)
  then show ?thesis using relay_forward_body_ok [OF relay(1-3) k f relay(4)] by simp
next
  case (buffer st1)
  then show ?thesis using forward_buffered_ok [OF buffer(1) cache buffer(2) k f buffer(3)] by simp
next
  case (refused n)
  then show ?thesis using cache sent_ok_part(2) [of B "forward_header resp False" n] by (auto simp: fwd_post_def)
qed

lemma forward_once_ok:
  assumes origin: "stable_origin B env" and st: "waiting B K out st w \<or> relaying B K out st w"
    and cache: "cache_ok K B (fw_cache w)"
    and req: "hr_method req = ''GET''" "header_get (hr_header req) ''Range'' = []"
    and r: "forward_once env req host port st w = (r, st', w')"
  shows "fwd_post B K out r st' w'"
proof -
  define n where "n = fw_tries w"
  define out_req where "out_req = outgoing req st"
  define w1 where "w1 = w\<lparr>fw_tries := n + 1, fw_proxy := fe_dialled env n (fw_proxy w)\<rparr>"
  define w2 where "w2 = w1\<lparr>fw_sent := fw_sent w1 @ [out_req]\<rparr>"
  have keep: "fw_out w2 = fw_out w" "fw_cache w2 = fw_cache w" "fw_out w1 = fw_out w" "fw_cache w1 = fw_cache w"
    by (simp_all add: w1_def w2_def)
  have st2: "waiting B K out st w2 \<or> relaying B K out st w2" "waiting B K out st w1 \<or> relaying B K out st w1"
    using st by (auto simp: waiting_def relaying_def keep)
  have sav: "savable B K st" using st relaying_savable waiting_savable by blast
  obtain pre where pre: "fw_out w = out @ pre" "sent_ok B pre" "\<not> fs_header_sent st \<Longrightarrow> pre = []"
    using st relaying_sent by (metis append.right_neutral relaying_def sent_ok_Nil waiting_def)
  show ?thesis
  proof (cases "fe_try env n (hostname_only host, port) out_req")
    case (DialFails e)
    obtain ok w3 where w3: "write_client env bad_gateway w1 = (ok, w3)" by fastforce
    have "(r, st', w') = (if \<not> fs_header_sent st \<and> is_retryable_dial_error e then (FwdRetry, st, w1)
        else (FwdAbort, st, if fs_header_sent st then w1 else w3))"
      using r DialFails w3 by (auto simp: forward_once_def Let_def n_def out_req_def w1_def split: if_splits)
    then show ?thesis
      using st2 keep cache sav pre write_client_out [OF w3] sent_ok_intros(3) [of B]
      by (auto simp: fwd_post_def split: if_splits)
  next
    case WriteFails
    then have "(r, st', w') = (FwdRetry, st, w1)"
      using r by (simp add: forward_once_def Let_def n_def out_req_def w1_def)
    then show ?thesis using st2 keep cache by (simp add: fwd_post_def)
  next
    case HeaderFails
    then have "(r, st', w') = (FwdRetry, st, w2)"
      using r by (auto simp: forward_once_def Let_def n_def out_req_def w1_def w2_def)
    then show ?thesis using st2 keep cache by (simp add: fwd_post_def)
  next
    case (Responds resp rs)
    have a: "answers B out_req (Responds resp rs)" using origin Responds by (metis stable_origin_def)
    have step: "(r, st', w') = (case splice resp st of None \<Rightarrow> (FwdAbort, st, w2)
        | Some (skip, st1) \<Rightarrow> relay_response env req resp rs skip st1 w2)"
      using r [symmetric] Responds
      by (cases "splice resp st") (auto simp: forward_once_def Let_def n_def out_req_def w1_def w2_def)
    show ?thesis
    proof (cases "splice resp st")
      case None
      then show ?thesis using step sav pre keep cache by (auto simp: fwd_post_def)
    next
      case (Some q)
      obtain skip st1 where q: "q = (skip, st1)" by (cases q)
      from splice_ok [OF a [unfolded out_req_def] req(2) st2(1) Some [unfolded q]] obtain k where k:
        "k \<le> nat (progress st)" "skip = int k" "faithful (drop (nat (progress st) - k) B) rs"
        "waiting B K out st1 w2 \<or> relaying B K out st1 w2" "progress st1 = progress st"
        "progress st = 0 \<longrightarrow> rs_code resp = 200 \<and> rs_length resp \<in> {-1, int (length B)}" .
      have "relay_response env req resp rs (int k) st1 w2 = (r, st', w')" using step Some q k(2) by simp
      from relay_response_ok [OF k(4) _ _ _ req(1) _ this] show ?thesis using k cache keep by simp
    qed
  qed
qed

section \<open>One request\<close>

definition served :: "bytes \<Rightarrow> string \<Rightarrow> bytes \<Rightarrow> bool option \<Rightarrow> fwd_world \<Rightarrow> bool" where
  "served B K out res w =
     (cache_ok K B (fw_cache w) \<and>
      (\<exists>pre. fw_out w = out @ pre \<and> sent_ok B pre \<and> (res = Some True \<longrightarrow> (\<exists>hdr. pre = hdr @ B \<and> framed B hdr))))"

lemma give_up_ok:
  assumes "waiting B K out st w \<or> relaying B K out st w" and "cache_ok K B (fw_cache w)"
  shows "cache_ok K B (fw_cache (give_up env st w)) \<and> (\<exists>pre. fw_out (give_up env st w) = out @ pre \<and> sent_ok B pre)"
proof (cases "fs_header_sent st")
  case True
  then show ?thesis using assms relaying_sent by (auto simp: give_up_def waiting_def)
next
  case False
  obtain ok w1 where w1: "write_client env bad_gateway w = (ok, w1)" by fastforce
  have "fw_out w = out" using assms(1) False by (auto simp: waiting_def relaying_def)
  then show ?thesis
    using False w1 write_client_out [OF w1] assms(2) sent_ok_intros(3) [of B] by (auto simp: give_up_def)
qed

lemma after_stall_ok:
  "fw_cache (after_stall env host st w) = fw_cache w" "fw_out (after_stall env host st w) = fw_out w"
  by (simp_all add: after_stall_def Let_def)

lemma forward_loop_ok:
  assumes "stable_origin B env" and "hr_method req = ''GET''" and "header_get (hr_header req) ''Range'' = []"
    and "waiting B K out st w \<or> relaying B K out st w" and "cache_ok K B (fw_cache w)"
    and "forward_loop env req host port retry n zero st w = (res, w')"
  shows "served B K out res w'"
  using assms(4-)
proof (induction n arbitrary: zero st w)
  case 0
  then show ?case
    using give_up_ok [OF 0(1,2), of env] save_partial_ok [of K B _ st env] relaying_savable waiting_savable
    by (auto simp: served_def)
next
  case (Suc n)
  obtain r st1 w1 where r: "forward_once env req host port st w = (r, st1, w1)" by (metis prod_cases3)
  note ok = forward_once_ok [OF assms(1) Suc.prems(1,2) assms(2,3) r]
  show ?case
  proof (cases r)
    case FwdDone
    then obtain hdr where h: "fw_out w1 = out @ hdr @ B" "if fs_close_after st1 then closing hdr else framed B hdr"
      "cache_ok K B (fw_cache w1)" using ok by (auto simp: fwd_post_def)
    then have "sent_ok B (hdr @ B)" using sent_ok_part(1) [of B hdr "length B"] by (simp split: if_splits)
    then show ?thesis using Suc.prems(3) r FwdDone h by (auto simp: served_def split: if_splits)
  next
    case FwdAbort
    then show ?thesis using Suc.prems(3) r ok save_partial_ok [of K B w1 st1 env] by (auto simp: served_def fwd_post_def)
  next
    case FwdBlocked
    then show ?thesis using Suc.prems(3) r ok by (auto simp: served_def fwd_post_def)
  next
    case FwdRetry
    then have wr: "waiting B K out st1 w1 \<or> relaying B K out st1 w1" "cache_ok K B (fw_cache w1)"
      using ok by (simp_all add: fwd_post_def)
    then have sav: "savable B K st1" using relaying_savable waiting_savable by blast
    let ?zero = "if progress st < progress st1 then 0 else zero + 1"
    have step: "(res, w') = (if \<not> retry then (Some False, give_up env st1 w1)
        else if forward_resume_attempts \<le> ?zero then (Some False, save_partial env st1 (give_up env st1 w1))
        else forward_loop env req host port retry n ?zero st1 (after_stall env host st1 w1))"
      using Suc.prems(3) [symmetric] r FwdRetry by (simp only: forward_loop.simps prod.case outcome.case Let_def)
    have next_ok: "waiting B K out st1 (after_stall env host st1 w1) \<or> relaying B K out st1 (after_stall env host st1 w1)"
      "cache_ok K B (fw_cache (after_stall env host st1 w1))"
      using wr by (auto simp: after_stall_ok waiting_def relaying_def)
    show ?thesis
      using step Suc.IH [OF next_ok] give_up_ok [OF wr, of env] save_partial_ok [OF _ sav]
      by (simp add: served_def split: if_splits)
  qed
qed

lemma write_both_prefix:
  assumes "write_both env a b w = (ok, w1)"
  shows "fw_cache w1 = fw_cache w" "\<exists>n. fw_out w1 = fw_out w @ take n (a @ b)"
proof -
  obtain ok1 w2 where w2: "write_client env a w = (ok1, w2)" by fastforce
  obtain ok3 w3 where w3: "write_client env b w2 = (ok3, w3)" by fastforce
  have q: "w1 = (if ok1 then w3 else w2)" using assms w2 w3 by (cases ok1) (simp_all add: write_both_def)
  note o2 = write_client_out [OF w2] and o3 = write_client_out [OF w3]
  show "fw_cache w1 = fw_cache w" using q o2 o3 by simp
  show "\<exists>n. fw_out w1 = fw_out w @ take n (a @ b)"
  proof (cases ok1)
    case True
    then obtain n where "fw_out w1 = fw_out w @ take (length a + n) (a @ b)" using q o2 o3 by auto
    then show ?thesis by blast
  next
    case False
    then obtain n where "fw_out w1 = fw_out w @ take n a" using q o2 by auto
    moreover have "take n a = take (min n (length a)) (a @ b)" by (simp add: min_def)
    ultimately show ?thesis by metis
  qed
qed

lemma write_both_ok:
  assumes w1: "write_both env h D w = (ok, w1)" and h: "framed B h" and D: "D = take (length D) B"
    and c: "cache_ok K B (fw_cache w)"
  shows "cache_ok K B (fw_cache w1) \<and> (\<exists>pre. fw_out w1 = fw_out w @ pre \<and> sent_ok B pre) \<and>
    (ok \<longrightarrow> fw_out w1 = fw_out w @ h @ D)"
proof -
  obtain ok1 w2 where w2: "write_client env h w = (ok1, w2)" by fastforce
  obtain ok3 w3 where w3: "write_client env D w2 = (ok3, w3)" by fastforce
  have q: "ok = (ok1 \<and> ok3)" "w1 = (if ok1 then w3 else w2)"
    using w1 w2 w3 by (cases ok1; simp add: write_both_def)+
  have m: "fw_cache w2 = fw_cache w" "ok1 \<longrightarrow> fw_out w2 = fw_out w @ h" "\<exists>m. fw_out w2 = fw_out w @ take m h"
    using write_client_out [OF w2] by auto
  have k: "fw_cache w3 = fw_cache w" "ok3 \<longrightarrow> fw_out w3 = fw_out w2 @ D" "\<exists>k. fw_out w3 = fw_out w2 @ take k D"
    using write_client_out [OF w3] m by auto
  have "take k D = take (min k (length D)) B" for k using D by (metis take_take)
  then show ?thesis using q m k c sent_ok_part [of B h] h by (cases ok1) auto
qed

text \<open>How a request is served: by the loop of attempts, from the cache, or not past the stored part.\<close>

lemma serve_request_cases [consumes 3, case_names loop written cut]:
  assumes key: "asset_key req host \<in> {[], K}" and cache: "cache_ok K B (fw_cache w)"
    and res: "serve_request env req host port w = (res, w')"
  obtains (loop) st w1 where "waiting B K (fw_out w) st w1 \<or> relaying B K (fw_out w) st w1" "cache_ok K B (fw_cache w1)"
      "fw_tries w1 = fw_tries w" "forward_loop env req host port (can_retry req) forward_max_attempts 0 st w1 = (res, w')"
    | (written) h ok w1 where "write_both env h B w1 = (ok, w')" "framed B h" "cache_ok K B (fw_cache w1)"
      "fw_out w1 = fw_out w" "res = Some ok"
    | (cut) h D w1 where "write_both env h D w1 = (False, w')" "framed B h" "D = take (length D) B"
      "cache_ok K B (fw_cache w1)" "fw_out w1 = fw_out w" "res = Some False"
proof -
  let ?key = "asset_key req host"
  have new: "waiting B K (fw_out w) (new_forward_state ?key) w1" if "fw_out w1 = fw_out w" for w1
    using that key by (auto simp: waiting_def new_forward_state_def)
  obtain hit c where g: "cache_get K (fw_cache w) = (hit, c)" by fastforce
  have c: "cache_ok K B c" using cache_ok_get [OF cache] g by simp
  let ?w = "w\<lparr>fw_cache := c\<rparr>"
  consider "?key = []" | (hit) r where "?key = K" "?key \<noteq> []" "hit = Some r"
    | (none) "?key = K" "?key \<noteq> []" "hit = None" "get_partial K c = None"
    | (part) pa where "?key = K" "?key \<noteq> []" "hit = None" "get_partial K c = Some pa"
    using key by fastforce
  then show thesis
  proof cases
    case 1
    then show thesis using loop [OF disjI1 [OF new] cache] res by (simp add: serve_request_def Let_def)
  next
    case (hit r)
    then have "cache_lookup K (fw_cache w) = Some r" using g by (simp add: cache_lookup_def)
    then have r: "cr_body r = B" "framed B (cr_header r)" "\<not> cr_close r" using cache by (auto simp: cache_ok_def)
    obtain ok w1 where w1: "write_both env (cr_header r) B ?w = (ok, w1)" by fastforce
    have "(res, w') = (Some ok, w1)" using res hit g w1 r by (cases ok) (simp_all add: serve_request_def Let_def)
    then show thesis using written [OF _ r(2), of ?w ok] w1 c by simp
  next
    case none
    then show thesis using loop [OF disjI1 [OF new], of ?w] res g c by (simp add: serve_request_def Let_def)
  next
    case (part pa)
    then have pa: "pa_body pa = take (length (pa_body pa)) B" "framed B (pa_header pa)"
      "pa_total pa = int (length B)" "\<not> pa_close pa" using c by (auto simp: cache_ok_def)
    then have le: "length (pa_body pa) \<le> length B" by (metis length_take min.cobounded1)
    obtain ok w1 where w1: "write_both env (pa_header pa) (pa_body pa) ?w = (ok, w1)" by fastforce
    have b: "cache_ok K B (fw_cache w1)" "ok \<Longrightarrow> fw_out w1 = fw_out w @ pa_header pa @ pa_body pa" "fw_tries w1 = fw_tries w"
      using write_both_ok [OF w1 pa(2,1)] w1 c
      by (auto simp: write_both_def write_client_def split: option.splits prod.splits bool.splits)
    show thesis
    proof (cases ok)
      case True
      then have "relaying B K (fw_out w) (resume_state K pa) w1"
        using b(2) pa le by (auto simp: relaying_def resume_state_def new_forward_state_def)
      then show thesis using loop [of "resume_state K pa" w1] res part g w1 b True by (simp add: serve_request_def Let_def)
    next
      case False
      then show thesis using cut [OF _ pa(2,1), of ?w] res part g w1 c by (simp add: serve_request_def Let_def)
    qed
  qed
qed

lemma serve_request_ok:
  assumes origin: "stable_origin B env" and req: "hr_method req = ''GET''" "header_get (hr_header req) ''Range'' = []"
    and key: "asset_key req host \<in> {[], K}" and cache: "cache_ok K B (fw_cache w)"
    and res: "serve_request env req host port w = (res, w')"
  shows "served B K (fw_out w) res w'"
  using key cache res
proof (cases rule: serve_request_cases)
  case (loop st w1)
  then show ?thesis using forward_loop_ok [OF origin req] by blast
next
  case (written h ok w1)
  then show ?thesis using write_both_ok [OF written(1,2) _ written(3)] by (auto simp: served_def)
next
  case (cut h D w1)
  then show ?thesis using write_both_ok [OF cut(1-4)] by (auto simp: served_def)
qed


setup_lifting type_definition_chooser

lift_definition first_chooser :: chooser is first_key by (rule first_key_ok)

text \<open>A sample origin with the entity \<open>ab\<close>: a first answer that stalls after a byte, and range requests.\<close>

definition sample_try :: "nat \<Rightarrow> string \<times> string \<Rightarrow> http_request \<Rightarrow> up_try" where
  "sample_try n hp req =
     (if 0 < n \<and> header_get (hr_header req) ''Range'' = ''bytes=1-'' then
        Responds \<lparr>rs_code = 206, rs_status = ''206 Partial Content'',
            rs_header = [(''Content-Range'', [''bytes 1-1/2''])], rs_length = 1\<rparr> [(''b'', Some REof)]
      else Responds \<lparr>rs_code = 200, rs_status = ''200 OK'', rs_header = [], rs_length = 2\<rparr>
        (if n = 0 then [(''a'', None), ([], Some RTimeout)] else [(''ab'', Some REof)]))"

definition sample_env :: fwd_env where
  "sample_env = \<lparr>fe_try = sample_try, fe_write = \<lambda>_. None, fe_dialled = \<lambda>_ p. p, fe_waited = \<lambda>_ p. p,
     fe_clock = \<lambda>_. 0, fe_pick = first_chooser\<rparr>"

definition sample_request :: http_request where
  "sample_request = \<lparr>hr_method = ''GET'', hr_host = ''h'',
     hr_url = \<lparr>u_scheme = ''http'', u_opaque = [], u_user = None, u_host = ''h'', u_path = ''/app-0123456789ab.js'',
       u_query = None, u_fragment = []\<rparr>, hr_header = [], hr_body = Some []\<rparr>"

definition sample_world :: fwd_world where
  "sample_world = \<lparr>fw_out = [], fw_writes = 0, fw_cache = new_asset_cache asset_cache_budget,
     fw_proxy = new_mixed_proxy 0 None, fw_tries = 0, fw_sent = []\<rparr>"

lemma new_cache_ok: "0 \<le> b \<Longrightarrow> cache_ok K B (new_asset_cache b)"
  using new_cache_inv [of b]
  by (simp add: cache_ok_def cache_lookup_def cache_get_def get_partial_def new_asset_cache_def)

lemma sample_range:
  "range_ok \<lparr>rs_code = 206, rs_status = ''206 Partial Content'',
      rs_header = [(''Content-Range'', [''bytes 1-1/2''])], rs_length = 1\<rparr> 1"
  "range_total \<lparr>rs_code = 206, rs_status = ''206 Partial Content'',
      rs_header = [(''Content-Range'', [''bytes 1-1/2''])], rs_length = 1\<rparr> = Some 2"
  by code_simp+

lemma sample_origin: "stable_origin ''ab'' sample_env"
  using sample_range
  by (auto simp: stable_origin_def sample_env_def sample_try_def answers_def Let_def intro!: exI [of _ 1])

lemma sample_cache: "cache_ok K B (fw_cache sample_world)"
  using new_cache_ok by (simp add: sample_world_def asset_cache_budget_def)


section \<open>Recovery\<close>

text \<open>Reads that end without an error of another kind than a broken or stalled connection, and reads
  that deliver all of \<open>D\<close> and then end.\<close>

definition mild :: "reads \<Rightarrow> bool" where
  "mild rs = list_all (\<lambda>(b, e). e \<noteq> Some ROther) rs"

fun complete :: "bytes \<Rightarrow> reads \<Rightarrow> bool" where
  "complete D [] = False"
| "complete D ((b, e) # rs) =
     (case e of
        None \<Rightarrow> take (length b) D = b \<and> complete (drop (length b) D) rs
      | Some REof \<Rightarrow> b = D
      | _ \<Rightarrow> False)"

text \<open>The answer of an attempt: nothing but an interruption, or, when \<open>c\<close>, all of the part asked for.\<close>

definition attempt_ok :: "bytes \<Rightarrow> bool \<Rightarrow> http_request \<Rightarrow> up_try \<Rightarrow> bool" where
  "attempt_ok B c req t =
     (case t of
        Responds resp rs \<Rightarrow> mild rs \<and>
          (rs_code resp = 200 \<and> (c \<longrightarrow> complete B rs) \<or>
           rs_code resp = 206 \<and>
           (\<forall>k \<le> length B. header_get (hr_header req) ''Range'' = ''bytes='' @ itoa k @ ''-'' \<longrightarrow>
              range_ok resp (int k) \<and> (c \<longrightarrow> complete (drop k B) rs)))
      | DialFails _ \<Rightarrow> False
      | _ \<Rightarrow> \<not> c)"

definition live_post :: "bool \<Rightarrow> fwd_world \<Rightarrow> outcome \<Rightarrow> forward_state \<Rightarrow> fwd_world \<Rightarrow> bool" where
  "live_post c w r st' w' =
     ((r = FwdDone \<and> \<not> fs_close_after st' \<or> r = FwdRetry \<and> \<not> c) \<and> fw_tries w' = fw_tries w)"

lemma commit_tries: "commit_asset_cache st w = (st', w') \<Longrightarrow> fw_tries w' = fw_tries w \<and> fs_close_after st' = fs_close_after st"
  by (auto simp: commit_asset_cache_def split: if_splits)

lemma complete_read:
  assumes "complete (drop (p - s) B) ((b, None) # rs)" and "s \<le> p" and "p \<le> length B"
    and "drop_skip (int s) b = (chunk, int s')"
  shows "complete (drop (p + length chunk - s') B) rs"
proof -
  have "p + length chunk - s' = p - s + length b"
    using assms(2,4) by (auto simp: drop_skip_def Let_def min_def split: if_splits)
  then show ?thesis using assms(1) by (simp add: add.commute)
qed

lemma relay_live:
  assumes "writes_ok env" and "relaying B K out st w" and "fs_relayed st = int p" and "s \<le> p"
    and "mild rs" and "cache_ok K B (fw_cache w)" and "faithful (drop (p - s) B) rs"
    and "relay_forward_body env rs st (int s) w = (r, st', w')"
  shows "live_post (complete (drop (p - s) B) rs) w r st' w'"
  using assms(2-)
proof (induction rs arbitrary: st w p s)
  case Nil
  have "\<not> fs_close_after st" using Nil.prems(1) by (simp add: relaying_def)
  then show ?case using Nil.prems(7) commit_tries by (auto simp: live_post_def split: if_splits)
next
  case (Cons x rs)
  obtain b e where x: "x = (b, e)" by (cases x)
  have rel: "p \<le> length B" "fs_total st = int (length B)" "\<not> fs_close_after st"
    using Cons.prems(1,2) by (simp_all add: relaying_def)
  show ?case
  proof (cases "p = length B")
    case True
    then have "r = FwdDone" "commit_asset_cache st w = (st', w')" using Cons.prems(2,7) rel(2) by (simp_all add: x)
    then show ?thesis using rel(3) commit_tries by (simp add: live_post_def)
  next
    case False
    with Cons.prems(1,5,2,3) Cons.prems(6,7) [unfolded x] show ?thesis
    proof (cases rule: relay_read)
      case (on chunk s' st1 w1)
      have tr: "fw_tries w1 = fw_tries w" using on(8) assms(1) by simp
      have t1: "fs_total st1 = int (length B)" "\<not> fs_close_after st1" using on(5) by (simp_all add: relaying_def)
      show ?thesis
      proof (cases e)
        case None
        then have "relay_forward_body env rs st1 (int s') w1 = (r, st', w')" "mild rs"
          using on(9) Cons.prems(4) by (simp_all add: read_ends_def mild_def x)
        from Cons.IH [OF on(5,6,2) this(2) on(7,3) this(1)] show ?thesis
          using complete_read [OF _ Cons.prems(3) rel(1)] on(1) tr by (auto simp: live_post_def x None)
      next
        case (Some err)
        then show ?thesis
          using on(9) tr t1 on(6,4) Cons.prems(4) commit_tries [OF sym, of st' w' st1 w1]
          by (cases err) (auto simp: read_ends_def live_post_def mild_def x)
      qed
    qed (use assms(1) in simp)
  qed
qed

lemma finish_live:
  assumes "writes_ok env" and "finish_buffered env resp st w = (r, st', w')"
  shows "live_post c w r st' w'"
  using assms(2) commit_tries
  by (auto simp: finish_buffered_def Let_def writes_okD [OF assms(1)] live_post_def split: if_splits)

lemma buffered_live:
  assumes "writes_ok env" and "int (length B) \<le> forward_buffered_max"
    and "waiting B K out st w" and "length (fs_pending st) = p" and "s \<le> p"
    and "mild rs" and "faithful (drop (p - s) B) rs"
    and "forward_buffered env resp rs st (int s) w = (r, st', w')"
  shows "live_post (complete (drop (p - s) B) rs) w r st' w'"
  using assms(3-)
proof (induction rs arbitrary: st p s)
  case Nil
  show ?case
  proof (cases "0 \<le> fs_total st \<and> fs_total st \<le> int p")
    case True
    then show ?thesis using Nil.prems(2,6) finish_live [OF assms(1)] by simp
  next
    case False
    then show ?thesis using Nil.prems(2,6) by (auto simp: live_post_def)
  qed
next
  case (Cons x rs)
  obtain b e where x: "x = (b, e)" by (cases x)
  show ?case
  proof (cases "0 \<le> fs_total st \<and> fs_total st \<le> int p")
    case True
    then show ?thesis using Cons.prems(2,6) finish_live [OF assms(1)] by (simp add: x)
  next
    case False
    have pB: "p \<le> length B" and tot: "fs_total st \<in> {-1, int (length B)}"
      using Cons.prems(1,2) by (auto simp: waiting_def)
    from buffered_read [OF Cons.prems(1-3) Cons.prems(5,6) [unfolded x] False]
    obtain chunk s' st1 where ds: "drop_skip (int s) b = (chunk, int s')" and "take p B @ chunk = take (p + length chunk) B"
      and rd: "s' \<le> p + length chunk" "p + length chunk \<le> length B" "faithful (drop (p + length chunk - s') B) rs"
      "e = Some REof \<longrightarrow> p + length chunk = length B" and "chunk = [] \<or> s' = 0"
      and st1: "waiting B K out st1 w" and "fs_pending st1 = take (p + length chunk) B" and len: "length (fs_pending st1) = p + length chunk"
      and step: "(r, st', w') =
        (if chunk \<noteq> [] \<and> forward_buffered_max < int p + int (length chunk)
         then stream_overflow_buffered env resp chunk (if e = None then rs else ([], e) # rs) st w
         else (case read_ends e (fs_total st1 < 0 \<or> fs_total st1 \<le> int (length (fs_pending st1))) of
                 None \<Rightarrow> forward_buffered env resp rs st1 (int s') w
               | Some FwdDone \<Rightarrow> finish_buffered env resp st1 w
               | Some r \<Rightarrow> (r, st1, w)))" .
    have fits: "\<not> (chunk \<noteq> [] \<and> forward_buffered_max < int p + int (length chunk))"
      using rd(2) assms(2) by simp
    show ?thesis
    proof (cases e)
      case None
      then have "forward_buffered env resp rs st1 (int s') w = (r, st', w')" "mild rs"
        using step fits Cons.prems(4) by (simp_all add: read_ends_def mild_def x)
      from Cons.IH [OF st1 len rd(1) this(2) rd(3) this(1)] show ?thesis
        using complete_read [OF _ Cons.prems(3) pB] ds by (auto simp: live_post_def x None)
    next
      case (Some err)
      have "err = REof \<Longrightarrow> fs_total st1 < 0 \<or> fs_total st1 \<le> int (p + length chunk)"
        using Some rd(4) st1 by (auto simp: waiting_def)
      then show ?thesis
        using step fits Some len Cons.prems(4) finish_live [OF assms(1), of resp st1 w r st' w']
        by (cases err) (auto simp: read_ends_def live_post_def mild_def x)
    qed
  qed
qed

lemma outgoing_resume:
  assumes "header_get (hr_header req) ''Range'' = []" and "waiting B K out st w \<or> relaying B K out st w"
  shows "header_get (hr_header (outgoing req st)) ''Range'' =
     (if 0 < progress st then ''bytes='' @ itoa (nat (progress st)) @ ''-'' else [])"
  using assms by (auto simp: outgoing_def progress_def waiting_def relaying_def itoa_int_def)

lemma forward_once_live:
  assumes origin: "stable_origin B env" and small: "int (length B) \<le> forward_buffered_max" and wok: "writes_ok env"
    and st: "waiting B K out st w \<or> relaying B K out st w" and cache: "cache_ok K B (fw_cache w)"
    and req: "hr_method req = ''GET''" "header_get (hr_header req) ''Range'' = []"
    and try_ok: "\<forall>hp req. attempt_ok B c req (fe_try env (fw_tries w) hp req)"
    and r: "forward_once env req host port st w = (r, st', w')"
  shows "(r = FwdDone \<and> \<not> fs_close_after st' \<or> r = FwdRetry \<and> \<not> c) \<and> fw_tries w' = fw_tries w + 1"
proof -
  define out_req where "out_req = outgoing req st"
  define w2 where "w2 = w\<lparr>fw_tries := fw_tries w + 1, fw_proxy := fe_dialled env (fw_tries w) (fw_proxy w),
    fw_sent := fw_sent w @ [out_req]\<rparr>"
  let ?t = "fe_try env (fw_tries w) (hostname_only host, port) out_req"
  have t: "attempt_ok B c out_req ?t" "answers B out_req ?t" using try_ok origin by (simp_all add: stable_origin_def)
  show ?thesis
  proof (cases ?t)
    case (Responds resp rs)
    have st2: "waiting B K out st w2 \<or> relaying B K out st w2" "cache_ok K B (fw_cache w2)"
      using st cache by (auto simp: w2_def waiting_def relaying_def)
    let ?p = "nat (progress st)"
    have pB: "?p \<le> length B" "progress st = int ?p"
      using st by (auto simp: progress_def waiting_def relaying_def) (metis length_take min.cobounded1)+
    have rg: "header_get (hr_header out_req) ''Range'' = (if 0 < progress st then ''bytes='' @ itoa ?p @ ''-'' else [])"
      unfolding out_req_def by (rule outgoing_resume [OF req(2) st])
    have m: "mild rs" "rs_code resp \<noteq> 200 \<Longrightarrow> rs_code resp = 206 \<and> 0 < progress st \<and> range_ok resp (int ?p) \<and>
        (c \<longrightarrow> complete (drop ?p B) rs)" "rs_code resp = 200 \<Longrightarrow> c \<longrightarrow> complete B rs"
      using t Responds rg pB(1) by (auto simp: attempt_ok_def answers_def split: if_splits)
    have "splice resp st \<noteq> None"
      using m(2) pB(2) st by (auto simp: splice_def Let_def progress_def waiting_def relaying_def split: if_splits)
    then obtain skip st1 where s: "splice resp st = Some (skip, st1)" by auto
    have a: "answers B (outgoing req st) (Responds resp rs)" using t(2) Responds by (simp add: out_req_def)
    from splice_ok [OF a req(2) st2(1) s] obtain k where k: "k \<le> ?p" "skip = int k" "faithful (drop (?p - k) B) rs"
      "waiting B K out st1 w2 \<or> relaying B K out st1 w2" "progress st1 = progress st"
      "progress st = 0 \<longrightarrow> rs_code resp = 200 \<and> rs_length resp \<in> {-1, int (length B)}"
      "rs_code resp = 200 \<and> k = ?p \<or> rs_code resp = 206 \<and> k = 0" .
    have fin: "c \<longrightarrow> complete (drop (?p - k) B) rs" using m(2,3) k(7) by auto
    have step: "relay_response env req resp rs (int k) st1 w2 = (r, st', w')"
      using r Responds s k(2) by (simp add: forward_once_def Let_def out_req_def [symmetric] w2_def)
    have fresh: "progress st1 = 0 \<longrightarrow> rs_code resp = 200 \<and> rs_length resp \<in> {-1, int (length B)}" using k(5,6) by simp
    note k' = k(1,3) [folded k(5)]
    have "live_post c w2 r st' w'"
      using k(4) st2(2) k' req(1) fresh step
    proof (cases rule: relay_response_cases)
      case (relay st3 w3)
      from relay_live [OF wok relay(1,3) k'(1) m(1) relay(2) k'(2) relay(4)] show ?thesis
        using fin relay(5) by (auto simp: live_post_def k(5))
    next
      case (buffer st3)
      from buffered_live [OF wok small buffer(1,2) k'(1) m(1) k'(2) buffer(3)] show ?thesis
        using fin by (auto simp: live_post_def k(5))
    qed (use wok in simp)
    then show ?thesis by (simp add: live_post_def w2_def)
  qed (use t(1) r in \<open>auto simp: attempt_ok_def forward_once_def Let_def out_req_def [symmetric]\<close>)
qed

definition attempt_at :: "bytes \<Rightarrow> fwd_env \<Rightarrow> nat \<Rightarrow> bool \<Rightarrow> bool" where
  "attempt_at B env n c = (\<forall>hp req. attempt_ok B c req (fe_try env n hp req))"

lemma forward_loop_live:
  assumes "stable_origin B env" and "int (length B) \<le> forward_buffered_max" and "writes_ok env"
    and "hr_method req = ''GET''" and "header_get (hr_header req) ''Range'' = []"
    and "waiting B K out st w \<or> relaying B K out st w" and "cache_ok K B (fw_cache w)"
    and "\<forall>i < m. attempt_at B env (fw_tries w + i) False" and "attempt_at B env (fw_tries w + m) True"
    and "zero + m < forward_resume_attempts" and "m < n"
  shows "fst (forward_loop env req host port True n zero st w) = Some True"
  using assms(6-)
proof (induction n arbitrary: m zero st w)
  case (Suc n)
  obtain r st1 w1 where r: "forward_once env req host port st w = (r, st1, w1)" by (metis prod_cases3)
  note ok = forward_once_ok [OF assms(1) Suc.prems(1,2) assms(4,5) r]
  have live: "attempt_at B env (fw_tries w) c \<Longrightarrow>
      (r = FwdDone \<and> \<not> fs_close_after st1 \<or> r = FwdRetry \<and> \<not> c) \<and> fw_tries w1 = fw_tries w + 1" for c
    using forward_once_live [OF assms(1-3) Suc.prems(1,2) assms(4,5) _ r] unfolding attempt_at_def by blast
  show ?case
  proof (cases m)
    case 0
    then have "r = FwdDone \<and> \<not> fs_close_after st1" using live [of True] Suc.prems(4) by simp
    then show ?thesis using r by simp
  next
    case (Suc m')
    then have l: "r = FwdDone \<and> \<not> fs_close_after st1 \<or> r = FwdRetry" "fw_tries w1 = Suc (fw_tries w)"
      using live [of False] Suc.prems(3) by auto
    show ?thesis
    proof (cases "r = FwdDone")
      case True
      then show ?thesis using l r by simp
    next
      case False
      then have re: "r = FwdRetry" using l by simp
      then have wr: "waiting B K out st1 w1 \<or> relaying B K out st1 w1" "cache_ok K B (fw_cache w1)"
        using ok by (simp_all add: fwd_post_def)
      let ?zero = "if progress st < progress st1 then 0 else zero + 1"
      let ?w = "after_stall env host st1 w1"
      have n: "waiting B K out st1 ?w \<or> relaying B K out st1 ?w" "cache_ok K B (fw_cache ?w)" "fw_tries ?w = Suc (fw_tries w)"
        using wr l(2) by (auto simp: after_stall_def Let_def waiting_def relaying_def)
      have z: "?zero + m' < forward_resume_attempts" "m' < n" using Suc.prems(5,6) Suc by simp_all
      have later: "\<forall>i < m'. attempt_at B env (fw_tries ?w + i) False" "attempt_at B env (fw_tries ?w + m') True"
        using Suc.prems(3) [rule_format, of "Suc _"] Suc.prems(4) Suc n(3) by simp_all
      have "forward_loop env req host port True (Suc n) zero st w = forward_loop env req host port True n ?zero st1 ?w"
        using r re z(1) by (simp add: Let_def)
      then show ?thesis using Suc.IH [OF n(1,2) later z] by simp
    qed
  qed
qed simp

lemma serve_request_live:
  assumes origin: "stable_origin B env" "int (length B) \<le> forward_buffered_max" "writes_ok env"
    and req: "hr_method req = ''GET''" "header_get (hr_header req) ''Range'' = []"
    and key: "asset_key req host \<in> {[], K}" and cache: "cache_ok K B (fw_cache w)"
    and tries: "\<forall>i < m. attempt_at B env (fw_tries w + i) False" "attempt_at B env (fw_tries w + m) True"
    and m: "m < forward_resume_attempts"
  shows "fst (serve_request env req host port w) = Some True"
proof -
  obtain res w' where r: "serve_request env req host port w = (res, w')" by fastforce
  have "res = Some True"
    using key cache r
  proof (cases rule: serve_request_cases)
    case (loop st w1)
    have "can_retry req" using req by (simp add: can_retry_def)
    moreover have "0 + m < forward_resume_attempts" "m < forward_max_attempts"
      using m by (simp_all add: forward_resume_attempts_def forward_max_attempts_def)
    ultimately show ?thesis using forward_loop_live [OF origin req loop(1,2), of m 0 forward_max_attempts host port] loop(3,4) tries
      by simp
  qed (simp_all add: write_both_def writes_okD [OF origin(3)])
  with r show ?thesis by simp
qed


lemma sample_recovers: "attempt_at ''ab'' sample_env 0 False" "attempt_at ''ab'' sample_env 1 True" "writes_ok sample_env"
proof -
  have "k = 1" if "''bytes=1-'' = ''bytes='' @ itoa k @ ''-''" for k
  proof -
    have "''bytes=1-'' = ''bytes='' @ itoa 1 @ ''-''" by code_simp
    then have "itoa k = itoa 1" using that by (metis append_same_eq same_append_eq)
    then show ?thesis by simp
  qed
  then show "attempt_at ''ab'' sample_env 0 False" "attempt_at ''ab'' sample_env 1 True" "writes_ok sample_env"
    using sample_range
    by (auto simp: attempt_at_def attempt_ok_def sample_env_def sample_try_def mild_def writes_ok_def)
qed


end
