(* ===== verification/HttpProxy.thy ===== *)
theory HttpProxy
  imports Seamless
begin

text \<open>
  Properties of a whole client connection of the HTTP proxy: the credentials gate, and what happens
  to a request whose saved progress its origin no longer continues.
\<close>

section \<open>The credentials gate\<close>

text \<open>The connection after the arrivals of \<open>good\<close>: whether it is still being served.\<close>

fun http_prefix :: "fwd_env \<Rightarrow> proxy_auth option \<Rightarrow> arrival list \<Rightarrow> fwd_world \<Rightarrow> bool \<times> fwd_world" where
  "http_prefix env auth [] w = (True, w)"
| "http_prefix env auth ((req, evs) # rest) w =
     (if required auth \<and> \<not> check_http_auth (the auth) req
      then (False, snd (write_client env auth_required w))
      else case handle_forward env req evs w of
        (Some True, w') \<Rightarrow> http_prefix env auth rest w'
      | (_, w') \<Rightarrow> (False, w'))"

lemma handle_http_append:
  assumes "\<forall>(req, evs) \<in> set good. hr_method req \<noteq> ''CONNECT''"
  shows "handle_http env auth (good @ rest) w =
     (case http_prefix env auth good w of (True, w') \<Rightarrow> handle_http env auth rest w' | (False, w') \<Rightarrow> w')"
  using assms
proof (induction good arbitrary: w)
  case (Cons x good)
  obtain req evs where x: "x = (req, evs)" by (cases x)
  obtain res w' where f: "handle_forward env req evs w = (res, w')" by fastforce
  have ih: "handle_http env auth (good @ rest) w' =
     (case http_prefix env auth good w' of (True, w') \<Rightarrow> handle_http env auth rest w' | (False, w') \<Rightarrow> w')"
    using Cons by simp
  show ?case using Cons.prems ih by (cases "res = Some True") (auto simp: x f split: option.splits bool.splits)
qed simp

lemma check_http_auth_presents:
  assumes "check_http_auth a req"
  shows "\<exists>c. header_get (hr_header req) ''Proxy-Authorization'' = ''Basic '' @ c \<and>
     b64_decode c = Some (au_user a @ '':'' @ au_pass a)"
proof -
  let ?h = "header_get (hr_header req) ''Proxy-Authorization''"
  obtain c where c: "?h = ''Basic '' @ c" using assms by (auto simp: check_http_auth_def Let_def has_prefix_iff split: if_splits)
  obtain raw where raw: "b64_decode c = Some raw" "cut_byte (CHR '':'') raw = (au_user a, au_pass a, True)"
    using assms by (auto simp: check_http_auth_def c trim_prefix_append [of "''Basic ''" c, simplified] split: if_splits option.splits prod.splits)
  then show ?thesis using c cut_byte_True [OF raw(2)] by simp
qed

text \<open>C18: The credentials gate of the HTTP proxy: on a connection that requires credentials, a request
  whose \<open>Proxy-Authorization\<close> is not \<open>Basic\<close> with the base64 of the configured user, a colon and the
  configured password ends the connection with a 407. Nothing is dialled or sent for it or for what
  follows it, and nothing about the proxy changes.\<close>

theorem http_auth_gate:
  assumes "required (Some a)"
    and "\<forall>(req, evs) \<in> set good. hr_method req \<noteq> ''CONNECT''"
    and "\<forall>c. header_get (hr_header req) ''Proxy-Authorization'' = ''Basic '' @ c \<longrightarrow>
           b64_decode c \<noteq> Some (au_user a @ '':'' @ au_pass a)"
    and "before = handle_http env (Some a) good w"
    and "after = handle_http env (Some a) (good @ (req, evs) # rest) w"
  shows "fw_tries after = fw_tries before \<and> fw_sent after = fw_sent before \<and> fw_cache after = fw_cache before \<and>
    fw_proxy after = fw_proxy before \<and> (\<exists>n. fw_out after = fw_out before @ take n auth_required)"
proof -
  have no: "\<not> check_http_auth a req" using assms(3) check_http_auth_presents by blast
  obtain ok w1 where p: "http_prefix env (Some a) good w = (ok, w1)" by fastforce
  have b: "before = w1" using handle_http_append [OF assms(2), of env "Some a" "[]" w] p assms(4) by (cases ok) simp_all
  show ?thesis
  proof (cases ok)
    case True
    obtain r w2 where w2: "write_client env auth_required w1 = (r, w2)" by fastforce
    have "after = w2"
      using handle_http_append [OF assms(2), of env "Some a" _ w] p assms(1,5) no True w2 by simp
    then show ?thesis using b w2 by (auto simp: write_client_def split: option.splits intro: exI [of _ "length auth_required"])
  next
    case False
    then have "after = w1" using handle_http_append [OF assms(2), of env "Some a" _ w] p assms(5) by simp
    then show ?thesis using b by (auto intro: exI [of _ 0])
  qed
qed

definition sample_auth :: proxy_auth where "sample_auth = \<lparr>au_user = ''u'', au_pass = ''p''\<rparr>"

theorem http_auth_gate_witness:
  "fw_tries (handle_http sample_env (Some sample_auth) [(sample_request, [])] sample_world) = 0 \<and>
   fw_out (handle_http sample_env (Some sample_auth) [(sample_request, [])] sample_world) \<noteq> []"
proof -
  have h: "required (Some sample_auth)"
    "\<forall>c. header_get (hr_header sample_request) ''Proxy-Authorization'' = ''Basic '' @ c \<longrightarrow>
       b64_decode c \<noteq> Some (au_user sample_auth @ '':'' @ au_pass sample_auth)"
    by (simp_all add: required_def sample_auth_def sample_request_def header_get_def)
  have out: "fw_out (handle_http sample_env (Some sample_auth) [(sample_request, [])] sample_world) \<noteq> []" by code_simp
  show ?thesis
    using http_auth_gate [OF h(1) _ h(2) refl refl,
        where good = "[]" and rest = "[]" and evs = "[]" and env = sample_env and w = sample_world] out
    by (simp add: sample_world_def)
qed

section \<open>Saved progress that cannot be continued\<close>

text \<open>An origin that does not continue from \<open>k\<close>: every answer to the range request is neither the whole
  entity nor the part from \<open>k\<close>.\<close>

definition refuses_from :: "fwd_env \<Rightarrow> nat \<Rightarrow> bool" where
  "refuses_from env k =
     (\<forall>n hp req resp rs. header_get (hr_header req) ''Range'' = ''bytes='' @ itoa k @ ''-'' \<longrightarrow>
        fe_try env n hp req = Responds resp rs \<longrightarrow>
        rs_code resp \<noteq> 200 \<and> (rs_code resp = 206 \<longrightarrow> \<not> range_ok resp (int k)))"

lemma forward_once_refused:
  assumes "refuses_from env k" and "fs_header_sent st" and "fs_relayed st = int k" and "0 < k"
    and "forward_once env req host port st w = (r, st', w')"
  shows "r \<in> {FwdRetry, FwdAbort} \<and> st' = st \<and> fw_cache w' = fw_cache w \<and> fw_out w' = fw_out w"
proof -
  have rg: "header_get (hr_header (outgoing req st)) ''Range'' = ''bytes='' @ itoa k @ ''-''"
    using assms(2-4) by (simp add: outgoing_def itoa_int_def)
  have "splice resp st = None" if "fe_try env n hp (outgoing req st) = Responds resp rs" for n hp resp rs
  proof -
    have "rs_code resp \<noteq> 200 \<and> (rs_code resp = 206 \<longrightarrow> \<not> range_ok resp (int k))"
      using assms(1) rg that unfolding refuses_from_def by blast
    then show ?thesis using assms(2-4) by (simp add: splice_def Let_def)
  qed
  then show ?thesis using assms(2,5) by (auto simp: forward_once_def Let_def split: up_try.splits if_splits)
qed

lemma save_partial_same:
  assumes "get_partial K (fw_cache w) = Some pa" and "cache_lookup K (fw_cache w) = None"
  shows "fw_cache (save_partial env (resume_state K pa) w) = fw_cache w"
  using assms
  by (simp add: save_partial_def resume_state_def new_forward_state_def put_partial_def get_partial_def Let_def)

lemma forward_loop_refused:
  assumes "refuses_from env (length (pa_body pa))" and "pa_body pa \<noteq> []"
    and "get_partial K (fw_cache w) = Some pa" and "cache_lookup K (fw_cache w) = None"
  shows "fst (forward_loop env req host port retry n zero (resume_state K pa) w) = Some False \<and>
    fw_cache (snd (forward_loop env req host port retry n zero (resume_state K pa) w)) = fw_cache w \<and>
    fw_out (snd (forward_loop env req host port retry n zero (resume_state K pa) w)) = fw_out w"
  using assms(3,4)
proof (induction n arbitrary: zero w)
  case 0
  then show ?case
    using save_partial_same [of K w pa env]
    by (simp add: give_up_def resume_state_def save_partial_def)
next
  case (Suc n)
  let ?st = "resume_state K pa"
  obtain r st1 w1 where r: "forward_once env req host port ?st w = (r, st1, w1)" by (metis prod_cases3)
  have st: "fs_header_sent ?st" "fs_relayed ?st = int (length (pa_body pa))" "0 < length (pa_body pa)"
    using assms(2) by (simp_all add: resume_state_def new_forward_state_def)
  note o = forward_once_refused [OF assms(1) st r]
  have g: "give_up env ?st v = v" for v using st(1) by (simp add: give_up_def)
  have s: "fw_out (save_partial env ?st v) = fw_out v" for v by (simp add: save_partial_def)
  have a: "fw_cache (after_stall env host ?st w1) = fw_cache w" "fw_out (after_stall env host ?st w1) = fw_out w"
    using o by (simp_all add: after_stall_ok)
  show ?case
    using o r Suc.prems Suc.IH [of "after_stall env host ?st w1" "Suc zero"] save_partial_same [of K w1 pa env] a
    by (auto simp: g s Let_def)
qed

text \<open>Saved progress of an asset that its origin no longer continues is never given up: when the origin
  answers the range request with another status, or with a part from elsewhere, the request ends with
  the old header and prefix only, the cache is exactly as before, and so every later request for the
  asset ends the same way.\<close>

theorem stale_partial_sticks:
  assumes "hr_method req = ''GET''" and "header_get (hr_header req) ''Range'' = []"
    and "header_get (hr_header req) ''Upgrade'' = []" and "hr_host req \<noteq> []" and "hr_body req = Some b"
    and "is_immutable_asset_path (u_path (hr_url req))"
    and "K = hr_host req @ u_path (hr_url req)"
    and "get_partial K (fw_cache w) = Some pa" and "cache_lookup K (fw_cache w) = None" and "pa_body pa \<noteq> []"
    and "refuses_from env (length (pa_body pa))"
    and "handle_forward env req evs w = (res, w')"
  shows "res = Some False \<and> fw_cache w' = fw_cache w \<and> (\<exists>n. fw_out w' = fw_out w @ take n (pa_header pa @ pa_body pa))"
proof -
  let ?req = "prepared req (hr_host req) (take body_limit b)"
  let ?port = "if url_port (hr_url req) = [] then ''80'' else url_port (hr_url req)"
  have "header_get (hr_header ?req) k = header_get (hr_header req) k" if "k \<in> {''Range'', ''Upgrade''}" for k
    using that by (auto simp: prepared_def header_get_def Let_def)
  then have h: "handle_forward env req evs w = serve_request env ?req (hr_host req) ?port w"
    "header_get (hr_header ?req) ''Range'' = []"
    using assms(2-5) by (simp_all add: handle_forward_def Let_def)
  have key: "asset_key ?req (hr_host req) = K"
    using assms(1,6,7) h(2) by (simp add: asset_key_def can_retry_def prepared_def Let_def)
  have miss: "cache_get K (fw_cache w) = (None, fw_cache w)"
    using assms(9) by (auto simp: cache_lookup_def cache_get_def split: option.splits)
  have K: "K \<noteq> []" using assms(4,7) by simp
  obtain ok w1 where w1: "write_both env (pa_header pa) (pa_body pa) w = (ok, w1)" by fastforce
  note o = write_both_prefix [OF w1]
  have "(res, w') = (if ok then forward_loop env ?req (hr_host req) ?port (can_retry ?req) forward_max_attempts 0 (resume_state K pa) w1
      else (Some False, w1))"
    using assms(8,12) h(1) key miss K w1 by (cases ok) (simp_all add: serve_request_def Let_def)
  moreover have "get_partial K (fw_cache w1) = Some pa" "cache_lookup K (fw_cache w1) = None" using o assms(8,9) by simp_all
  note forward_loop_refused [OF assms(11,10) this, of ?req "hr_host req" ?port "can_retry ?req" forward_max_attempts 0]
  ultimately show ?thesis using o by (cases ok) (metis fst_conv snd_conv, simp)
qed

text \<open>The asset of the sample request, of which a byte is stored, on an origin that has removed it.\<close>

definition gone_env :: fwd_env where
  "gone_env = sample_env\<lparr>fe_try := \<lambda>n hp req.
     Responds \<lparr>rs_code = 404, rs_status = ''404 Not Found'', rs_header = [], rs_length = 0\<rparr> [([], Some REof)]\<rparr>"

definition sample_asset :: string where "sample_asset = ''h/app-0123456789ab.js''"

definition stale_world :: fwd_world where
  "stale_world = sample_world\<lparr>fw_cache := put_partial first_key sample_asset
     \<lparr>pa_header = ''H'', pa_body = ''a'', pa_total = 2, pa_close = False\<rparr> (fw_cache sample_world)\<rparr>"

theorem stale_partial_sticks_witness:
  "fst (handle_forward gone_env sample_request [] stale_world) = Some False \<and>
   fw_cache (snd (handle_forward gone_env sample_request [] stale_world)) = fw_cache stale_world"
proof -
  have q: "hr_method sample_request = ''GET''" "header_get (hr_header sample_request) ''Range'' = []"
    "header_get (hr_header sample_request) ''Upgrade'' = []" "hr_host sample_request \<noteq> []" "hr_body sample_request = Some []"
    "sample_asset = hr_host sample_request @ u_path (hr_url sample_request)"
    by (simp_all add: sample_request_def header_get_def sample_asset_def)
  have p: "is_immutable_asset_path (u_path (hr_url sample_request))" by code_simp
  have c: "get_partial sample_asset (fw_cache stale_world) =
      Some \<lparr>pa_header = ''H'', pa_body = ''a'', pa_total = 2, pa_close = False\<rparr>"
    "cache_lookup sample_asset (fw_cache stale_world) = None" by code_simp+
  have r: "refuses_from gone_env (length (pa_body \<lparr>pa_header = ''H'', pa_body = ''a'', pa_total = 2, pa_close = False\<rparr>))"
    by (auto simp: refuses_from_def gone_env_def)
  have s: "handle_forward gone_env sample_request [] stale_world =
      (fst (handle_forward gone_env sample_request [] stale_world), snd (handle_forward gone_env sample_request [] stale_world))"
    by simp
  show ?thesis using stale_partial_sticks [OF q(1-5) p q(6) c _ r s] by simp
qed

text \<open>A retry after the header went out and before any byte of the body did is not checked at all: here
  the body of a 503 is sent, and stored for the asset, under the header of the 200 before it.\<close>

definition error_env :: fwd_env where
  "error_env = sample_env\<lparr>fe_try := \<lambda>n hp req.
     if n = 0 then Responds \<lparr>rs_code = 200, rs_status = ''200 OK'', rs_header = [], rs_length = 2\<rparr> [([], Some RTimeout)]
     else Responds \<lparr>rs_code = 503, rs_status = ''503 Service Unavailable'', rs_header = [], rs_length = 2\<rparr>
       [(''no'', Some REof)]\<rparr>"

lemma unchecked_splice:
  "fst (handle_forward error_env sample_request [] sample_world) = Some True"
  "map_option cr_body (cache_lookup sample_asset (fw_cache (snd (handle_forward error_env sample_request [] sample_world)))) =
     Some ''no''"
  by code_simp+

section \<open>A body that outgrows the buffer\<close>

text \<open>The header of the overflow path is the one of the response at hand, which after a resumption is a
  206: its status and its \<open>Content-Length\<close>, that of the rest only, stay in front of the whole body.\<close>

lemma overflow_header_keeps_length:
  assumes "map_of (rs_header resp) ''Content-Length'' = Some [itoa n]"
  shows "has_prefix (forward_header resp True) (''HTTP/1.1 '' @ rs_status resp @ crlf)"
    and "has_line (forward_header resp True) (''Content-Length: '' @ itoa n)"
proof -
  let ?h = "header_set ''Connection'' ''close'' (end_to_end (rs_header resp))"
  have eq: "forward_header resp True = (''HTTP/1.1 '' @ rs_status resp) @ crlf @ header_write ?h @ crlf"
    by (simp add: forward_header_def)
  show "has_prefix (forward_header resp True) (''HTTP/1.1 '' @ rs_status resp @ crlf)"
    using has_prefix_append [of "''HTTP/1.1 '' @ rs_status resp @ crlf" "header_write ?h @ crlf"] unfolding eq by simp
  obtain B :: bytes where B: "length B = n" by (metis Ex_list_of_length)
  have "map_of ?h ''Content-Length'' = Some [itoa (length B)]"
    using assms map_of_end_to_end [of "''Content-Length''" "rs_header resp"]
    by (simp add: header_set_def hop_by_hop_def B)
  from header_framed [OF this] show "has_line (forward_header resp True) (''Content-Length: '' @ itoa n)"
    unfolding eq framed_def B by blast
qed

end
