(* ===== verification/Watchdog.thy ===== *)
theory Watchdog
  imports WgConf Complex_Main "HOL-Library.Multiset"
begin

text \<open>
  The decisions of the connection manager (\<open>vpnmgr/connect.go\<close>, \<open>manager.go\<close>, \<open>probe.go\<close>): the
  sampling of the byte counters of a tunnel, the verdict of the watchdog over what was sampled, the
  validation of a candidate tunnel, the draining of a retired one, the retries of a reconnection, and
  the order of the servers.

  Rates are exact rationals instead of \<open>float64\<close>. The zero \<open>time.Time\<close> is \<open>None\<close>.
\<close>

section \<open>Sampling\<close>

definition handshake_stale_after :: duration where "handshake_stale_after = 210 * second"
definition handshake_stale_after_sec :: int where "handshake_stale_after_sec = 210"
definition rx_stall_after :: duration where "rx_stall_after = 20 * second"

record peer_stats =
  ps_last_handshake :: int
  ps_tx :: int
  ps_rx :: int

record tunnel_stats =
  ts_sampled :: instant
  ts_last_rx :: int
  ts_last_tx :: int
  ts_tx_bps :: rat
  ts_rx_bps :: rat
  ts_handshake :: int
  ts_wg_tx :: int
  ts_wg_rx :: int
  ts_app_tx :: "instant option"
  ts_app_rx :: "instant option"
  ts_since :: instant
  ts_dial :: "instant option"

definition reset_tunnel_stats :: "instant \<Rightarrow> tunnel_stats \<Rightarrow> tunnel_stats" where
  "reset_tunnel_stats now ts = ts\<lparr>ts_last_rx := 0, ts_last_tx := 0, ts_handshake := 0, ts_wg_tx := 0, ts_wg_rx := 0,
     ts_sampled := now, ts_app_tx := None, ts_app_rx := None, ts_dial := None, ts_since := now\<rparr>"

definition clear_rates :: "tunnel_stats \<Rightarrow> tunnel_stats" where
  "clear_rates ts = ts\<lparr>ts_tx_bps := 0, ts_rx_bps := 0, ts_handshake := 0, ts_wg_tx := 0, ts_wg_rx := 0\<rparr>"

text \<open>What a sample reads of the device: the time, the totals of \<open>Transfer\<close>, the last dial, and the
  peer.\<close>

record sample =
  sa_now :: instant
  sa_rx :: int
  sa_tx :: int
  sa_dial :: "instant option"
  sa_peer :: peer_stats

definition sample_once :: "sample \<Rightarrow> tunnel_stats \<Rightarrow> tunnel_stats" where
  "sample_once s ts =
     (let dt = sa_now s - ts_sampled ts;
          ts1 = (if 0 < dt
                 then ts\<lparr>ts_rx_bps := of_int ((sa_rx s - ts_last_rx ts) * second) / of_int dt,
                         ts_tx_bps := of_int ((sa_tx s - ts_last_tx ts) * second) / of_int dt\<rparr>
                 else ts);
          ts2 = (if ts_last_tx ts1 < sa_tx s then ts1\<lparr>ts_app_tx := Some (sa_now s)\<rparr> else ts1);
          ts3 = (if ts_last_rx ts2 < sa_rx s then ts2\<lparr>ts_app_rx := Some (sa_now s)\<rparr> else ts2)
      in ts3\<lparr>ts_last_rx := sa_rx s, ts_last_tx := sa_tx s, ts_sampled := sa_now s, ts_dial := sa_dial s,
             ts_handshake := ps_last_handshake (sa_peer s), ts_wg_tx := ps_tx (sa_peer s), ts_wg_rx := ps_rx (sa_peer s)\<rparr>)"

definition handshake_staleness_from_age :: "int \<Rightarrow> rat" where
  "handshake_staleness_from_age age =
     (if age < 0 then 100 else if handshake_stale_after_sec \<le> age then 100 else 0)"

section \<open>The verdict\<close>

record reconnect_inputs =
  ri_last_handshake :: int
  ri_started :: instant
  ri_app_tx :: "instant option"
  ri_app_rx :: "instant option"
  ri_dial :: "instant option"
  ri_now :: instant

datatype reason = NoHandshake | HandshakeStale duration | DeadUnderLoad duration

definition within_window :: "instant option \<Rightarrow> instant \<Rightarrow> duration \<Rightarrow> bool" where
  "within_window t now d = (case t of None \<Rightarrow> False | Some x \<Rightarrow> now - x < d)"

definition dead_under_load :: "reconnect_inputs \<Rightarrow> reason option" where
  "dead_under_load i =
     (if within_window (ri_app_tx i) (ri_now i) rx_stall_after \<or> within_window (ri_dial i) (ri_now i) rx_stall_after
      then let silent = (case ri_app_rx i of None \<Rightarrow> ri_now i - ri_started i | Some t \<Rightarrow> ri_now i - t)
           in if rx_stall_after < silent then Some (DeadUnderLoad silent) else None
      else None)"

definition reconnect_reason :: "reconnect_inputs \<Rightarrow> reason option" where
  "reconnect_reason i =
     (if ri_last_handshake i = 0 then
        if handshake_stale_after < ri_now i - ri_started i then Some NoHandshake else dead_under_load i
      else
        let age = ri_now i - ri_last_handshake i * second
        in if handshake_stale_after < age then Some (HandshakeStale age) else dead_under_load i)"

text \<open>What a tick of \<open>runHandshakeWatch\<close> hands over.\<close>

definition watch_inputs :: "tunnel_stats \<Rightarrow> instant \<Rightarrow> reconnect_inputs" where
  "watch_inputs ts now = \<lparr>ri_last_handshake = ts_handshake ts, ri_started = ts_since ts, ri_app_tx = ts_app_tx ts,
     ri_app_rx = ts_app_rx ts, ri_dial = ts_dial ts, ri_now = now\<rparr>"

section \<open>Candidate tunnels\<close>

definition tunnel_probe_addr :: "wg_conf \<Rightarrow> string" where
  "tunnel_probe_addr conf =
     (case fields_func dns_sep (wc_dns conf) of
        d # _ \<Rightarrow> if trim_space d \<noteq> [] then join_host_port (trim_space d) ''53'' else ''223.5.5.5:53''
      | [] \<Rightarrow> ''223.5.5.5:53'')"

datatype 'e probe_err = DnsProbe string 'e | NoRecent nat 'e

text \<open>A prober answers the \<open>k\<close>-th probe; the result has the number of probes made.\<close>

fun probe_recent :: "(nat \<Rightarrow> string \<Rightarrow> 'e option) \<Rightarrow> nat \<Rightarrow> 'e \<Rightarrow> string list \<Rightarrow> nat \<times> 'e option" where
  "probe_recent prober k last_err [] = (k, Some last_err)"
| "probe_recent prober k last_err (a # rest) =
     (case prober k a of None \<Rightarrow> (k + 1, None) | Some e \<Rightarrow> probe_recent prober (k + 1) e rest)"

definition probe_tunnel ::
  "(nat \<Rightarrow> string \<Rightarrow> 'e option) \<Rightarrow> string \<Rightarrow> string list \<Rightarrow> bool \<Rightarrow> nat \<times> 'e probe_err option" where
  "probe_tunnel prober dns_addr recent strict =
     (case prober 0 dns_addr of
        Some e \<Rightarrow> (1, Some (DnsProbe dns_addr e))
      | None \<Rightarrow>
          (case recent of
             [] \<Rightarrow> (1, None)
           | a # rest \<Rightarrow>
               (case prober 1 a of
                  None \<Rightarrow> (2, None)
                | Some e \<Rightarrow>
                    (case probe_recent prober 2 e rest of
                       (k, None) \<Rightarrow> (k, None)
                     | (k, Some e') \<Rightarrow> (k, if strict then Some (NoRecent (length recent) e') else None)))))"

definition tunnel_build_attempts :: nat where "tunnel_build_attempts = 4"
definition recent_probe_addrs :: int where "recent_probe_addrs = 3"

text \<open>\<open>buildLiveTunnel\<close>: \<open>build n\<close> is the \<open>n\<close>-th tunnel built, with the prober of its device. The first
  component is the devices that were closed again.\<close>

fun build_live_from ::
  "(nat \<Rightarrow> 'e + ('d \<times> wg_conf \<times> vpn_info)) \<Rightarrow> (nat \<Rightarrow> nat \<Rightarrow> string \<Rightarrow> 'e option) \<Rightarrow> string list \<Rightarrow> nat \<Rightarrow> nat \<Rightarrow>
     'e probe_err option \<Rightarrow> 'd list \<times> (('e + 'e probe_err) option + ('d \<times> wg_conf \<times> vpn_info))" where
  "build_live_from build prober recent n 0 last_err = ([], Inl (map_option Inr last_err))"
| "build_live_from build prober recent n (Suc left) last_err =
     (case build n of
        Inl e \<Rightarrow> ([], Inl (Some (Inl e)))
      | Inr (d, conf, node) \<Rightarrow>
          (case snd (probe_tunnel (prober n) (tunnel_probe_addr conf) recent (n < tunnel_build_attempts - 1)) of
             None \<Rightarrow> ([], Inr (d, conf, node))
           | Some e \<Rightarrow>
               (case build_live_from build prober recent (Suc n) left (Some e) of (ds, r) \<Rightarrow> (d # ds, r))))"

definition build_live_tunnel ::
  "(nat \<Rightarrow> 'e + ('d \<times> wg_conf \<times> vpn_info)) \<Rightarrow> (nat \<Rightarrow> nat \<Rightarrow> string \<Rightarrow> 'e option) \<Rightarrow> string list \<Rightarrow>
     'd list \<times> (('e + 'e probe_err) option + ('d \<times> wg_conf \<times> vpn_info))" where
  "build_live_tunnel build prober recent = build_live_from build prober recent 0 tunnel_build_attempts None"

section \<open>Draining, retrying, reporting\<close>

definition tunnel_drain_after :: duration where "tunnel_drain_after = 10 * second"
definition tunnel_drain_max :: duration where "tunnel_drain_max = 600 * second"

text \<open>The loop of \<open>waitDrained\<close> from the time \<open>t\<close>; a step that is not positive would not sleep.\<close>

function drain_loop :: "(instant \<Rightarrow> int) \<Rightarrow> instant \<Rightarrow> duration \<Rightarrow> instant \<Rightarrow> instant" where
  "drain_loop conns deadline step t =
     (if 0 < conns t \<and> t < deadline \<and> 0 < step then drain_loop conns deadline step (t + step) else t)"
  by pat_completeness auto
termination
  by (relation "measure (\<lambda>(conns, deadline, step, t). nat (deadline - t))") auto

declare drain_loop.simps [simp del]

definition wait_drained :: "(instant \<Rightarrow> int) \<Rightarrow> duration \<Rightarrow> duration \<Rightarrow> duration \<Rightarrow> instant \<Rightarrow> instant" where
  "wait_drained conns least most step now = drain_loop conns (now + most) step (now + least)"

definition reconnect_attempts :: nat where "reconnect_attempts = 5"

fun retry_from :: "(nat \<Rightarrow> 'e option) \<Rightarrow> ('e \<Rightarrow> bool) \<Rightarrow> (nat \<Rightarrow> bool) \<Rightarrow> nat \<Rightarrow> nat \<Rightarrow> 'e option \<Rightarrow> 'e option" where
  "retry_from connect fatal cancelled i 0 last_err = last_err"
| "retry_from connect fatal cancelled i (Suc left) last_err =
     (if 0 < i \<and> cancelled i then last_err
      else case connect i of
        None \<Rightarrow> None
      | Some e \<Rightarrow> if fatal e then Some e else retry_from connect fatal cancelled (Suc i) left (Some e))"

definition retry_reconnect :: "(nat \<Rightarrow> bool) \<Rightarrow> nat \<Rightarrow> (nat \<Rightarrow> 'e option) \<Rightarrow> ('e \<Rightarrow> bool) \<Rightarrow> 'e option" where
  "retry_reconnect cancelled attempts connect fatal = retry_from connect fatal cancelled 0 attempts None"

definition route_mode_report :: "string \<Rightarrow> string" where
  "route_mode_report m = (if m = route_mode_split then ''Split'' else ''Full'')"

text \<open>The Chinese keywords are the bytes of their UTF-8 encoding.\<close>

definition otp_keywords :: "string list" where
  "otp_keywords = [''otp'', ''2fa'', ''two-factor'', ''two factor'', ''verif'',
     map chr [0xE5, 0x8A, 0xA8, 0xE6, 0x80, 0x81, 0xE7, 0xA0, 0x81],
     map chr [0xE9, 0xAA, 0x8C, 0xE8, 0xAF, 0x81, 0xE7, 0xA0, 0x81],
     map chr [0xE4, 0xBA, 0x8C, 0xE6, 0xAC, 0xA1]]"

definition looks_like_otp_error :: "string \<Rightarrow> bool" where
  "looks_like_otp_error msg = list_ex (contains (to_lower msg)) otp_keywords"

section \<open>The list of servers\<close>

record vpn_server =
  sv_id :: int
  sv_name :: string
  sv_en_name :: string
  sv_ip :: string
  sv_latency :: int
  sv_protocol_mode :: int
  sv_selected :: bool

definition latency_key :: "int \<Rightarrow> int" where
  "latency_key l = (if 0 < l then l else if l = 0 then 2 ^ 40 else 2 ^ 50)"

definition server_of :: "int \<Rightarrow> vpn_info \<Rightarrow> vpn_server" where
  "server_of pinned v = \<lparr>sv_id = vi_id v, sv_name = vi_name v, sv_en_name = vi_en_name v, sv_ip = vi_ip v,
     sv_latency = vi_latency v, sv_protocol_mode = vi_protocol_mode v, sv_selected = (vi_id v = pinned)\<rparr>"

definition server_list :: "int \<Rightarrow> vpn_info list \<Rightarrow> vpn_server list" where
  "server_list pinned vpns = sort_key (\<lambda>s. latency_key (sv_latency s)) (map (server_of pinned) vpns)"

section \<open>The watchdog over a history of samples\<close>

text \<open>The times at which a counter was seen to have grown.\<close>

fun advances :: "(sample \<Rightarrow> int) \<Rightarrow> int \<Rightarrow> sample list \<Rightarrow> instant list" where
  "advances f prev [] = []"
| "advances f prev (s # ss) = (if prev < f s then [sa_now s] else []) @ advances f (f s) ss"

lemma advances_times: "set (advances f prev ss) \<subseteq> sa_now ` set ss"
  by (induction ss arbitrary: prev) auto

lemma advances_sorted: "sorted (map sa_now ss) \<Longrightarrow> sorted (advances f prev ss)"
proof (induction ss arbitrary: prev)
  case (Cons s ss)
  then show ?case using advances_times [of f "f s" ss] by auto
qed simp

lemma sorted_last_le: "sorted xs \<Longrightarrow> x \<in> set xs \<Longrightarrow> x \<le> last (xs :: int list)"
  by (induction xs) auto

lemma advances_last:
  assumes "sorted (map sa_now ss)" and "advances f prev ss \<noteq> []"
  shows "now - last (advances f prev ss) < d \<longleftrightarrow> (\<exists>t \<in> set (advances f prev ss). now - t < d)"
    and "now - last (advances f prev ss) \<le> d \<longleftrightarrow> (\<exists>t \<in> set (advances f prev ss). now - t \<le> d)"
  using sorted_last_le [OF advances_sorted [OF assms(1)]] last_in_set [OF assms(2)] by fastforce+

lemma sample_once_simps:
  "ts_app_tx (sample_once s ts) = (if ts_last_tx ts < sa_tx s then Some (sa_now s) else ts_app_tx ts)"
  "ts_app_rx (sample_once s ts) = (if ts_last_rx ts < sa_rx s then Some (sa_now s) else ts_app_rx ts)"
  "ts_last_tx (sample_once s ts) = sa_tx s" "ts_last_rx (sample_once s ts) = sa_rx s"
  "ts_since (sample_once s ts) = ts_since ts" "ts_dial (sample_once s ts) = sa_dial s"
  "ts_handshake (sample_once s ts) = ps_last_handshake (sa_peer s)"
  by (simp_all add: sample_once_def Let_def)

lemma samples_app:
  "ts_app_tx (fold sample_once ss ts) =
     (let a = advances sa_tx (ts_last_tx ts) ss in if a = [] then ts_app_tx ts else Some (last a))"
  "ts_app_rx (fold sample_once ss ts) =
     (let a = advances sa_rx (ts_last_rx ts) ss in if a = [] then ts_app_rx ts else Some (last a))"
  "ts_since (fold sample_once ss ts) = ts_since ts"
  by (induction ss arbitrary: ts) (simp_all add: sample_once_simps Let_def)

lemma samples_last:
  assumes "ss \<noteq> []"
  shows "ts_dial (fold sample_once ss ts) = sa_dial (last ss)"
    "ts_handshake (fold sample_once ss ts) = ps_last_handshake (sa_peer (last ss))"
  using assms by (induction ss rule: rev_induct) (simp_all add: sample_once_simps)

lemma reconnect_reason_None:
  "reconnect_reason i = None \<longleftrightarrow>
     (if ri_last_handshake i = 0 then ri_now i - ri_started i \<le> handshake_stale_after
      else ri_now i - ri_last_handshake i * second \<le> handshake_stale_after) \<and>
     (\<not> within_window (ri_app_tx i) (ri_now i) rx_stall_after \<and> \<not> within_window (ri_dial i) (ri_now i) rx_stall_after \<or>
      (case ri_app_rx i of None \<Rightarrow> ri_now i - ri_started i | Some t \<Rightarrow> ri_now i - t) \<le> rx_stall_after)"
  by (auto simp: reconnect_reason_def dead_under_load_def Let_def not_less)

text \<open>C22: The watchdog over the samples of a tunnel condemns it exactly when its handshake is older than
  210 seconds (or never came in that time), or when there was demand in the last 20 seconds (payload
  went out, or a dial was tried) while no payload has come in for more than 20 seconds, counted from
  the start of the tunnel when none ever came. An idle tunnel with a fresh handshake is left alone.\<close>

theorem watchdog_verdict:
  assumes "sorted (map sa_now ss)" and "ss \<noteq> []"
    and "ts = fold sample_once ss (reset_tunnel_stats start ts0)"
    and "handshake = ps_last_handshake (sa_peer (last ss))"
  shows "reconnect_reason (watch_inputs ts now) = None \<longleftrightarrow>
    (if handshake = 0 then now - start \<le> 210 * second else now - handshake * second \<le> 210 * second) \<and>
    ((\<forall>t \<in> set (advances sa_tx 0 ss) \<union> set_option (sa_dial (last ss)). 20 * second \<le> now - t) \<or>
     (\<exists>t \<in> set (advances sa_rx 0 ss). now - t \<le> 20 * second) \<or>
     advances sa_rx 0 ss = [] \<and> now - start \<le> 20 * second)"
proof -
  let ?tx = "advances sa_tx 0 ss" and ?rx = "advances sa_rx 0 ss"
  have ts: "ts_app_tx ts = (if ?tx = [] then None else Some (last ?tx))"
    "ts_app_rx ts = (if ?rx = [] then None else Some (last ?rx))" "ts_since ts = start"
    "ts_dial ts = sa_dial (last ss)" "ts_handshake ts = handshake"
    using assms(3,4) samples_last [OF assms(2)]
    by (simp_all add: samples_app Let_def reset_tunnel_stats_def)
  have demand: "within_window (ts_app_tx ts) now rx_stall_after \<or> within_window (ts_dial ts) now rx_stall_after \<longleftrightarrow>
      (\<exists>t \<in> set ?tx \<union> set_option (sa_dial (last ss)). now - t < 20 * second)"
    using advances_last(1) [OF assms(1), of sa_tx 0 now rx_stall_after]
    by (cases "?tx = []"; cases "sa_dial (last ss)") (auto simp: ts within_window_def rx_stall_after_def)
  have inbound: "(case ts_app_rx ts of None \<Rightarrow> now - start | Some t \<Rightarrow> now - t) \<le> rx_stall_after \<longleftrightarrow>
      (\<exists>t \<in> set ?rx. now - t \<le> 20 * second) \<or> ?rx = [] \<and> now - start \<le> 20 * second"
    using advances_last(2) [OF assms(1), of sa_rx 0 now rx_stall_after]
    by (cases "?rx = []") (simp_all add: ts rx_stall_after_def)
  have r: "reconnect_reason (watch_inputs ts now) = None \<longleftrightarrow>
    (if handshake = 0 then now - start \<le> 210 * second else now - handshake * second \<le> 210 * second) \<and>
    (\<not> (within_window (ts_app_tx ts) now rx_stall_after \<or> within_window (ts_dial ts) now rx_stall_after) \<or>
     (case ts_app_rx ts of None \<Rightarrow> now - start | Some t \<Rightarrow> now - t) \<le> rx_stall_after)"
    unfolding reconnect_reason_None
    by (simp only: watch_inputs_def reconnect_inputs.simps ts(3,5) handshake_stale_after_def de_Morgan_disj)
  have n: "\<not> (\<exists>t \<in> A. now - t < 20 * second) \<longleftrightarrow> (\<forall>t \<in> A. 20 * second \<le> now - t)" for A
    by (simp add: not_less)
  show ?thesis unfolding r demand inbound n ..
qed

definition sample_at :: "int \<Rightarrow> int \<Rightarrow> int \<Rightarrow> sample" where
  "sample_at t i o' = \<lparr>sa_now = t * second, sa_rx = i, sa_tx = o', sa_dial = None,
     sa_peer = \<lparr>ps_last_handshake = 0, ps_tx = 0, ps_rx = 0\<rparr>\<rparr>"

definition demo_stats :: tunnel_stats where
  "demo_stats = \<lparr>ts_sampled = 0, ts_last_rx = 4, ts_last_tx = 3, ts_tx_bps = 0, ts_rx_bps = 0, ts_handshake = 7,
     ts_wg_tx = 0, ts_wg_rx = 0, ts_app_tx = None, ts_app_rx = Some 9, ts_since = 0, ts_dial = None\<rparr>"

text \<open>A tunnel that received until second 2 and sends until second 30.\<close>

theorem watchdog_verdict_witness:
  "reconnect_reason (watch_inputs (fold sample_once [sample_at 1 5 5, sample_at 2 9 7, sample_at 30 9 8]
     (reset_tunnel_stats 0 demo_stats)) (31 * second)) \<noteq> None"
proof -
  let ?ss = "[sample_at 1 5 5, sample_at 2 9 7, sample_at 30 9 8]"
  have "sorted (map sa_now ?ss)" "?ss \<noteq> []" by (simp_all add: sample_at_def)
  from watchdog_verdict [OF this refl refl, of 0 demo_stats "31 * second"]
  show ?thesis by (simp add: sample_at_def)
qed

section \<open>Candidate tunnels, draining and retries\<close>

text \<open>What it takes for a tunnel to pass: its DNS server answers, and one of the destinations users
  reached lately, if there are any and the check is strict.\<close>

definition answers_any :: "(nat \<Rightarrow> string \<Rightarrow> 'e option) \<Rightarrow> nat \<Rightarrow> string list \<Rightarrow> bool" where
  "answers_any prober k as = (\<exists>i < length as. prober (k + i) (as ! i) = None)"

lemma answers_any_simps [simp]:
  "\<not> answers_any prober k []"
  "answers_any prober k (a # as) \<longleftrightarrow> prober k a = None \<or> answers_any prober (Suc k) as"
proof -
  show "answers_any prober k (a # as) \<longleftrightarrow> prober k a = None \<or> answers_any prober (Suc k) as"
    unfolding answers_any_def
    by (subst length_Cons, subst Ex_less_Suc2) simp
qed (simp add: answers_any_def)

lemma probe_recent_None: "snd (probe_recent prober k e as) = None \<longleftrightarrow> answers_any prober k as"
  by (induction as arbitrary: k e) (auto split: option.splits)

lemma probe_tunnel_passes:
  "snd (probe_tunnel prober dns recent strict) = None \<longleftrightarrow>
     prober 0 dns = None \<and> (strict \<and> recent \<noteq> [] \<longrightarrow> answers_any prober 1 recent)"
proof (cases recent)
  case (Cons a rest)
  show ?thesis
  proof (cases "prober 1 a")
    case None
    then show ?thesis using Cons by (simp add: probe_tunnel_def split: option.splits)
  next
    case (Some e)
    obtain k r where p: "probe_recent prober 2 e rest = (k, r)" by fastforce
    then have "r = None \<longleftrightarrow> answers_any prober 2 rest" using probe_recent_None [of prober 2 e rest] by simp
    then show ?thesis
      using Cons Some p by (cases r) (auto simp: probe_tunnel_def numeral_2_eq_2 split: option.splits)
  qed
qed (simp add: probe_tunnel_def split: option.splits)

text \<open>Every device that was built is closed again or is the one returned, and the one returned has
  passed; only the last attempt does without the destinations.\<close>

lemma build_live_from_spec:
  assumes "build_live_from build prober recent n left e = (shut, r)"
  shows "\<exists>m \<le> left. shut = map (\<lambda>i. fst (projr (build i))) [n..<n + m] \<and>
     (\<forall>i \<in> {n..<n + m}. is_ok (build i)) \<and>
     (case r of
        Inr t \<Rightarrow> m < left \<and> build (n + m) = Inr t \<and>
          snd (probe_tunnel (prober (n + m)) (tunnel_probe_addr (fst (snd t))) recent (n + m < tunnel_build_attempts - 1)) = None
      | Inl _ \<Rightarrow> m = left \<or> \<not> is_ok (build (n + m)))"
  using assms
proof (induction left arbitrary: n e shut r)
  case (Suc left)
  show ?case
  proof (cases "build n")
    case (Inl x)
    then show ?thesis using Suc.prems by (intro exI [of _ 0]) auto
  next
    case (Inr t)
    obtain d conf node where t: "t = (d, conf, node)" by (cases t)
    show ?thesis
    proof (cases "snd (probe_tunnel (prober n) (tunnel_probe_addr conf) recent (n < tunnel_build_attempts - 1))")
      case None
      then show ?thesis using Suc.prems Inr t by (intro exI [of _ 0]) auto
    next
      case (Some e')
      obtain ds r' where b: "build_live_from build prober recent (Suc n) left (Some e') = (ds, r')" by fastforce
      then have c: "shut = d # ds" "r = r'" using Suc.prems Inr t Some by simp_all
      from Suc.IH [OF b] obtain m where m: "m \<le> left" "ds = map (\<lambda>i. fst (projr (build i))) [Suc n..<Suc n + m]"
        "\<forall>i \<in> {Suc n..<Suc n + m}. is_ok (build i)"
        "case r' of Inr t \<Rightarrow> m < left \<and> build (Suc n + m) = Inr t \<and>
          snd (probe_tunnel (prober (Suc n + m)) (tunnel_probe_addr (fst (snd t))) recent (Suc n + m < tunnel_build_attempts - 1)) = None
          | Inl _ \<Rightarrow> m = left \<or> \<not> is_ok (build (Suc n + m))" by blast
      have "[n..<n + Suc m] = n # [Suc n..<Suc n + m]" by (simp add: upt_rec)
      moreover have "\<forall>i \<in> {n..<n + Suc m}. is_ok (build i)" using m(3) Inr
        by (metis add_Suc_right add_Suc_shift atLeastLessThan_iff is_ok_simps(1) le_neq_implies_less Suc_leI)
      ultimately show ?thesis using m c Inr t by (intro exI [of _ "Suc m"]) (auto split: sum.splits)
    qed
  qed
qed simp

text \<open>C23: A replacement tunnel is handed over only after its DNS server answered a probe and, except on
  the last of the four attempts, after one of the destinations users reached lately did; every other
  device that was brought up on the way is closed again.\<close>

theorem live_tunnel_validated:
  assumes "build_live_tunnel build prober recent = (gone, r)"
  shows "\<exists>m \<le> 4. gone = map (\<lambda>i. fst (projr (build i))) [0..<m] \<and> (\<forall>i < m. is_ok (build i)) \<and>
     (case r of
        Inr (d, conf, node) \<Rightarrow> m < 4 \<and> build m = Inr (d, conf, node) \<and> prober m 0 (tunnel_probe_addr conf) = None \<and>
          (m < 3 \<and> recent \<noteq> [] \<longrightarrow> answers_any (prober m) 1 recent)
      | Inl _ \<Rightarrow> m = 4 \<or> \<not> is_ok (build m))"
proof -
  from build_live_from_spec [OF assms [unfolded build_live_tunnel_def], unfolded add_0 tunnel_build_attempts_def]
  obtain m where m: "m \<le> 4" "gone = map (\<lambda>i. fst (projr (build i))) [0..<m]" "\<forall>i \<in> {0..<m}. is_ok (build i)"
    "case r of Inr t \<Rightarrow> m < 4 \<and> build m = Inr t \<and>
        snd (probe_tunnel (prober m) (tunnel_probe_addr (fst (snd t))) recent (m < 4 - 1)) = None
      | Inl _ \<Rightarrow> m = 4 \<or> \<not> is_ok (build m)"
    by blast
  show ?thesis
    by (rule exI [of _ m], cases r) (use m in \<open>auto simp: probe_tunnel_passes\<close>)
qed

definition demo_wg :: wg_conf where
  "demo_wg = \<lparr>wc_address = ''10.0.0.2/24'', wc_address6 = [], wc_peer_address = ''192.0.2.1:4433'', wc_mtu = 1280,
     wc_public_key = [], wc_private_key = ''AAEC'', wc_peer_key = ''//8='', wc_allowed = [''10.0.0.0/8''],
     wc_routes = [''10.0.0.0/8''], wc_dns = ''10.0.0.53'', wc_protocol = 1\<rparr>"

theorem live_tunnel_validated_witness:
  "build_live_tunnel (\<lambda>n. Inr (n, demo_wg, zero_vpn)) (\<lambda>n k a. if n = 0 then Some ''dead'' else None) [''h:80''] =
     ([0 :: nat], Inr (1, demo_wg, zero_vpn)) \<and> answers_any (\<lambda>k a. None :: string option) 1 [''h:80'']"
proof -
  let ?build = "\<lambda>n. Inr (n, demo_wg, zero_vpn) :: string + (nat \<times> wg_conf \<times> vpn_info)"
  let ?prober = "\<lambda>(n :: nat) (k :: nat) (a :: string). if n = 0 then Some ''dead'' else None"
  have b: "build_live_tunnel ?build ?prober [''h:80''] = ([0], Inr (1, demo_wg, zero_vpn))"
    by (simp add: build_live_tunnel_def tunnel_build_attempts_def probe_tunnel_def numeral_eq_Suc)
  from live_tunnel_validated [OF b] b show ?thesis by auto
qed

text \<open>A retired tunnel is held at least \<open>least\<close>, and then until its connections are gone or \<open>most\<close> is over.\<close>

lemma drain_loop_ends:
  assumes "0 < step"
  shows "t \<le> drain_loop conns deadline step t \<and>
    (conns (drain_loop conns deadline step t) \<le> 0 \<or> deadline \<le> drain_loop conns deadline step t) \<and>
    (drain_loop conns deadline step t < deadline + step \<or> drain_loop conns deadline step t = t)"
  using assms
proof (induction conns deadline step t rule: drain_loop.induct)
  case (1 conns deadline step t)
  show ?case
  proof (cases "0 < conns t \<and> t < deadline")
    case True
    then have "drain_loop conns deadline step t = drain_loop conns deadline step (t + step)"
      using "1.prems" by (simp add: drain_loop.simps [of _ _ _ t])
    then show ?thesis using "1.IH" "1.prems" True by auto
  next
    case False
    then have "drain_loop conns deadline step t = t" by (auto simp: drain_loop.simps [of _ _ _ t])
    then show ?thesis using False by auto
  qed
qed

lemma wait_drained_bounds:
  "now + tunnel_drain_after \<le> wait_drained conns tunnel_drain_after tunnel_drain_max second now"
  "wait_drained conns tunnel_drain_after tunnel_drain_max second now < now + tunnel_drain_max + second"
  "conns (wait_drained conns tunnel_drain_after tunnel_drain_max second now) \<le> 0 \<or>
     now + tunnel_drain_max \<le> wait_drained conns tunnel_drain_after tunnel_drain_max second now"
  using drain_loop_ends [of second "now + tunnel_drain_after" conns "now + tunnel_drain_max"]
  by (auto simp: wait_drained_def tunnel_drain_after_def tunnel_drain_max_def)

text \<open>A reconnection succeeds exactly when an attempt does before a fatal error or the cancellation.\<close>

lemma retry_from_None:
  "retry_from connect fatal cancelled i left (Some e) = None \<longleftrightarrow>
     (\<exists>j \<in> {i..<i + left}. connect j = None \<and> (\<forall>k \<in> {i..<j}. case connect k of None \<Rightarrow> True | Some e \<Rightarrow> \<not> fatal e) \<and>
        (\<forall>k \<in> {i..j}. 0 < k \<longrightarrow> \<not> cancelled k))"
proof (induction left arbitrary: i e)
  case (Suc left)
  have split: "{i..<i + Suc left} = insert i {Suc i..<Suc i + left}" by auto
  show ?case
  proof (cases "0 < i \<and> cancelled i")
    case True
    then show ?thesis by (auto simp: Bex_def)
  next
    case False
    show ?thesis
    proof (cases "connect i")
      case None
      then show ?thesis using False by (auto intro!: bexI [of _ i])
    next
      case (Some e')
      have step: "(\<forall>k \<in> {i..<j}. case connect k of None \<Rightarrow> True | Some e \<Rightarrow> \<not> fatal e) \<longleftrightarrow>
          \<not> fatal e' \<and> (\<forall>k \<in> {Suc i..<j}. case connect k of None \<Rightarrow> True | Some e \<Rightarrow> \<not> fatal e)"
        "(\<forall>k \<in> {i..j}. 0 < k \<longrightarrow> \<not> cancelled k) \<longleftrightarrow> (\<forall>k \<in> {Suc i..j}. 0 < k \<longrightarrow> \<not> cancelled k)"
        if "j \<in> {Suc i..<Suc i + left}" for j
      proof -
        have "{i..<j} = insert i {Suc i..<j}" "{i..j} = insert i {Suc i..j}" using that by auto
        then show "(\<forall>k \<in> {i..<j}. case connect k of None \<Rightarrow> True | Some e \<Rightarrow> \<not> fatal e) \<longleftrightarrow>
          \<not> fatal e' \<and> (\<forall>k \<in> {Suc i..<j}. case connect k of None \<Rightarrow> True | Some e \<Rightarrow> \<not> fatal e)"
          "(\<forall>k \<in> {i..j}. 0 < k \<longrightarrow> \<not> cancelled k) \<longleftrightarrow> (\<forall>k \<in> {Suc i..j}. 0 < k \<longrightarrow> \<not> cancelled k)"
          using Some False by auto
      qed
      have "retry_from connect fatal cancelled i (Suc left) (Some e) =
          (if fatal e' then Some e' else retry_from connect fatal cancelled (Suc i) left (Some e'))"
        unfolding retry_from.simps Some using False by (simp only: if_False option.case)
      moreover have "(\<exists>j \<in> {i..<i + Suc left}. connect j = None \<and>
          (\<forall>k \<in> {i..<j}. case connect k of None \<Rightarrow> True | Some e \<Rightarrow> \<not> fatal e) \<and> (\<forall>k \<in> {i..j}. 0 < k \<longrightarrow> \<not> cancelled k)) \<longleftrightarrow>
        \<not> fatal e' \<and> (\<exists>j \<in> {Suc i..<Suc i + left}. connect j = None \<and>
          (\<forall>k \<in> {Suc i..<j}. case connect k of None \<Rightarrow> True | Some e \<Rightarrow> \<not> fatal e) \<and> (\<forall>k \<in> {Suc i..j}. 0 < k \<longrightarrow> \<not> cancelled k))"
        unfolding split by (simp only: bex_simps Some option.distinct simp_thms step cong: bex_cong) blast
      ultimately show ?thesis using Suc.IH [of "Suc i" e'] by simp
    qed
  qed
qed simp

lemma server_list_order:
  "sorted (map (\<lambda>s. latency_key (sv_latency s)) (server_list pinned vpns))"
  "mset (server_list pinned vpns) = mset (map (server_of pinned) vpns)"
  by (simp_all add: server_list_def)

end
