(* ===== verification/ErrorText.thy ===== *)
theory ErrorText
  imports Watchdog
begin

text \<open>
  What the errors of the API client say (\<open>corplink/client.go\<close>, \<open>apiName.String\<close> of \<open>corplink/api.go\<close>), and what
  the manager reads out of it: \<open>looksLikeOTPError\<close> of \<open>vpnmgr/connect.go\<close> decides by the text whether to
  ask for a one-time code. The texts of the lower layers (network, URL, JSON, files) are an argument.
\<close>

section \<open>Texts\<close>

definition api_name_string :: "api \<Rightarrow> string" where
  "api_name_string a = ''api('' @ api_template a @ '')''"

definition logged_out_text :: "string \<Rightarrow> string" where
  "logged_out_text msg = ''operation failed because of logout: '' @ msg"

definition fetch_code_text :: "int \<Rightarrow> string \<Rightarrow> string" where
  "fetch_code_text n msg = ''fetch peer info failed with code '' @ itoa_int n @ '': '' @ msg"

definition code_text :: "api \<Rightarrow> int \<Rightarrow> string \<Rightarrow> string" where
  "code_text a n msg =
     (case a of
        ListVPN \<Rightarrow> ''list vpn failed with code '' @ itoa_int n @ '': '' @ msg
      | PingVPN \<Rightarrow> ''ping vpn failed with code '' @ itoa_int n @ '': '' @ msg
      | ConnectVPN \<Rightarrow> fetch_code_text n msg
      | _ \<Rightarrow> ''report device failed with code '' @ itoa_int n @ '': '' @ msg)"

definition client_err_text :: "(client_err \<Rightarrow> string) \<Rightarrow> client_err \<Rightarrow> string" where
  "client_err_text cause e =
     (case e of
        ErrLoggedOut msg \<Rightarrow> logged_out_text msg
      | ErrNoServer a \<Rightarrow> ''server url missing for '' @ api_name_string a
      | ErrNet a \<Rightarrow> ''request '' @ api_name_string a @ '' failed: '' @ cause e
      | ErrRead a \<Rightarrow> ''read response for '' @ api_name_string a @ '': '' @ cause e
      | ErrEnvelope a \<Rightarrow> ''parse envelope for '' @ api_name_string a @ '': '' @ cause e
      | ErrData a \<Rightarrow> ''parse data for '' @ api_name_string a @ '': '' @ cause e
      | ErrMsg msg \<Rightarrow> msg
      | ErrCode a n msg \<Rightarrow> code_text a n msg
      | ErrOtp \<Rightarrow> ''decode totp secret: '' @ cause e
      | ErrPlatform p \<Rightarrow> ''invalid platform '' @ cause e
      | ErrNoPassword \<Rightarrow> ''platform feilian_v1 requires a password''
      | ErrV1Result r \<Rightarrow> ''v1 login returned unexpected result: '' @ r
      | ErrNoVPN \<Rightarrow> ''no vpn available''
      | _ \<Rightarrow> cause e)"

section \<open>Occurrence of a word\<close>

lemma contains_iff: "contains s k \<longleftrightarrow> (\<exists>u v. s = u @ k @ v)"
proof (induction s)
  case (Cons c s)
  have "(\<exists>u v. c # s = u @ k @ v) \<longleftrightarrow> (\<exists>v. c # s = k @ v) \<or> (\<exists>u v. s = u @ k @ v)"
    by (auto simp: Cons_eq_append_conv)
  then show ?case using Cons by (simp add: has_prefix_iff)
qed simp

lemma append_split: "x @ y = u @ z \<Longrightarrow> (\<exists>w. x = u @ w \<and> z = w @ y) \<or> (\<exists>w. u = x @ w \<and> y = w @ z)"
  unfolding append_eq_append_conv2 by auto

text \<open>A character that the word does not have separates the texts around it.\<close>

lemma contains_separated:
  assumes "c \<notin> set k" and "k \<noteq> []"
  shows "contains (a @ c # b) k \<longleftrightarrow> contains a k \<or> contains b k"
proof
  assume "contains (a @ c # b) k"
  then obtain u v where e: "a @ c # b = u @ k @ v" by (auto simp: contains_iff)
  then consider (left) w where "a = u @ w" "k @ v = w @ c # b" | (right) w where "u = a @ w" "c # b = w @ k @ v"
    using append_split [OF e] by blast
  then show "contains a k \<or> contains b k"
  proof cases
    case left
    have "k = w \<or> (\<exists>z. k = w @ c # z)" if "k = w @ z" "c # b = z @ v" for z using that by (cases z) auto
    then obtain x where "w = k @ x" using append_split [OF left(2)] assms by fastforce
    then show ?thesis using left(1) by (auto simp: contains_iff)
  next
    case right
    then show ?thesis using assms by (cases w) (auto simp: contains_iff Cons_eq_append_conv)
  qed
next
  assume "contains a k \<or> contains b k"
  then show "contains (a @ c # b) k" unfolding contains_iff by (metis append_Cons append_assoc)
qed

text \<open>Neither do characters behind a text matter, when the word does not end in one of them.\<close>

lemma contains_tail:
  assumes "k \<noteq> []" and "last k \<notin> set y"
  shows "contains (x @ y) k \<longleftrightarrow> contains x k"
proof
  assume "contains (x @ y) k"
  then obtain u v where e: "x @ y = u @ k @ v" by (auto simp: contains_iff)
  then obtain w where x: "x = u @ w" "k @ v = w @ y" using append_split [OF e] assms by fastforce
  have "k = w" if "k = w @ z" "y = z @ v" for z using that assms by (cases z rule: rev_cases) auto
  then obtain z where "w = k @ z" using append_split [OF x(2)] by fastforce
  then show "contains x k" using x(1) by (auto simp: contains_iff)
next
  assume "contains x k"
  then show "contains (x @ y) k" unfolding contains_iff by (metis append_assoc)
qed

text \<open>The text in front of the server's message names no code, and neither does the number in it: the manager asks for a
  code exactly when the message itself does.\<close>

lemma otp_keyword_ends: "k \<in> set otp_keywords \<Longrightarrow> k \<noteq> [] \<and> CHR '':'' \<notin> set k \<and> hd k \<noteq> CHR '' '' \<and> \<not> is_digit (last k) \<and>
    last k \<noteq> CHR ''-'' \<and> \<not> contains ''fetch peer info failed with code '' k"
proof -
  have "list_all (\<lambda>k. k \<noteq> [] \<and> CHR '':'' \<notin> set k \<and> hd k \<noteq> CHR '' '' \<and> \<not> is_digit (last k) \<and>
    last k \<noteq> CHR ''-'' \<and> \<not> contains ''fetch peer info failed with code '' k) otp_keywords" by code_simp
  then show "k \<in> set otp_keywords \<Longrightarrow> ?thesis" by (auto simp: list_all_iff)
qed

lemma lower_digit: "is_digit c \<Longrightarrow> lower c = c"
  by (auto simp: lower_def is_upper_def is_digit_def)

lemma itoa_int_chars: "c \<in> set (itoa_int n) \<Longrightarrow> is_digit c \<or> c = CHR ''-''"
  by (auto simp: itoa_int_def dest: itoa_digits_set split: if_splits)

lemma lower_itoa_int: "to_lower (itoa_int n) = itoa_int n"
proof -
  have "lower c = c" if "c \<in> set (itoa_int n)" for c
  proof -
    have "lower (CHR ''-'') = CHR ''-''" by code_simp
    then show ?thesis using itoa_int_chars [OF that] lower_digit by blast
  qed
  then show ?thesis by (simp add: to_lower_def map_idI)
qed

lemma otp_rejection_word:
  assumes "k \<in> set otp_keywords" and "p = ''fetch peer info failed with code ''"
  shows "contains ((p @ itoa_int n) @ CHR '':'' # CHR '' '' # s) k \<longleftrightarrow> contains s k"
proof -
  have k: "k \<noteq> []" "CHR '':'' \<notin> set k" "hd k \<noteq> CHR '' ''" "\<not> is_digit (last k)" "last k \<noteq> CHR ''-''" "\<not> contains p k"
    using otp_keyword_ends [OF assms(1)] unfolding assms(2) by blast+
  have "last k \<notin> set (itoa_int n)" using k(4,5) itoa_int_chars by blast
  then have "\<not> contains (p @ itoa_int n) k" using k(6) contains_tail [OF k(1)] by blast
  moreover have "contains (CHR '' '' # s) k = contains s k" using k(1,3) by (cases k) (auto simp: has_prefix_iff)
  ultimately show ?thesis using contains_separated [OF k(2,1)] by metis
qed

lemma otp_rejection: "looks_like_otp_error (fetch_code_text n msg) \<longleftrightarrow> list_ex (contains (to_lower msg)) otp_keywords"
proof -
  have t: "to_lower (fetch_code_text n msg) =
      (''fetch peer info failed with code '' @ itoa_int n) @ CHR '':'' # CHR '' '' # to_lower msg"
  proof -
    have "map lower ''fetch peer info failed with code '' = ''fetch peer info failed with code ''"
      "map lower '': '' = '': ''" by code_simp+
    then show ?thesis using lower_itoa_int [of n] by (simp add: fetch_code_text_def to_lower_def)
  qed
  have "contains (to_lower (fetch_code_text n msg)) k \<longleftrightarrow> contains (to_lower msg) k" if "k \<in> set otp_keywords" for k
    unfolding t by (rule otp_rejection_word [OF that refl])
  then show ?thesis by (auto simp: looks_like_otp_error_def list_ex_iff)
qed

end
