(* ===== verification/Manager.thy ===== *)
theory Manager
  imports Watchdog "HOL-Library.Multiset"
begin

text \<open>
  The connection manager (\<open>vpnmgr/manager.go\<close>, \<open>connect.go\<close>, \<open>Manager.Logout\<close> of \<open>admin.go\<close>): its
  goroutines interleave between their critical sections, and every interleaving is a run of the model.

  A task is a goroutine at one point of its code, with what it holds in local variables. A step runs a
  task up to the end of its next critical section or call to the outside: it gives the tasks that go on
  from there (none when the goroutine ends, more than one when it starts others) and the changed world.
  What the outside answers is the choice of the step. Tunnels and proxies are named by numbers that are
  never reused; which are open is part of the world, as is the listen address they were given.
\<close>

section \<open>State\<close>

datatype conn_state = LoggedOut | LoggedIn | Connecting | Connected | Disconnecting

record tunnel =
  tn_dev :: nat
  tn_addr :: string
  tn_node :: int
  tn_name :: string

record mgr =
  mg_state :: conn_state
  mg_err :: string
  mg_device :: "nat option"
  mg_proxy :: "nat option"
  mg_loops :: "nat option"
  mg_since :: "instant option"
  mg_cur_id :: int
  mg_cur_name :: string
  mg_cur_addr :: string
  mg_stats :: tunnel_stats
  mg_refreshed :: "instant option"
  mg_server_id :: int

text \<open>A proxy that listens: its address, and the tunnel it dials through.\<close>

record listener =
  ls_addr :: string
  ls_tunnel :: nat

record world =
  wd_mgr :: mgr
  wd_next :: nat
  wd_open :: "nat list"
  wd_proxies :: "(nat \<times> listener) list"
  wd_refresh :: bool
  wd_live :: "nat list"
  wd_listen :: string
  wd_reports :: "(string \<times> bool) list"

text \<open>\<open>wd_live\<close>: the contexts of the background loops that are not cancelled. \<open>wd_refresh\<close>: whether
  \<open>refreshMu\<close> is held. \<open>wd_listen\<close>: the configured listen address. \<open>wd_reports\<close>: the reports sent to
  the node, and whether each is a disconnect.\<close>

section \<open>Tasks\<close>

text \<open>Who runs \<open>connectReal\<close>: \<open>Connect\<close> with a code, or \<open>reconnect\<close> in its \<open>n\<close>-th attempt.\<close>

datatype job = UserConnect string | Reconnection nat

text \<open>Who runs \<open>refreshTunnelKicked\<close>, in which loop context: the refresher or the watchdog.\<close>

datatype caller = Refresher nat | Watcher nat

text \<open>What follows \<open>teardown\<close>.\<close>

datatype after_down = Return | SetLoggedInNext | ReconnectNext | LogoutNext

record refresh =
  rf_caller :: caller
  rf_proxy :: nat
  rf_old :: nat
  rf_addr :: string

datatype task =
    StartConnect int string
  | Build job
  | Listen job tunnel
  | Commit job tunnel nat
  | Failed job bool string
  | StartDisconnect
  | ReportOff string
  | TearDown after_down
  | CloseAll "nat option" "nat option" "nat option" after_down
  | SetIdle
  | StartReconnect
  | StartLogout
  | LogoutRemote
  | LogoutDone
  | ListServers
  | LoginDone
  | SetListen string
  | Sampler nat
  | Reporter nat
  | WatchLoop nat
  | RefreshLoop nat
  | RefreshLock caller bool
  | RefreshBuild refresh nat
  | RefreshProbe refresh nat tunnel
  | RefreshSwap refresh tunnel
  | RefreshCommit refresh tunnel
  | RefreshFailed caller
  | Drain nat string

text \<open>What a step may meet: the time, whether a call succeeds, its error and whether that is a logout, whether a kick came,
  whether a timer fires although the context is cancelled, what a built tunnel is, what a sample reads.\<close>

record choice =
  ch_now :: instant
  ch_ok :: bool
  ch_err :: string
  ch_logged_out :: bool
  ch_kicked :: bool
  ch_fetching :: bool
  ch_has_otp :: bool
  ch_addr :: string
  ch_node :: int
  ch_name :: string
  ch_sample :: sample

section \<open>Critical sections\<close>

definition set_state :: "conn_state \<Rightarrow> string \<Rightarrow> world \<Rightarrow> world" where
  "set_state s e w = w\<lparr>wd_mgr := (wd_mgr w)\<lparr>mg_state := s, mg_err := e\<rparr>\<rparr>"

definition close_device :: "nat \<Rightarrow> world \<Rightarrow> world" where
  "close_device d w = w\<lparr>wd_open := remove1 d (wd_open w)\<rparr>"

definition close_proxy :: "nat \<Rightarrow> world \<Rightarrow> world" where
  "close_proxy p w = w\<lparr>wd_proxies := filter (\<lambda>(q, _). q \<noteq> p) (wd_proxies w)\<rparr>"

definition set_logged_in :: "world \<Rightarrow> world" where
  "set_logged_in w = (if mg_state (wd_mgr w) = LoggedOut then w\<lparr>wd_mgr := (wd_mgr w)\<lparr>mg_state := LoggedIn\<rparr>\<rparr> else w)"

text \<open>\<open>Connect\<close> up to the call of \<open>connectReal\<close>.\<close>

definition start_connect :: "int \<Rightarrow> string \<Rightarrow> world \<Rightarrow> task list \<times> world" where
  "start_connect sid otp w =
     (let m = wd_mgr w in
      if mg_state m = Connected \<or> mg_state m = Connecting then ([], w)
      else ([Build (UserConnect otp)],
            w\<lparr>wd_mgr := m\<lparr>mg_state := Connecting, mg_err := [],
                          mg_server_id := (if sid \<noteq> 0 then sid else mg_server_id m)\<rparr>\<rparr>))"

text \<open>\<open>buildTunnel\<close>: \<open>None\<close> when it fails, with the error to return.\<close>

definition build_error :: "choice \<Rightarrow> string \<Rightarrow> string" where
  "build_error ch otp =
     (if ch_fetching ch \<and> \<not> ch_logged_out ch \<and> otp = [] \<and> \<not> ch_has_otp ch \<and> looks_like_otp_error (ch_err ch)
      then ''otp required'' else ch_err ch)"

definition build_tunnel :: "choice \<Rightarrow> world \<Rightarrow> tunnel option \<times> world" where
  "build_tunnel ch w =
     (if ch_ok ch then
        (Some \<lparr>tn_dev = wd_next w, tn_addr = ch_addr ch, tn_node = ch_node ch, tn_name = ch_name ch\<rparr>,
         w\<lparr>wd_open := wd_next w # wd_open w, wd_next := wd_next w + 1\<rparr>)
      else (None, if ch_logged_out ch then set_state LoggedOut (ch_err ch) w else w))"

definition job_otp :: "job \<Rightarrow> string" where
  "job_otp j = (case j of UserConnect otp \<Rightarrow> otp | Reconnection _ \<Rightarrow> [])"

text \<open>\<open>ListenAndServe\<close>: an address that another proxy listens on is in use.\<close>

definition listen_step :: "choice \<Rightarrow> job \<Rightarrow> tunnel \<Rightarrow> world \<Rightarrow> task list \<times> world" where
  "listen_step ch j t w =
     (if ch_ok ch \<and> (\<forall>(p, l) \<in> set (wd_proxies w). ls_addr l \<noteq> wd_listen w) then
        ([Commit j t (wd_next w)],
         w\<lparr>wd_proxies := (wd_next w, \<lparr>ls_addr = wd_listen w, ls_tunnel = tn_dev t\<rparr>) # wd_proxies w,
           wd_next := wd_next w + 1\<rparr>)
      else ([Failed j False (ch_err ch)], close_device (tn_dev t) w))"

text \<open>The report and the commit of \<open>connectReal\<close>, and the loops it starts.\<close>

definition commit_step :: "choice \<Rightarrow> tunnel \<Rightarrow> nat \<Rightarrow> world \<Rightarrow> task list \<times> world" where
  "commit_step ch t p w =
     (let c = wd_next w; m = wd_mgr w
      in ([Sampler c, Reporter c, WatchLoop c, RefreshLoop c],
          w\<lparr>wd_next := c + 1, wd_live := c # wd_live w, wd_reports := wd_reports w @ [(tn_addr t, False)],
            wd_mgr := m\<lparr>mg_device := Some (tn_dev t), mg_proxy := Some p, mg_since := Some (ch_now ch),
              mg_cur_id := tn_node t, mg_cur_name := tn_name t, mg_cur_addr := tn_addr t,
              mg_stats := reset_tunnel_stats (ch_now ch) (mg_stats m), mg_state := Connected, mg_err := [],
              mg_loops := Some c\<rparr>\<rparr>))"

text \<open>The error branches of \<open>Connect\<close> and of \<open>reconnect\<close> with \<open>retryReconnect\<close>.\<close>

definition failed_step :: "job \<Rightarrow> bool \<Rightarrow> string \<Rightarrow> world \<Rightarrow> task list \<times> world" where
  "failed_step j logged_out e w =
     (case j of
        UserConnect _ \<Rightarrow> ([TearDown Return], set_state LoggedIn e w)
      | Reconnection n \<Rightarrow>
          if logged_out \<or> reconnect_attempts \<le> n + 1
          then ([TearDown Return], set_state LoggedIn (''reconnect failed: '' @ e) w)
          else ([Build (Reconnection (n + 1))], w))"

definition start_disconnect :: "world \<Rightarrow> task list \<times> world" where
  "start_disconnect w =
     (let m = wd_mgr w in
      if mg_state m \<noteq> Connected \<and> mg_state m \<noteq> Connecting then ([], w)
      else ([ReportOff (if mg_device m \<noteq> None then mg_cur_addr m else [])],
            w\<lparr>wd_mgr := m\<lparr>mg_state := Disconnecting\<rparr>\<rparr>))"

definition report_off :: "string \<Rightarrow> world \<Rightarrow> world" where
  "report_off a w = (if a = [] then w else w\<lparr>wd_reports := wd_reports w @ [(a, True)]\<rparr>)"

text \<open>\<open>teardown\<close>: what it takes under the mutex, and what it closes then.\<close>

definition tear_down :: "after_down \<Rightarrow> world \<Rightarrow> task list \<times> world" where
  "tear_down next w =
     (let m = wd_mgr w in
      ([CloseAll (mg_loops m) (mg_proxy m) (mg_device m) next],
       w\<lparr>wd_mgr := m\<lparr>mg_proxy := None, mg_device := None, mg_loops := None, mg_since := None,
                     mg_stats := clear_rates (mg_stats m)\<rparr>\<rparr>))"

definition on_some :: "('a \<Rightarrow> 's \<Rightarrow> 's) \<Rightarrow> 'a option \<Rightarrow> 's \<Rightarrow> 's" where
  "on_some f x s = (case x of None \<Rightarrow> s | Some a \<Rightarrow> f a s)"

definition close_all :: "nat option \<Rightarrow> nat option \<Rightarrow> nat option \<Rightarrow> world \<Rightarrow> world" where
  "close_all c p d w =
     on_some close_device d (on_some close_proxy p (on_some (\<lambda>c w. w\<lparr>wd_live := removeAll c (wd_live w)\<rparr>) c w))"

definition after_down_task :: "after_down \<Rightarrow> task list" where
  "after_down_task a = (case a of Return \<Rightarrow> [] | SetLoggedInNext \<Rightarrow> [SetIdle]
     | ReconnectNext \<Rightarrow> [Build (Reconnection 0)] | LogoutNext \<Rightarrow> [LogoutRemote])"

definition start_reconnect :: "world \<Rightarrow> task list \<times> world" where
  "start_reconnect w =
     (if mg_state (wd_mgr w) \<noteq> Connected then ([], w)
      else ([TearDown ReconnectNext], w\<lparr>wd_mgr := (wd_mgr w)\<lparr>mg_state := Connecting\<rparr>\<rparr>))"

definition logout_done :: "world \<Rightarrow> world" where
  "logout_done w = w\<lparr>wd_mgr := (wd_mgr w)\<lparr>mg_state := LoggedOut, mg_cur_id := 0, mg_cur_name := [], mg_err := []\<rparr>\<rparr>"

text \<open>\<open>Servers\<close>, as far as it touches the manager.\<close>

definition list_servers :: "choice \<Rightarrow> world \<Rightarrow> world" where
  "list_servers ch w = (if \<not> ch_ok ch \<and> ch_logged_out ch then set_state LoggedOut (ch_err ch) w else w)"

section \<open>Background loops\<close>

text \<open>One turn of a loop: the timer may win over a context that is done.\<close>

definition stops :: "choice \<Rightarrow> nat \<Rightarrow> world \<Rightarrow> bool" where
  "stops ch c w = (c \<notin> set (wd_live w) \<and> \<not> ch_ok ch)"

definition sampler_step :: "choice \<Rightarrow> world \<Rightarrow> world" where
  "sampler_step ch w =
     (let m = wd_mgr w in
      if mg_device m = None then w
      else w\<lparr>wd_mgr := m\<lparr>mg_stats := sample_once (ch_sample ch) (mg_stats m)\<rparr>\<rparr>)"

definition watch_step :: "choice \<Rightarrow> nat \<Rightarrow> world \<Rightarrow> task list" where
  "watch_step ch c w =
     (let m = wd_mgr w in
      if mg_device m = None then []
      else if reconnect_reason (watch_inputs (mg_stats m) (ch_now ch)) = None then [WatchLoop c]
      else [RefreshLock (Watcher c) False])"

text \<open>The select of the refresher: a kick, or the ticker.\<close>

definition refresher_step :: "choice \<Rightarrow> nat \<Rightarrow> task list" where
  "refresher_step ch c = [RefreshLock (Refresher c) (ch_kicked ch)]"

definition min_refresh_interval :: duration where "min_refresh_interval = 8 * second"
definition min_kick_refresh_interval :: duration where "min_kick_refresh_interval = 2 * second"

text \<open>Where a refresh returns to, without and with an error.\<close>

definition refresh_done :: "caller \<Rightarrow> task list" where
  "refresh_done c = (case c of Refresher n \<Rightarrow> [RefreshLoop n] | Watcher n \<Rightarrow> [WatchLoop n])"

definition refresh_error :: "caller \<Rightarrow> task list" where
  "refresh_error c = (case c of Refresher n \<Rightarrow> [RefreshLoop n] | Watcher n \<Rightarrow> [StartReconnect])"

text \<open>\<open>refreshTunnelKicked\<close>: the two locks and the checks under them; it waits while \<open>refreshMu\<close> is held.\<close>

definition refresh_lock :: "choice \<Rightarrow> caller \<Rightarrow> bool \<Rightarrow> world \<Rightarrow> task list \<times> world" where
  "refresh_lock ch c kicked w =
     (let m = wd_mgr w; floor = (if kicked then min_kick_refresh_interval else min_refresh_interval) in
      if wd_refresh w then ([RefreshLock c kicked], w)
      else case (mg_state m, mg_proxy m, mg_device m) of
        (Connected, Some p, Some d) \<Rightarrow>
          (case mg_refreshed m of
             Some t \<Rightarrow>
               if ch_now ch - t < floor then (refresh_done c, w)
               else ([RefreshBuild \<lparr>rf_caller = c, rf_proxy = p, rf_old = d, rf_addr = mg_cur_addr m\<rparr> 0],
                     w\<lparr>wd_refresh := True\<rparr>)
           | None \<Rightarrow> ([RefreshBuild \<lparr>rf_caller = c, rf_proxy = p, rf_old = d, rf_addr = mg_cur_addr m\<rparr> 0],
                     w\<lparr>wd_refresh := True\<rparr>))
      | _ \<Rightarrow> (refresh_done c, w))"

text \<open>The loop of \<open>buildLiveTunnel\<close>, in its \<open>n\<close>-th attempt.\<close>

definition refresh_build :: "choice \<Rightarrow> refresh \<Rightarrow> nat \<Rightarrow> world \<Rightarrow> task list \<times> world" where
  "refresh_build ch r n w =
     (case build_tunnel ch w of
        (Some t, w') \<Rightarrow> ([RefreshProbe r n t], w')
      | (None, w') \<Rightarrow> ([RefreshFailed (rf_caller r)], w'))"

definition refresh_probe :: "choice \<Rightarrow> refresh \<Rightarrow> nat \<Rightarrow> tunnel \<Rightarrow> world \<Rightarrow> task list \<times> world" where
  "refresh_probe ch r n t w =
     (if ch_ok ch then ([RefreshSwap r t], w)
      else ([if n + 1 < tunnel_build_attempts then RefreshBuild r (n + 1) else RefreshFailed (rf_caller r)],
            close_device (tn_dev t) w))"

definition refresh_swap :: "refresh \<Rightarrow> tunnel \<Rightarrow> world \<Rightarrow> task list \<times> world" where
  "refresh_swap r t w =
     ([RefreshCommit r t],
      w\<lparr>wd_proxies := map (\<lambda>(p, l). (p, if p = rf_proxy r then l\<lparr>ls_tunnel := tn_dev t\<rparr> else l)) (wd_proxies w)\<rparr>)"

definition refresh_commit :: "choice \<Rightarrow> refresh \<Rightarrow> tunnel \<Rightarrow> world \<Rightarrow> task list \<times> world" where
  "refresh_commit ch r t w0 =
     (let w = w0\<lparr>wd_reports := wd_reports w0 @ [(tn_addr t, False)]\<rparr>; m = wd_mgr w in
      if mg_state m \<noteq> Connected \<or> mg_proxy m \<noteq> Some (rf_proxy r)
      then (refresh_done (rf_caller r), (close_device (tn_dev t) w)\<lparr>wd_refresh := False\<rparr>)
      else
        (Drain (rf_old r) (rf_addr r) # refresh_done (rf_caller r),
         w\<lparr>wd_refresh := False,
           wd_mgr := m\<lparr>mg_device := Some (tn_dev t), mg_cur_id := tn_node t, mg_cur_name := tn_name t,
             mg_cur_addr := tn_addr t, mg_stats := reset_tunnel_stats (ch_now ch) (mg_stats m),
             mg_refreshed := Some (ch_now ch)\<rparr>\<rparr>))"

section \<open>Steps\<close>

definition run_task :: "choice \<Rightarrow> task \<Rightarrow> world \<Rightarrow> task list \<times> world" where
  "run_task ch t w =
     (case t of
        StartConnect sid otp \<Rightarrow> start_connect sid otp w
      | Build j \<Rightarrow>
          (case build_tunnel ch w of
             (Some t, w') \<Rightarrow> ([Listen j t], w')
           | (None, w') \<Rightarrow> ([Failed j (ch_logged_out ch) (build_error ch (job_otp j))], w'))
      | Listen j t \<Rightarrow> listen_step ch j t w
      | Commit j t p \<Rightarrow> commit_step ch t p w
      | Failed j lo e \<Rightarrow> failed_step j lo e w
      | StartDisconnect \<Rightarrow> start_disconnect w
      | ReportOff a \<Rightarrow> ([TearDown SetLoggedInNext], report_off a w)
      | TearDown next \<Rightarrow> tear_down next w
      | CloseAll c p d next \<Rightarrow> (after_down_task next, close_all c p d w)
      | SetIdle \<Rightarrow> ([], set_state LoggedIn [] w)
      | StartReconnect \<Rightarrow> start_reconnect w
      | StartLogout \<Rightarrow> ([TearDown LogoutNext], w)
      | LogoutRemote \<Rightarrow> ([LogoutDone], w)
      | LogoutDone \<Rightarrow> ([], logout_done w)
      | ListServers \<Rightarrow> ([], list_servers ch w)
      | LoginDone \<Rightarrow> ([], set_logged_in w)
      | SetListen a \<Rightarrow> ([], w\<lparr>wd_listen := a\<rparr>)
      | Sampler c \<Rightarrow> if stops ch c w then ([], w) else ([Sampler c], sampler_step ch w)
      | Reporter c \<Rightarrow>
          if stops ch c w then ([], w)
          else ([Reporter c], w\<lparr>wd_reports := wd_reports w @ [(mg_cur_addr (wd_mgr w), False)]\<rparr>)
      | WatchLoop c \<Rightarrow> (if stops ch c w then [] else watch_step ch c w, w)
      | RefreshLoop c \<Rightarrow> (if stops ch c w then [] else refresher_step ch c, w)
      | RefreshLock c kicked \<Rightarrow> refresh_lock ch c kicked w
      | RefreshBuild r n \<Rightarrow> refresh_build ch r n w
      | RefreshProbe r n t \<Rightarrow> refresh_probe ch r n t w
      | RefreshSwap r t \<Rightarrow> refresh_swap r t w
      | RefreshCommit r t \<Rightarrow> refresh_commit ch r t w
      | RefreshFailed c \<Rightarrow> (refresh_error c, w\<lparr>wd_refresh := False\<rparr>)
      | Drain d a \<Rightarrow> ([], close_device d (report_off a w)))"

text \<open>A manager as \<open>New\<close> makes it, for a configuration with or without a server and a listen address.\<close>

definition zero_stats :: tunnel_stats where
  "zero_stats = \<lparr>ts_sampled = 0, ts_last_rx = 0, ts_last_tx = 0, ts_tx_bps = 0, ts_rx_bps = 0, ts_handshake = 0,
     ts_wg_tx = 0, ts_wg_rx = 0, ts_app_tx = None, ts_app_rx = None, ts_since = 0, ts_dial = None\<rparr>"

definition new_world :: "bool \<Rightarrow> string \<Rightarrow> world" where
  "new_world has_server a =
     \<lparr>wd_mgr = \<lparr>mg_state = (if has_server then LoggedIn else LoggedOut), mg_err = [], mg_device = None, mg_proxy = None,
        mg_loops = None, mg_since = None, mg_cur_id = 0, mg_cur_name = [], mg_cur_addr = [], mg_stats = zero_stats,
        mg_refreshed = None, mg_server_id = 0\<rparr>,
      wd_next = 0, wd_open = [], wd_proxies = [], wd_refresh = False, wd_live = [], wd_listen = a, wd_reports = []\<rparr>"

section \<open>What the panel shows\<close>

record status =
  su_state :: conn_state
  su_need_company :: bool
  su_company :: string
  su_username :: string
  su_server_id :: int
  su_server_name :: string
  su_connected :: bool
  su_listen :: string
  su_admin :: bool
  su_error :: string

text \<open>\<open>Addr\<close> of the proxy of the manager, if it has one.\<close>

definition proxy_listen :: "config \<Rightarrow> world \<Rightarrow> string" where
  "proxy_listen conf w =
     (case mg_proxy (wd_mgr w) of
        None \<Rightarrow> socks_listen conf
      | Some p \<Rightarrow>
          (case map_of (wd_proxies w) p of
             Some l \<Rightarrow> if ls_addr l \<noteq> [] then ls_addr l else socks_listen conf
           | None \<Rightarrow> socks_listen conf))"

definition status_of :: "config \<Rightarrow> world \<Rightarrow> status" where
  "status_of conf w =
     (let m = wd_mgr w in
      \<lparr>su_state = mg_state m, su_need_company = (server conf = []), su_company = company_name conf,
       su_username = username conf,
       su_server_id = (if mg_state m = Connected \<and> mg_cur_id m \<noteq> 0 then mg_cur_id m else vpn_server_id conf),
       su_server_name = mg_cur_name m, su_connected = (mg_state m = Connected), su_listen = proxy_listen conf w,
       su_admin = admin_auth_enabled conf, su_error = mg_err m\<rparr>)"

record traffic_sample =
  tf_connected :: bool
  tf_tx_bps :: rat
  tf_rx_bps :: rat
  tf_tx_total :: int
  tf_rx_total :: int
  tf_listen :: string
  tf_since :: int
  tf_last_handshake :: int
  tf_handshake_age :: int
  tf_wg_tx :: int
  tf_wg_rx :: int
  tf_stale_pct :: rat

definition traffic :: "config \<Rightarrow> instant \<Rightarrow> world \<Rightarrow> traffic_sample" where
  "traffic conf now w =
     (let m = wd_mgr w; ts = mg_stats m;
          base = \<lparr>tf_connected = (mg_state m = Connected), tf_tx_bps = ts_tx_bps ts, tf_rx_bps = ts_rx_bps ts,
            tf_tx_total = 0, tf_rx_total = 0, tf_listen = proxy_listen conf w, tf_since = 0, tf_last_handshake = 0,
            tf_handshake_age = 0, tf_wg_tx = 0, tf_wg_rx = 0, tf_stale_pct = 0\<rparr>;
          age = (if 0 < ts_handshake ts then go_div (now - ts_handshake ts * second) second else -1);
          s1 = (if mg_device m = None then base
                else base\<lparr>tf_rx_total := ts_last_rx ts, tf_tx_total := ts_last_tx ts, tf_last_handshake := ts_handshake ts,
                       tf_wg_tx := ts_wg_tx ts, tf_wg_rx := ts_wg_rx ts, tf_handshake_age := age,
                       tf_stale_pct := handshake_staleness_from_age age\<rparr>)
      in case mg_since m of None \<Rightarrow> s1 | Some t \<Rightarrow> s1\<lparr>tf_since := t div second\<rparr>)"

text \<open>\<open>SetCompany\<close>, with the body of the answer of the match service.\<close>

record company_info =
  ci_name :: string
  ci_zh :: string
  ci_en :: string
  ci_server :: string

datatype set_company_err = CompanyFailed company_err | NoDomain string | CompanySave client_err

definition set_company ::
  "client_env \<Rightarrow> string \<Rightarrow> resp_body option \<Rightarrow> client \<Rightarrow> client \<times> (set_company_err + company_info)" where
  "set_company env code body c =
     (case get_company body of
        Inl e \<Rightarrow> (c, Inl (CompanyFailed e))
      | Inr info \<Rightarrow>
          if co_domain info = [] then (c, Inl (NoDomain code))
          else
            let c1 = set_server (co_domain info) (c\<lparr>cl_conf := (cl_conf c)\<lparr>company_name := code\<rparr>\<rparr>)
            in case save_conf env c1 of
                 (c2, Inl e) \<Rightarrow> (c2, Inl (CompanySave e))
               | (c2, Inr _) \<Rightarrow> (c2, Inr \<lparr>ci_name = code, ci_zh = co_zh_name info, ci_en = co_en_name info,
                                     ci_server = co_domain info\<rparr>))"

end
