(* ===== verification/Lifecycle.thy ===== *)
theory Lifecycle
  imports Manager
begin

text \<open>
  What holds of the connection manager under every interleaving of its goroutines: its fields stay
  together, every tunnel and every listener it has open has one owner, at most one refresh is under
  way, and a connection that was torn down is not brought back by the background loops.
\<close>

section \<open>Systems of tasks\<close>

text \<open>The states reached from a start: a task of the list takes a step, or a task that may be started
  at any time is added.\<close>

inductive task_reach ::
  "('t \<Rightarrow> bool) \<Rightarrow> ('c \<Rightarrow> 't \<Rightarrow> 's \<Rightarrow> 't list \<times> 's) \<Rightarrow> 't list \<times> 's \<Rightarrow> 't list \<Rightarrow> 's \<Rightarrow> bool"
  for spawnable run start where
  reach_start: "start = (ts, w) \<Longrightarrow> task_reach spawnable run start ts w"
| reach_step: "task_reach spawnable run start (xs @ t # ys) w \<Longrightarrow> run ch t w = (ts, w') \<Longrightarrow>
     task_reach spawnable run start (xs @ ts @ ys) w'"
| reach_spawn: "task_reach spawnable run start ts w \<Longrightarrow> spawnable t \<Longrightarrow> task_reach spawnable run start (ts @ [t]) w"

text \<open>A contract of a step function: an invariant of the tasks and the shared state that every step of a
  task keeps, whatever runs beside it, and that no task that may be started breaks.\<close>

locale task_invariant =
  fixes spawnable :: "'t \<Rightarrow> bool"
    and run :: "'c \<Rightarrow> 't \<Rightarrow> 's \<Rightarrow> 't list \<times> 's"
    and inv :: "'t list \<Rightarrow> 's \<Rightarrow> bool"
  assumes keep: "inv (xs @ t # ys) w \<Longrightarrow> run ch t w = (ts, w') \<Longrightarrow> inv (xs @ ts @ ys) w'"
    and spawn: "inv ts w \<Longrightarrow> spawnable t \<Longrightarrow> inv (ts @ [t]) w"
begin

lemma reach_inv:
  assumes "task_reach spawnable run start ts w" and "inv (fst start) (snd start)"
  shows "inv ts w"
  using assms
proof (induction rule: task_reach.induct)
  case (reach_step xs t ys w ch ts w')
  then show ?case using keep by blast
qed (auto intro: spawn)

end

section \<open>Ownership\<close>

definition opt_list :: "'a option \<Rightarrow> 'a list" where
  "opt_list x = (case x of None \<Rightarrow> [] | Some a \<Rightarrow> [a])"

lemma opt_list_simps [simp]: "opt_list None = []" "opt_list (Some a) = [a]"
  by (simp_all add: opt_list_def)

definition held_devs :: "task \<Rightarrow> nat list" where
  "held_devs t =
     (case t of
        Listen _ t \<Rightarrow> [tn_dev t] | Commit _ t _ \<Rightarrow> [tn_dev t] | CloseAll _ _ d _ \<Rightarrow> opt_list d
      | RefreshProbe _ _ t \<Rightarrow> [tn_dev t] | RefreshSwap _ t \<Rightarrow> [tn_dev t] | RefreshCommit _ t \<Rightarrow> [tn_dev t]
      | Drain d _ \<Rightarrow> [d] | _ \<Rightarrow> [])"

definition held_proxies :: "task \<Rightarrow> nat list" where
  "held_proxies t = (case t of Commit _ _ p \<Rightarrow> [p] | CloseAll _ p _ _ \<Rightarrow> opt_list p | _ \<Rightarrow> [])"

definition refresh_of :: "task \<Rightarrow> refresh option" where
  "refresh_of t =
     (case t of RefreshBuild r _ \<Rightarrow> Some r | RefreshProbe r _ _ \<Rightarrow> Some r | RefreshSwap r _ \<Rightarrow> Some r
      | RefreshCommit r _ \<Rightarrow> Some r | _ \<Rightarrow> None)"

text \<open>The tasks inside the section of \<open>refreshMu\<close>.\<close>

definition refreshing :: "task \<Rightarrow> bool" where
  "refreshing t = (refresh_of t \<noteq> None \<or> (\<exists>c. t = RefreshFailed c))"

definition owned_devs :: "task list \<Rightarrow> world \<Rightarrow> nat multiset" where
  "owned_devs ts w = mset (opt_list (mg_device (wd_mgr w))) + mset (concat (map held_devs ts))"

definition owned_proxies :: "task list \<Rightarrow> world \<Rightarrow> nat multiset" where
  "owned_proxies ts w = mset (opt_list (mg_proxy (wd_mgr w))) + mset (concat (map held_proxies ts))"

text \<open>What is owned is there, once; and when \<open>exact\<close>, nothing else is.\<close>

definition cover :: "bool \<Rightarrow> 'a multiset \<Rightarrow> 'a multiset \<Rightarrow> bool" where
  "cover exact R M = (R \<subseteq># M \<and> (exact \<longrightarrow> R = M))"

lemma cover_close: "cover e (add_mset d R) M \<Longrightarrow> cover e R (M - {#d#})"
  by (auto simp: cover_def insert_subset_eq_iff)

lemma cover_open: "cover e R M \<Longrightarrow> cover e (add_mset d R) (add_mset d M)"
  by (simp add: cover_def)

lemma cover_forget: "cover False (R + S) M \<Longrightarrow> cover False S M"
  by (auto simp: cover_def intro: subset_mset.order_trans [OF mset_subset_eq_add_right])

text \<open>The fields that are set and cleared together; identifiers below the next one; the lock.\<close>

definition fields_ok :: "mgr \<Rightarrow> bool" where
  "fields_ok m = ((mg_device m = None \<longleftrightarrow> mg_proxy m = None) \<and> (mg_device m = None \<longleftrightarrow> mg_loops m = None))"

definition ids_ok :: "world \<Rightarrow> bool" where
  "ids_ok w = (distinct (wd_open w) \<and> distinct (map fst (wd_proxies w)) \<and>
     (\<forall>d \<in> set (wd_open w). d < wd_next w) \<and> (\<forall>p \<in> fst ` set (wd_proxies w). p < wd_next w))"

definition lock_ok :: "task list \<Rightarrow> world \<Rightarrow> bool" where
  "lock_ok ts w = (length (filter refreshing ts) = (if wd_refresh w then 1 else 0))"

definition commits :: "task list \<Rightarrow> nat set" where
  "commits ts = {p. \<exists>j t. Commit j t p \<in> set ts}"

definition refresh_ok :: "task list \<Rightarrow> world \<Rightarrow> bool" where
  "refresh_ok ts w = (\<forall>t \<in> set ts. \<forall>r. refresh_of t = Some r \<longrightarrow>
     rf_proxy r < wd_next w \<and> rf_proxy r \<notin> commits ts \<and>
     (mg_proxy (wd_mgr w) = Some (rf_proxy r) \<longrightarrow> mg_device (wd_mgr w) = Some (rf_old r)))"

text \<open>With a fixed listen address: at most one listener.\<close>

definition one_listener :: "string \<Rightarrow> world \<Rightarrow> bool" where
  "one_listener a w = (wd_listen w = a \<and> (\<forall>(p, l) \<in> set (wd_proxies w). ls_addr l = a) \<and> length (wd_proxies w) \<le> 1)"

definition mgr_inv :: "string option \<Rightarrow> task list \<Rightarrow> world \<Rightarrow> bool" where
  "mgr_inv a ts w =
     (fields_ok (wd_mgr w) \<and> ids_ok w \<and> lock_ok ts w \<and> refresh_ok ts w \<and>
      cover (a \<noteq> None) (owned_devs ts w) (mset (wd_open w)) \<and>
      cover (a \<noteq> None) (owned_proxies ts w) (mset (map fst (wd_proxies w))) \<and>
      (\<forall>x. a = Some x \<longrightarrow> one_listener x w \<and> (\<forall>s. SetListen s \<in> set ts \<longrightarrow> s = x)))"

named_theorems owner_defs
declare owned_devs_def [owner_defs] owned_proxies_def [owner_defs] held_devs_def [owner_defs]
  held_proxies_def [owner_defs]

text \<open>A step that keeps the tunnels, the proxies, the lock, and what its task holds.\<close>

definition same_core :: "world \<Rightarrow> world \<Rightarrow> bool" where
  "same_core w w' =
     (mg_device (wd_mgr w') = mg_device (wd_mgr w) \<and> mg_proxy (wd_mgr w') = mg_proxy (wd_mgr w) \<and>
      mg_loops (wd_mgr w') = mg_loops (wd_mgr w) \<and> wd_next w' = wd_next w \<and> wd_open w' = wd_open w \<and>
      wd_proxies w' = wd_proxies w \<and> wd_refresh w' = wd_refresh w \<and> wd_listen w' = wd_listen w)"

definition idle_task :: "task \<Rightarrow> bool" where
  "idle_task t = (held_devs t = [] \<and> held_proxies t = [] \<and> \<not> refreshing t)"

lemma idle_task_simps [simp]:
  "idle_task (StartConnect i s)" "idle_task (Build j)" "idle_task (Failed j b s)" "idle_task StartDisconnect"
  "idle_task (ReportOff s)" "idle_task (TearDown a)" "idle_task SetIdle" "idle_task StartReconnect"
  "idle_task StartLogout" "idle_task LogoutRemote" "idle_task LogoutDone" "idle_task ListServers" "idle_task LoginDone"
  "idle_task (SetListen s)" "idle_task (Sampler c)" "idle_task (Reporter c)" "idle_task (WatchLoop c)"
  "idle_task (RefreshLoop c)" "idle_task (RefreshLock k b)"
  by (simp_all add: idle_task_def held_devs_def held_proxies_def refreshing_def refresh_of_def)

lemma idle_no_refresh: "idle_task t \<Longrightarrow> refresh_of t = None"
  by (simp add: idle_task_def refreshing_def)

lemma not_idle [simp]: "\<not> idle_task (Commit j u p)"
  by (simp add: idle_task_def held_devs_def)

lemma idle_list:
  assumes "list_all idle_task ts"
  shows "concat (map held_devs ts) = []" "concat (map held_proxies ts) = []" "filter refreshing ts = []"
  using assms by (induction ts) (auto simp: idle_task_def)

lemma commits_append [simp]: "commits (xs @ ys) = commits xs \<union> commits ys" "commits [] = {}"
  by (auto simp: commits_def)

lemma commits_idle: "list_all idle_task ts \<Longrightarrow> commits ts = {}"
  by (auto simp: commits_def list_all_iff)

lemma commits_Cons: "commits (t # ts) = commits [t] \<union> commits ts"
  using commits_append(1) [of "[t]" ts] by simp

lemma refresh_ok_keep:
  assumes "refresh_ok ts w" and "wd_next w \<le> wd_next w'"
    and "\<And>u r. u \<in> set ts' \<Longrightarrow> refresh_of u = Some r \<Longrightarrow> \<exists>u' \<in> set ts. refresh_of u' = Some r"
    and "\<And>p. p \<in> commits ts' \<Longrightarrow> p \<in> commits ts \<or> wd_next w \<le> p"
    and "mg_proxy (wd_mgr w') = None \<or>
      mg_proxy (wd_mgr w') = mg_proxy (wd_mgr w) \<and> mg_device (wd_mgr w') = mg_device (wd_mgr w)"
  shows "refresh_ok ts' w'"
  unfolding refresh_ok_def
proof (intro ballI allI impI)
  fix u r
  assume "u \<in> set ts'" "refresh_of u = Some r"
  then obtain u' where "u' \<in> set ts" "refresh_of u' = Some r" using assms(3) by blast
  then have r: "rf_proxy r < wd_next w" "rf_proxy r \<notin> commits ts"
    "mg_proxy (wd_mgr w) = Some (rf_proxy r) \<longrightarrow> mg_device (wd_mgr w) = Some (rf_old r)"
    using assms(1) unfolding refresh_ok_def by blast+
  have "rf_proxy r \<notin> commits ts'" using assms(4) r(1,2) by fastforce
  then show "rf_proxy r < wd_next w' \<and> rf_proxy r \<notin> commits ts' \<and>
      (mg_proxy (wd_mgr w') = Some (rf_proxy r) \<longrightarrow> mg_device (wd_mgr w') = Some (rf_old r))"
    using r assms(2,5) by auto
qed

lemma mgr_inv_idle:
  assumes inv: "mgr_inv a (xs @ t # ys) w" and t: "idle_task t" and ts: "list_all idle_task ts" and same: "same_core w w'"
    and listen: "\<forall>s. SetListen s \<notin> set ts"
  shows "mgr_inv a (xs @ ts @ ys) w'"
proof -
  have com: "commits (xs @ ts @ ys) = commits (xs @ t # ys)"
    using commits_idle [OF ts] commits_idle [of "[t]"] t by (simp add: commits_Cons [of t ys])
  have "refresh_ok (xs @ ts @ ys) w'"
  proof (rule refresh_ok_keep)
    show "refresh_ok (xs @ t # ys) w" using inv by (simp add: mgr_inv_def)
    show "\<exists>u' \<in> set (xs @ t # ys). refresh_of u' = Some r"
      if "u \<in> set (xs @ ts @ ys)" "refresh_of u = Some r" for u r
      using that ts idle_no_refresh [of u] by (auto simp: list_all_iff)
    show "p \<in> commits (xs @ t # ys) \<or> wd_next w \<le> p" if "p \<in> commits (xs @ ts @ ys)" for p
      using that unfolding com by (rule disjI1)
  qed (use same in \<open>simp_all add: same_core_def\<close>)
  moreover have s: "mg_device (wd_mgr w') = mg_device (wd_mgr w)" "mg_proxy (wd_mgr w') = mg_proxy (wd_mgr w)"
    "mg_loops (wd_mgr w') = mg_loops (wd_mgr w)" "wd_next w' = wd_next w" "wd_open w' = wd_open w"
    "wd_proxies w' = wd_proxies w" "wd_refresh w' = wd_refresh w" "wd_listen w' = wd_listen w"
    using same by (simp_all add: same_core_def)
  moreover have "owned_devs (xs @ ts @ ys) w' = owned_devs (xs @ t # ys) w"
    "owned_proxies (xs @ ts @ ys) w' = owned_proxies (xs @ t # ys) w"
    using t idle_list [OF ts] by (simp_all add: owned_devs_def owned_proxies_def idle_task_def s)
  moreover have "lock_ok (xs @ ts @ ys) w' = lock_ok (xs @ t # ys) w"
    using t idle_list [OF ts] by (simp add: lock_ok_def idle_task_def s)
  moreover have "fields_ok (wd_mgr w') = fields_ok (wd_mgr w)" "ids_ok w' = ids_ok w"
    "one_listener x w' = one_listener x w" for x
    by (simp_all add: fields_ok_def ids_ok_def one_listener_def s)
  moreover have "SetListen s \<in> set (xs @ ts @ ys) \<Longrightarrow> SetListen s \<in> set (xs @ t # ys)" for s
    using listen by auto
  ultimately show ?thesis using inv unfolding mgr_inv_def by metis
qed

text \<open>What a step has to show, about its own task only.\<close>

definition dev_share :: "task list \<Rightarrow> world \<Rightarrow> nat multiset" where
  "dev_share ts w = mset (opt_list (mg_device (wd_mgr w))) + mset (concat (map held_devs ts))"

definition proxy_share :: "task list \<Rightarrow> world \<Rightarrow> nat multiset" where
  "proxy_share ts w = mset (opt_list (mg_proxy (wd_mgr w))) + mset (concat (map held_proxies ts))"

lemma owned_split:
  "owned_devs (xs @ ts @ ys) w = dev_share ts w + mset (concat (map held_devs (xs @ ys)))"
  "owned_proxies (xs @ ts @ ys) w = proxy_share ts w + mset (concat (map held_proxies (xs @ ys)))"
  by (simp_all add: owned_devs_def dev_share_def owned_proxies_def proxy_share_def ac_simps)

lemma lock_split: "length (filter refreshing (xs @ ts @ ys)) = length (filter refreshing ts) + length (filter refreshing (xs @ ys))"
  by simp

lemma mgr_inv_change:
  assumes inv: "mgr_inv a (xs @ t # ys) w"
    and fields: "fields_ok (wd_mgr w')" and ids: "ids_ok w'"
    and lock: "length (filter refreshing ts) + (if wd_refresh w then 1 else 0) =
        length (filter refreshing [t]) + (if wd_refresh w' then 1 else (0 :: nat))"
    and ref: "refresh_ok (xs @ ts @ ys) w'"
    and dev: "\<And>R. cover (a \<noteq> None) (dev_share [t] w + R) (mset (wd_open w)) \<Longrightarrow>
        cover (a \<noteq> None) (dev_share ts w' + R) (mset (wd_open w'))"
    and prox: "\<And>R. cover (a \<noteq> None) (proxy_share [t] w + R) (mset (map fst (wd_proxies w))) \<Longrightarrow>
        cover (a \<noteq> None) (proxy_share ts w' + R) (mset (map fst (wd_proxies w')))"
    and listen: "\<And>x. a = Some x \<Longrightarrow> one_listener x w \<Longrightarrow> one_listener x w'"
    and set_listen: "\<forall>s. SetListen s \<notin> set ts"
  shows "mgr_inv a (xs @ ts @ ys) w'"
proof -
  have i: "lock_ok (xs @ [t] @ ys) w" "cover (a \<noteq> None) (owned_devs (xs @ [t] @ ys) w) (mset (wd_open w))"
    "cover (a \<noteq> None) (owned_proxies (xs @ [t] @ ys) w) (mset (map fst (wd_proxies w)))"
    using inv by (simp_all add: mgr_inv_def)
  have "lock_ok (xs @ ts @ ys) w'"
    using lock i(1) unfolding lock_ok_def lock_split [of xs ts ys] lock_split [of xs "[t]" ys] by linarith
  moreover have "cover (a \<noteq> None) (owned_devs (xs @ ts @ ys) w') (mset (wd_open w'))"
    using dev i(2) unfolding owned_split .
  moreover have "cover (a \<noteq> None) (owned_proxies (xs @ ts @ ys) w') (mset (map fst (wd_proxies w')))"
    using prox i(3) unfolding owned_split .
  moreover have "one_listener x w' \<and> (\<forall>s. SetListen s \<in> set (xs @ ts @ ys) \<longrightarrow> s = x)" if "a = Some x" for x
    using inv listen that set_listen by (auto simp: mgr_inv_def)
  ultimately show ?thesis using fields ids ref by (simp add: mgr_inv_def)
qed

text \<open>Most steps change neither the proxy nor the tunnel of the manager, and commit nothing.\<close>

lemma refresh_ok_step:
  assumes inv: "mgr_inv a (xs @ t # ys) w" and "wd_next w \<le> wd_next w'"
    and "\<And>u r. u \<in> set ts \<Longrightarrow> refresh_of u = Some r \<Longrightarrow> refresh_of t = Some r"
    and "\<And>p. p \<in> commits ts \<Longrightarrow> p \<in> commits [t] \<or> wd_next w \<le> p"
    and "mg_proxy (wd_mgr w') = None \<or>
      mg_proxy (wd_mgr w') = mg_proxy (wd_mgr w) \<and> mg_device (wd_mgr w') = mg_device (wd_mgr w)"
  shows "refresh_ok (xs @ ts @ ys) w'"
proof (rule refresh_ok_keep [OF _ assms(2) _ _ assms(5)])
  show "refresh_ok (xs @ t # ys) w" using inv by (simp add: mgr_inv_def)
  show "\<exists>u' \<in> set (xs @ t # ys). refresh_of u' = Some r" if "u \<in> set (xs @ ts @ ys)" "refresh_of u = Some r" for u r
    using that assms(3) [of u r] by auto
  show "p \<in> commits (xs @ t # ys) \<or> wd_next w \<le> p" if "p \<in> commits (xs @ ts @ ys)" for p
    using that assms(4) [of p] by (auto simp: commits_Cons [of t ys])
qed

lemma commits_single [simp]: "commits [Commit j t p] = {p}"
  by (auto simp: commits_def)

lemma commits_none: "(\<And>j u p. t \<noteq> Commit j u p) \<Longrightarrow> commits [t] = {}"
  by (auto simp: commits_def)

lemma ids_ok_close: "ids_ok w \<Longrightarrow> ids_ok (close_device d w)"
  by (auto simp: ids_ok_def close_device_def dest: notin_set_remove1)

lemma close_device_simps [simp]:
  "wd_mgr (close_device d w) = wd_mgr w" "wd_next (close_device d w) = wd_next w"
  "wd_proxies (close_device d w) = wd_proxies w" "wd_refresh (close_device d w) = wd_refresh w"
  "wd_listen (close_device d w) = wd_listen w" "wd_open (close_device d w) = remove1 d (wd_open w)"
  "wd_live (close_device d w) = wd_live w"
  by (simp_all add: close_device_def)

lemma cover_remove1: "cover e (add_mset d R) (mset ds) \<Longrightarrow> cover e R (mset (remove1 d ds))"
  using cover_close by fastforce

lemma one_listener_cong:
  "wd_listen w' = wd_listen w \<Longrightarrow> wd_proxies w' = wd_proxies w \<Longrightarrow> one_listener x w' = one_listener x w"
  by (simp add: one_listener_def)

lemma ids_ok_cong:
  "wd_open w' = wd_open w \<Longrightarrow> wd_next w' = wd_next w \<Longrightarrow> map fst (wd_proxies w') = map fst (wd_proxies w) \<Longrightarrow> ids_ok w' = ids_ok w"
  unfolding ids_ok_def by (metis list.set_map)

lemma ids_ok_open: "ids_ok w \<Longrightarrow> ids_ok (w\<lparr>wd_open := wd_next w # wd_open w, wd_next := wd_next w + 1\<rparr>)"
  by (auto simp: ids_ok_def less_Suc_eq)

text \<open>A task brings up a tunnel, and holds it.\<close>

lemma inv_open:
  assumes inv: "mgr_inv a (xs @ t # ys) w" and held: "held_devs t = []" "held_devs u = [wd_next w]"
    "held_proxies t = []" "held_proxies u = []" "refreshing u = refreshing t" "refresh_of u = refresh_of t"
    and no: "\<And>j v p. u \<noteq> Commit j v p" "\<And>s. u \<noteq> SetListen s"
  shows "mgr_inv a (xs @ [u] @ ys) (w\<lparr>wd_open := wd_next w # wd_open w, wd_next := wd_next w + 1\<rparr>)"
proof (rule mgr_inv_change [OF inv])
  show "refresh_ok (xs @ [u] @ ys) (w\<lparr>wd_open := wd_next w # wd_open w, wd_next := wd_next w + 1\<rparr>)"
    by (rule refresh_ok_step [OF inv]) (use held commits_none [OF no(1)] in simp_all)
  show "cover (a \<noteq> None) (dev_share [u] (w\<lparr>wd_open := wd_next w # wd_open w, wd_next := wd_next w + 1\<rparr>) + R)
      (mset (wd_open (w\<lparr>wd_open := wd_next w # wd_open w, wd_next := wd_next w + 1\<rparr>)))"
    if "cover (a \<noteq> None) (dev_share [t] w + R) (mset (wd_open w))" for R
    using cover_open [OF that] by (simp add: dev_share_def held)
qed (use inv held no ids_ok_open in \<open>auto simp: mgr_inv_def proxy_share_def one_listener_def\<close>)

text \<open>A task closes the tunnel it holds.\<close>

lemma inv_close:
  assumes inv: "mgr_inv a (xs @ t # ys) w" and held: "held_devs t = [d]" "held_proxies t = []"
    and ts: "\<And>u. u \<in> set ts \<Longrightarrow> held_devs u = [] \<and> held_proxies u = [] \<and> (refresh_of u = None \<or> refresh_of u = refresh_of t) \<and>
        (\<forall>s. u \<noteq> SetListen s)"
    and lock: "length (filter refreshing ts) + (if wd_refresh w then 1 else 0) =
        length (filter refreshing [t]) + (if l then 1 else (0 :: nat))"
  shows "mgr_inv a (xs @ ts @ ys) ((close_device d w)\<lparr>wd_refresh := l, wd_reports := rs\<rparr>)"
proof -
  let ?w = "(close_device d w)\<lparr>wd_refresh := l, wd_reports := rs\<rparr>"
  have h: "concat (map held_devs ts) = []" "concat (map held_proxies ts) = []" using ts by auto
  have c: "commits ts = {}" using ts by (force simp: commits_def held_devs_def)
  show ?thesis
  proof (rule mgr_inv_change [OF inv])
    show "refresh_ok (xs @ ts @ ys) ?w" by (rule refresh_ok_step [OF inv]) (use ts c in fastforce)+
    show "cover (a \<noteq> None) (dev_share ts ?w + R) (mset (wd_open ?w))"
      if "cover (a \<noteq> None) (dev_share [t] w + R) (mset (wd_open w))" for R
      using cover_remove1 [of "a \<noteq> None" d] that by (simp add: dev_share_def held h)
    show "ids_ok ?w" using inv ids_ok_close [of w d] ids_ok_cong [of ?w "close_device d w"] by (simp add: mgr_inv_def)
  qed (use inv ts lock in \<open>auto simp: mgr_inv_def proxy_share_def one_listener_def held h\<close>)
qed

section \<open>The steps\<close>

lemma held_simps [simp]:
  "held_devs (Listen j t) = [tn_dev t]" "held_devs (Commit j t p) = [tn_dev t]" "held_devs (CloseAll c q d n) = opt_list d"
  "held_devs (RefreshProbe r k t) = [tn_dev t]" "held_devs (RefreshSwap r t) = [tn_dev t]"
  "held_devs (RefreshCommit r t) = [tn_dev t]" "held_devs (Drain x s) = [x]"
  "held_devs (RefreshBuild r k) = []" "held_devs (RefreshFailed b) = []"
  "held_proxies (Commit j t p) = [p]" "held_proxies (CloseAll c q d n) = opt_list q" "held_proxies (Listen j t) = []"
  "held_proxies (RefreshProbe r k t) = []" "held_proxies (RefreshSwap r t) = []" "held_proxies (RefreshCommit r t) = []"
  "held_proxies (Drain x s) = []" "held_proxies (RefreshBuild r k) = []" "held_proxies (RefreshFailed b) = []"
  by (simp_all add: held_devs_def held_proxies_def)

lemma refresh_simps [simp]:
  "refresh_of (RefreshBuild r k) = Some r" "refresh_of (RefreshProbe r k t) = Some r" "refresh_of (RefreshSwap r t) = Some r"
  "refresh_of (RefreshCommit r t) = Some r" "refresh_of (RefreshFailed b) = None" "refresh_of (Listen j t) = None"
  "refresh_of (Commit j t p) = None" "refresh_of (CloseAll c q d n) = None" "refresh_of (Drain x s) = None"
  "refreshing (RefreshBuild r k)" "refreshing (RefreshProbe r k t)" "refreshing (RefreshSwap r t)"
  "refreshing (RefreshCommit r t)" "refreshing (RefreshFailed b)" "\<not> refreshing (Listen j t)"
  "\<not> refreshing (Commit j t p)" "\<not> refreshing (CloseAll c q d n)" "\<not> refreshing (Drain x s)"
  by (simp_all add: refreshing_def refresh_of_def)

lemma idle_simps:
  "idle_task t \<Longrightarrow> held_devs t = [] \<and> held_proxies t = [] \<and> refresh_of t = None \<and> \<not> refreshing t"
  by (simp add: idle_task_def refreshing_def)

lemmas idle_facts = idle_task_simps [THEN idle_simps]

lemma after_idle: "list_all idle_task (after_down_task n)" "list_all idle_task (refresh_done c)" "list_all idle_task (refresh_error c)"
  "\<forall>s. SetListen s \<notin> set (after_down_task n)" "\<forall>s. SetListen s \<notin> set (refresh_done c)"
  "\<forall>s. SetListen s \<notin> set (refresh_error c)"
  by (simp_all add: after_down_task_def refresh_done_def refresh_error_def split: after_down.split caller.split)

lemma owned_below:
  assumes "mgr_inv a (xs @ t # ys) w"
  shows "d \<in> set (held_devs t) \<Longrightarrow> d < wd_next w" "p \<in> set (held_proxies t) \<Longrightarrow> p < wd_next w"
    "mg_proxy (wd_mgr w) = Some p \<Longrightarrow> p < wd_next w"
proof -
  have c: "owned_devs (xs @ t # ys) w \<subseteq># mset (wd_open w)"
    "owned_proxies (xs @ t # ys) w \<subseteq># mset (map fst (wd_proxies w))" and i: "ids_ok w"
    using assms by (simp_all add: mgr_inv_def cover_def)
  show "d < wd_next w" if "d \<in> set (held_devs t)"
    using mset_subset_eqD [OF c(1), of d] that i by (auto simp: owned_devs_def ids_ok_def)
  show "p < wd_next w" if "p \<in> set (held_proxies t)"
    using mset_subset_eqD [OF c(2), of p] that i by (auto simp: owned_proxies_def ids_ok_def)
  show "p < wd_next w" if "mg_proxy (wd_mgr w) = Some p"
    using mset_subset_eqD [OF c(2), of p] that i by (auto simp: owned_proxies_def ids_ok_def)
qed

lemma inv_listen:
  assumes inv: "mgr_inv a (xs @ Listen j t # ys) w" and r: "listen_step ch j t w = (ts, w')"
  shows "mgr_inv a (xs @ ts @ ys) w'"
proof (cases "ch_ok ch \<and> (\<forall>(p, l) \<in> set (wd_proxies w). ls_addr l \<noteq> wd_listen w)")
  case True
  let ?w = "w\<lparr>wd_proxies := (wd_next w, \<lparr>ls_addr = wd_listen w, ls_tunnel = tn_dev t\<rparr>) # wd_proxies w, wd_next := wd_next w + 1\<rparr>"
  have e: "ts = [Commit j t (wd_next w)]" "w' = ?w" using r True by (simp_all add: listen_step_def)
  have "mgr_inv a (xs @ [Commit j t (wd_next w)] @ ys) ?w"
  proof (rule mgr_inv_change [OF inv])
    show "refresh_ok (xs @ [Commit j t (wd_next w)] @ ys) ?w" by (rule refresh_ok_step [OF inv]) simp_all
    show "cover (a \<noteq> None) (proxy_share [Commit j t (wd_next w)] ?w + R) (mset (map fst (wd_proxies ?w)))"
      if "cover (a \<noteq> None) (proxy_share [Listen j t] w + R) (mset (map fst (wd_proxies w)))" for R
      using cover_open [OF that] by (simp add: proxy_share_def)
    show "one_listener x ?w" if "one_listener x w" for x
      using that True by (cases "wd_proxies w") (auto simp: one_listener_def)
    show "ids_ok ?w" using inv by (auto simp: mgr_inv_def ids_ok_def less_Suc_eq)
  qed (use inv in \<open>auto simp: mgr_inv_def dev_share_def\<close>)
  then show ?thesis by (simp add: e)
next
  case False
  then have e: "ts = [Failed j False (ch_err ch)]" "w' = close_device (tn_dev t) w"
    using r by (simp_all only: listen_step_def if_False prod.inject)
  have "mgr_inv a (xs @ ts @ ys) ((close_device (tn_dev t) w)\<lparr>wd_refresh := wd_refresh w, wd_reports := wd_reports (close_device (tn_dev t) w)\<rparr>)"
    by (rule inv_close [OF inv]) (use e idle_facts in auto)
  moreover have "(close_device (tn_dev t) w)\<lparr>wd_refresh := wd_refresh w, wd_reports := wd_reports (close_device (tn_dev t) w)\<rparr> = w'"
    by (simp add: e close_device_def)
  ultimately show ?thesis by simp
qed

text \<open>The commit of a connection. With one listener the manager has no other connection then.\<close>

lemma commit_alone:
  assumes inv: "mgr_inv (Some x) (xs @ Commit j t p # ys) w"
  shows "mg_proxy (wd_mgr w) = None" "mg_device (wd_mgr w) = None"
proof -
  have "owned_proxies (xs @ Commit j t p # ys) w \<subseteq># mset (map fst (wd_proxies w))" using inv by (simp add: mgr_inv_def cover_def)
  from size_mset_mono [OF this] have "size (owned_proxies (xs @ Commit j t p # ys) w) \<le> 1"
    using inv by (simp add: mgr_inv_def one_listener_def)
  then show "mg_proxy (wd_mgr w) = None" by (cases "mg_proxy (wd_mgr w)") (simp_all add: owned_proxies_def)
  then show "mg_device (wd_mgr w) = None" using inv by (simp add: mgr_inv_def fields_ok_def)
qed

lemma commit_refresh_ok:
  assumes inv: "mgr_inv a (xs @ Commit j t p # ys) w" and idle: "list_all idle_task ts"
    and w': "mg_proxy (wd_mgr w') = Some p" "wd_next w' = wd_next w + 1"
  shows "refresh_ok (xs @ ts @ ys) w'"
  unfolding refresh_ok_def
proof (intro ballI allI impI)
  fix u r
  assume u: "u \<in> set (xs @ ts @ ys)" "refresh_of u = Some r"
  then have "u \<in> set (xs @ Commit j t p # ys)" using idle idle_no_refresh by (auto simp: list_all_iff)
  then have "rf_proxy r < wd_next w" "rf_proxy r \<notin> commits (xs @ Commit j t p # ys)"
    using inv u(2) by (auto simp: mgr_inv_def refresh_ok_def)
  then show "rf_proxy r < wd_next w' \<and> rf_proxy r \<notin> commits (xs @ ts @ ys) \<and>
      (mg_proxy (wd_mgr w') = Some (rf_proxy r) \<longrightarrow> mg_device (wd_mgr w') = Some (rf_old r))"
    using commits_idle [OF idle] by (simp add: w' commits_Cons [of "Commit j t p" ys])
qed

lemma inv_commit:
  assumes inv: "mgr_inv a (xs @ Commit j t p # ys) w" and r: "commit_step ch t p w = (ts, w')"
  shows "mgr_inv a (xs @ ts @ ys) w'"
proof -
  have ts: "ts = [Sampler (wd_next w), Reporter (wd_next w), WatchLoop (wd_next w), RefreshLoop (wd_next w)]"
    and w': "mg_device (wd_mgr w') = Some (tn_dev t)" "mg_proxy (wd_mgr w') = Some p" "mg_loops (wd_mgr w') = Some (wd_next w)"
      "wd_next w' = wd_next w + 1" "wd_open w' = wd_open w" "wd_proxies w' = wd_proxies w" "wd_refresh w' = wd_refresh w"
      "wd_listen w' = wd_listen w"
    using r by (auto simp: commit_step_def Let_def)
  have none: "mg_proxy (wd_mgr w) = None" "mg_device (wd_mgr w) = None" if "a = Some x" for x
    using commit_alone inv that by blast+
  have idle: "list_all idle_task ts" by (simp add: ts)
  have share: "dev_share ts w' = {#tn_dev t#}" "proxy_share ts w' = {#p#}"
    unfolding dev_share_def proxy_share_def idle_list [OF idle] by (simp_all add: w')
  show ?thesis
  proof (rule mgr_inv_change [OF inv])
    show "refresh_ok (xs @ ts @ ys) w'" by (rule commit_refresh_ok [OF inv idle w'(2,4)])
    show "cover (a \<noteq> None) (dev_share ts w' + R) (mset (wd_open w'))"
      if "cover (a \<noteq> None) (dev_share [Commit j t p] w + R) (mset (wd_open w))" for R
    proof (cases a)
      case None
      show ?thesis
        using cover_forget [of "mset (opt_list (mg_device (wd_mgr w)))" "{#tn_dev t#} + R"] that None
        unfolding share by (simp add: dev_share_def w' ac_simps)
    qed (use that none in \<open>simp add: share, simp add: dev_share_def w'\<close>)
    show "cover (a \<noteq> None) (proxy_share ts w' + R) (mset (map fst (wd_proxies w')))"
      if "cover (a \<noteq> None) (proxy_share [Commit j t p] w + R) (mset (map fst (wd_proxies w)))" for R
    proof (cases a)
      case None
      show ?thesis
        using cover_forget [of "mset (opt_list (mg_proxy (wd_mgr w)))" "{#p#} + R"] that None
        unfolding share by (simp add: proxy_share_def w' ac_simps)
    qed (use that none in \<open>simp add: share, simp add: proxy_share_def w'\<close>)
    show "ids_ok w'" using inv by (auto simp: mgr_inv_def ids_ok_def w' less_Suc_eq)
  qed (use idle_list [OF idle] w' in \<open>auto simp: fields_ok_def one_listener_def ts\<close>)
qed

lemma inv_tear_down:
  assumes inv: "mgr_inv a (xs @ TearDown n # ys) w" and r: "tear_down n w = (ts, w')"
  shows "mgr_inv a (xs @ ts @ ys) w'"
proof -
  have ts: "ts = [CloseAll (mg_loops (wd_mgr w)) (mg_proxy (wd_mgr w)) (mg_device (wd_mgr w)) n]"
    and w': "mg_device (wd_mgr w') = None" "mg_proxy (wd_mgr w') = None" "mg_loops (wd_mgr w') = None"
      "wd_next w' = wd_next w" "wd_open w' = wd_open w" "wd_proxies w' = wd_proxies w" "wd_refresh w' = wd_refresh w"
      "wd_listen w' = wd_listen w"
    using r by (auto simp: tear_down_def Let_def)
  show ?thesis
  proof (rule mgr_inv_change [OF inv])
    show "refresh_ok (xs @ ts @ ys) w'"
      by (rule refresh_ok_step [OF inv]) (auto simp: ts w' commits_none)
    show "ids_ok w'" using inv ids_ok_cong [of w' w] by (simp add: mgr_inv_def w')
  qed (use idle_facts in \<open>auto simp: ts w' fields_ok_def dev_share_def proxy_share_def one_listener_def\<close>)
qed

lemma filter_key: "distinct (map fst l) \<Longrightarrow> mset (map fst (filter (\<lambda>(q, _). q \<noteq> p) l)) = mset (map fst l) - {#p#}"
proof (induction l)
  case (Cons x l)
  obtain q v where x: "x = (q, v)" by (cases x)
  have "p \<notin> fst ` set l \<Longrightarrow> filter (\<lambda>(q, _). q \<noteq> p) l = l"
    by (rule filter_True) force
  then show ?case using Cons by (auto simp: x add_mset_remove_trivial_If)
qed simp

lemma inv_close_all:
  assumes inv: "mgr_inv a (xs @ CloseAll c p d n # ys) w"
  shows "mgr_inv a (xs @ after_down_task n @ ys) (close_all c p d w)"
proof -
  let ?w = "close_all c p d w"
  let ?ts = "after_down_task n"
  have w': "wd_mgr ?w = wd_mgr w" "wd_next ?w = wd_next w" "wd_refresh ?w = wd_refresh w" "wd_listen ?w = wd_listen w"
    "wd_open ?w = (case d of None \<Rightarrow> wd_open w | Some d \<Rightarrow> remove1 d (wd_open w))"
    "wd_proxies ?w = (case p of None \<Rightarrow> wd_proxies w | Some p \<Rightarrow> filter (\<lambda>(q, _). q \<noteq> p) (wd_proxies w))"
    by (simp_all add: close_all_def on_some_def close_proxy_def split: option.split)
  have ids: "ids_ok w" using inv by (simp add: mgr_inv_def)
  have share: "dev_share ?ts ?w = mset (opt_list (mg_device (wd_mgr w)))"
    "proxy_share ?ts ?w = mset (opt_list (mg_proxy (wd_mgr w)))"
    unfolding dev_share_def proxy_share_def idle_list [OF after_idle(1)] by (simp_all add: w')
  show ?thesis
  proof (rule mgr_inv_change [OF inv])
    show "refresh_ok (xs @ ?ts @ ys) ?w"
      by (rule refresh_ok_step [OF inv])
        (use after_idle(1) [of n] idle_no_refresh commits_idle [OF after_idle(1), of n] in \<open>auto simp: w' list_all_iff\<close>)
    show "cover (a \<noteq> None) (dev_share ?ts ?w + R) (mset (wd_open ?w))"
      if "cover (a \<noteq> None) (dev_share [CloseAll c p d n] w + R) (mset (wd_open w))" for R
      using that cover_remove1 [of "a \<noteq> None"] unfolding share w' by (cases d) (simp_all add: dev_share_def)
    show "cover (a \<noteq> None) (proxy_share ?ts ?w + R) (mset (map fst (wd_proxies ?w)))"
      if "cover (a \<noteq> None) (proxy_share [CloseAll c p d n] w + R) (mset (map fst (wd_proxies w)))" for R
    proof (cases p)
      case (Some q)
      then show ?thesis
        using cover_close [of "a \<noteq> None" q] that filter_key [of "wd_proxies w" q] ids
        unfolding share w' by (simp add: proxy_share_def ids_ok_def)
    qed (use that in \<open>unfold share w', simp add: proxy_share_def\<close>)
    show "ids_ok ?w"
    proof -
      have "distinct (map fst (filter (\<lambda>(q, _). q \<noteq> x) (wd_proxies w)))" for x
        using ids by (simp add: ids_ok_def distinct_map_filter)
      then show ?thesis
        using ids unfolding ids_ok_def w' by (cases d; cases p) (auto dest: notin_set_remove1)
    qed
    show "one_listener x ?w" if "one_listener x w" for x
      using that unfolding one_listener_def w' by (cases p) (auto intro: order_trans [OF length_filter_le])
  qed (use inv after_idle(1,4) idle_list [OF after_idle(1), of n] in \<open>auto simp: mgr_inv_def w'\<close>)
qed

lemma inv_refresh_lock:
  assumes inv: "mgr_inv a (xs @ RefreshLock c b # ys) w" and r: "refresh_lock ch c b w = (ts, w')"
  shows "mgr_inv a (xs @ ts @ ys) w'"
proof (cases "ts = [RefreshLock c b] \<or> ts = refresh_done c")
  case True
  then have "w' = w" using r by (auto simp: refresh_lock_def Let_def refresh_done_def split: if_splits conn_state.splits option.splits caller.splits)
  moreover have "list_all idle_task ts" "\<forall>s. SetListen s \<notin> set ts" using True after_idle by auto
  ultimately show ?thesis using mgr_inv_idle [OF inv, of ts w] by (simp add: same_core_def)
next
  case False
  then obtain p d where l: "mg_proxy (wd_mgr w) = Some p" "mg_device (wd_mgr w) = Some d" "\<not> wd_refresh w"
    and ts: "ts = [RefreshBuild \<lparr>rf_caller = c, rf_proxy = p, rf_old = d, rf_addr = mg_cur_addr (wd_mgr w)\<rparr> 0]"
    and w': "w' = w\<lparr>wd_refresh := True\<rparr>"
    using r by (auto simp: refresh_lock_def Let_def split: if_splits conn_state.splits option.splits)
  have "p \<notin> commits (xs @ ys)"
  proof
    assume "p \<in> commits (xs @ ys)"
    then obtain j t where "Commit j t p \<in> set (xs @ ys)" by (auto simp: commits_def)
    then have "p \<in># mset (concat (map held_proxies (xs @ RefreshLock c b # ys)))" by force
    then have "{#p, p#} \<subseteq># owned_proxies (xs @ RefreshLock c b # ys) w"
      using l(1) by (simp add: owned_proxies_def)
    then have "{#p, p#} \<subseteq># mset (map fst (wd_proxies w))"
      using inv by (auto simp: mgr_inv_def cover_def intro: subset_mset.order_trans)
    then have "2 \<le> count (mset (map fst (wd_proxies w))) p"
      using mset_subset_eq_count [of "{#p, p#}" _ p] by fastforce
    moreover have "count (mset (map fst (wd_proxies w))) p \<le> 1"
      using inv distinct_count_atmost_1 [of "map fst (wd_proxies w)"] by (simp add: mgr_inv_def ids_ok_def)
    ultimately show False by simp
  qed
  moreover have "\<forall>u \<in> set (xs @ ys). \<forall>r. refresh_of u = Some r \<longrightarrow> rf_proxy r < wd_next w \<and> rf_proxy r \<notin> commits (xs @ ys) \<and>
     (mg_proxy (wd_mgr w) = Some (rf_proxy r) \<longrightarrow> mg_device (wd_mgr w) = Some (rf_old r))"
    using inv by (auto simp: mgr_inv_def refresh_ok_def commits_Cons [of "RefreshLock c b" ys])
  moreover have "commits (xs @ ts @ ys) = commits (xs @ ys)" 
    by (simp add: ts commits_Cons [of "RefreshBuild _ _" ys] commits_none)
  ultimately have "refresh_ok (xs @ ts @ ys) w'"
    using l owned_below(3) [OF inv l(1)] by (auto simp: refresh_ok_def ts w')
  then show ?thesis
    by (rule mgr_inv_change [OF inv, rotated 3])
      (use inv l idle_facts ids_ok_cong [of w' w] in \<open>auto simp: ts w' mgr_inv_def dev_share_def proxy_share_def one_listener_def\<close>)
qed

lemma share_idle:
  assumes "list_all idle_task ts"
  shows "dev_share ts w = mset (opt_list (mg_device (wd_mgr w)))" "proxy_share ts w = mset (opt_list (mg_proxy (wd_mgr w)))"
  unfolding dev_share_def proxy_share_def idle_list [OF assms] by simp_all

lemma share_Cons:
  "dev_share (u # ts) w = mset (held_devs u) + dev_share ts w" "proxy_share (u # ts) w = mset (held_proxies u) + proxy_share ts w"
  "dev_share [] w = mset (opt_list (mg_device (wd_mgr w)))" "proxy_share [] w = mset (opt_list (mg_proxy (wd_mgr w)))"
  by (simp_all add: dev_share_def proxy_share_def)

lemma inv_refresh_build:
  assumes inv: "mgr_inv a (xs @ RefreshBuild r n # ys) w" and s: "refresh_build ch r n w = (ts, w')"
  shows "mgr_inv a (xs @ ts @ ys) w'"
proof (cases "ch_ok ch")
  case True
  let ?t = "\<lparr>tn_dev = wd_next w, tn_addr = ch_addr ch, tn_node = ch_node ch, tn_name = ch_name ch\<rparr>"
  have "ts = [RefreshProbe r n ?t]" "w' = w\<lparr>wd_open := wd_next w # wd_open w, wd_next := wd_next w + 1\<rparr>"
    using s True by (simp_all add: refresh_build_def build_tunnel_def)
  then show ?thesis using inv_open [OF inv, of "RefreshProbe r n ?t"] by simp
next
  case False
  then have ts: "ts = [RefreshFailed (rf_caller r)]" and same: "same_core w w'"
    using s by (auto simp: refresh_build_def build_tunnel_def set_state_def same_core_def split: if_splits)
  have c: "wd_next w' = wd_next w" "wd_open w' = wd_open w" "wd_proxies w' = wd_proxies w" "wd_refresh w' = wd_refresh w"
    "mg_device (wd_mgr w') = mg_device (wd_mgr w)" "mg_proxy (wd_mgr w') = mg_proxy (wd_mgr w)" "wd_listen w' = wd_listen w"
    "mg_loops (wd_mgr w') = mg_loops (wd_mgr w)"
    using same by (simp_all add: same_core_def)
  show ?thesis
  proof (rule mgr_inv_change [OF inv])
    show "refresh_ok (xs @ ts @ ys) w'" by (rule refresh_ok_step [OF inv]) (auto simp: ts c commits_none)
    show "ids_ok w'" using inv ids_ok_cong [of w' w] by (simp add: mgr_inv_def c)
  qed (use inv in \<open>auto simp: ts c mgr_inv_def fields_ok_def dev_share_def proxy_share_def one_listener_def\<close>)
qed

lemma inv_refresh_failed:
  assumes inv: "mgr_inv a (xs @ RefreshFailed c # ys) w"
  shows "mgr_inv a (xs @ refresh_error c @ ys) (w\<lparr>wd_refresh := False\<rparr>)"
proof -
  have "lock_ok (xs @ RefreshFailed c # ys) w" using inv by (simp add: mgr_inv_def)
  then have l: "wd_refresh w" by (cases "wd_refresh w") (simp_all add: lock_ok_def)
  have h: "filter refreshing (refresh_error c) = []" by (rule idle_list [OF after_idle(3)])
  show ?thesis
  proof (rule mgr_inv_change [OF inv])
    show "refresh_ok (xs @ refresh_error c @ ys) (w\<lparr>wd_refresh := False\<rparr>)"
      by (rule refresh_ok_step [OF inv])
        (use after_idle(3) [of c] idle_no_refresh commits_idle [OF after_idle(3), of c] in \<open>auto simp: list_all_iff\<close>)
  qed (use inv l after_idle(6) h ids_ok_cong [of "w\<lparr>wd_refresh := False\<rparr>" w]
      in \<open>simp_all add: mgr_inv_def share_idle [OF after_idle(3)] share_Cons one_listener_def\<close>)
qed

lemma inv_refresh_probe:
  assumes inv: "mgr_inv a (xs @ RefreshProbe r n t # ys) w" and s: "refresh_probe ch r n t w = (ts, w')"
  shows "mgr_inv a (xs @ ts @ ys) w'"
proof (cases "ch_ok ch")
  case True
  then have ts: "ts = [RefreshSwap r t]" "w' = w" using s by (simp_all add: refresh_probe_def)
  show ?thesis
  proof (rule mgr_inv_change [OF inv])
    show "refresh_ok (xs @ ts @ ys) w'" by (rule refresh_ok_step [OF inv]) (auto simp: ts commits_none)
  qed (use inv in \<open>auto simp: ts mgr_inv_def dev_share_def proxy_share_def\<close>)
next
  case False
  then have e: "ts = [if n + 1 < tunnel_build_attempts then RefreshBuild r (n + 1) else RefreshFailed (rf_caller r)]"
    "w' = close_device (tn_dev t) w" using s by (simp_all add: refresh_probe_def)
  have "mgr_inv a (xs @ ts @ ys) ((close_device (tn_dev t) w)\<lparr>wd_refresh := wd_refresh w, wd_reports := wd_reports w\<rparr>)"
    by (rule inv_close [OF inv]) (auto simp: e)
  moreover have "(close_device (tn_dev t) w)\<lparr>wd_refresh := wd_refresh w, wd_reports := wd_reports w\<rparr> = w'"
    by (simp add: e close_device_def)
  ultimately show ?thesis by simp
qed

lemma inv_refresh_swap:
  assumes inv: "mgr_inv a (xs @ RefreshSwap r t # ys) w" and s: "refresh_swap r t w = (ts, w')"
  shows "mgr_inv a (xs @ ts @ ys) w'"
proof -
  have e: "ts = [RefreshCommit r t]" "w' = w\<lparr>wd_proxies := map (\<lambda>(p, l). (p, if p = rf_proxy r then l\<lparr>ls_tunnel := tn_dev t\<rparr> else l)) (wd_proxies w)\<rparr>"
    using s by (simp_all add: refresh_swap_def)
  have p: "map fst (wd_proxies w') = map fst (wd_proxies w)" by (simp add: e case_prod_unfold comp_def)
  show ?thesis
  proof (rule mgr_inv_change [OF inv])
    show "refresh_ok (xs @ ts @ ys) w'" by (rule refresh_ok_step [OF inv]) (auto simp: e commits_none)
    show "ids_ok w'" using inv ids_ok_cong [of w' w] p by (simp add: mgr_inv_def e(2))
    show "cover (a \<noteq> None) (proxy_share ts w' + R) (mset (map fst (wd_proxies w')))"
      if "cover (a \<noteq> None) (proxy_share [RefreshSwap r t] w + R) (mset (map fst (wd_proxies w)))" for R
      using that unfolding p by (simp add: proxy_share_def e)
  qed (use inv in \<open>auto simp: e mgr_inv_def dev_share_def one_listener_def\<close>)
qed

text \<open>The commit of a refresh: the tunnel it replaces is still the one of the manager, and goes to the
  drain.\<close>

lemma inv_refresh_commit:
  assumes inv: "mgr_inv a (xs @ RefreshCommit r t # ys) w" and s: "refresh_commit ch r t w = (ts, w')"
  shows "mgr_inv a (xs @ ts @ ys) w'"
proof -
  have lo: "lock_ok (xs @ RefreshCommit r t # ys) w" using inv by (simp add: mgr_inv_def)
  then have l: "wd_refresh w" by (cases "wd_refresh w") (simp_all add: lock_ok_def)
  have only: "\<not> refreshing u" if "u \<in> set (xs @ ys)" for u
    using lo l that filter_empty_conv [of refreshing "xs @ ys"] by (simp add: lock_ok_def)
  have dn: "filter refreshing (refresh_done k) = []" for k by (rule idle_list [OF after_idle(2)])
  have dc: "refresh_of u = None" "\<forall>s. u \<noteq> SetListen s" "held_devs u = []" "held_proxies u = []" if "u \<in> set (refresh_done k)" for u k
    using that after_idle(2,5) [of k] idle_simps [of u] by (auto simp: list_all_iff)
  show ?thesis
  proof (cases "mg_state (wd_mgr w) \<noteq> Connected \<or> mg_proxy (wd_mgr w) \<noteq> Some (rf_proxy r)")
    case True
    let ?rs = "wd_reports w @ [(tn_addr t, False)]"
    have e: "ts = refresh_done (rf_caller r)" "w' = (close_device (tn_dev t) w)\<lparr>wd_refresh := False, wd_reports := ?rs\<rparr>"
      using s True by (auto simp: refresh_commit_def Let_def close_device_def)
    show ?thesis unfolding e by (rule inv_close [OF inv]) (use l dc dn in auto)
  next
    case False
    have e: "ts = Drain (rf_old r) (rf_addr r) # refresh_done (rf_caller r)"
      and w': "mg_device (wd_mgr w') = Some (tn_dev t)" "mg_proxy (wd_mgr w') = mg_proxy (wd_mgr w)"
        "mg_loops (wd_mgr w') = mg_loops (wd_mgr w)" "wd_next w' = wd_next w" "wd_open w' = wd_open w"
        "wd_proxies w' = wd_proxies w" "\<not> wd_refresh w'" "wd_listen w' = wd_listen w"
      using s False by (auto simp: refresh_commit_def Let_def)
    have old: "mg_device (wd_mgr w) = Some (rf_old r)"
      using inv False by (auto simp: mgr_inv_def refresh_ok_def)
    have "refresh_of u = None" if "u \<in> set (xs @ ts @ ys)" for u
      using that only dc by (auto simp: e refreshing_def)
    then have ref: "refresh_ok (xs @ ts @ ys) w'" by (simp add: refresh_ok_def)
    show ?thesis
    proof (rule mgr_inv_change [OF inv])
      show "refresh_ok (xs @ ts @ ys) w'" by (rule ref)
      show "ids_ok w'" using inv ids_ok_cong [of w' w] by (simp add: mgr_inv_def w')
    qed (use inv l dn dc(2) old in \<open>auto simp: e w' mgr_inv_def fields_ok_def share_Cons share_idle [OF after_idle(2)] one_listener_def ac_simps\<close>)
  qed
qed

lemma inv_set_listen:
  assumes inv: "mgr_inv a (xs @ SetListen s # ys) w"
  shows "mgr_inv a (xs @ [] @ ys) (w\<lparr>wd_listen := s\<rparr>)"
proof (cases a)
  case None
  show ?thesis
  proof (rule mgr_inv_change [OF inv])
    show "refresh_ok (xs @ [] @ ys) (w\<lparr>wd_listen := s\<rparr>)" by (rule refresh_ok_step [OF inv]) simp_all
    show "ids_ok (w\<lparr>wd_listen := s\<rparr>)" using inv by (simp add: mgr_inv_def ids_ok_def)
  qed (use inv idle_facts None in \<open>auto simp: mgr_inv_def dev_share_def proxy_share_def\<close>)
next
  case (Some x)
  then have "w\<lparr>wd_listen := s\<rparr> = w" using inv by (auto simp: mgr_inv_def one_listener_def)
  then show ?thesis using mgr_inv_idle [OF inv, of "[]" w] by (simp add: same_core_def)
qed

text \<open>Every step keeps the invariant.\<close>

lemma set_state_core [simp]: "same_core w (set_state s e w)" "same_core w w"
  by (simp_all add: same_core_def set_state_def)

text \<open>The tasks whose step touches none of the tunnels, the proxies and the lock.\<close>

definition quiet_task :: "task \<Rightarrow> bool" where
  "quiet_task t =
     (case t of
        StartConnect _ _ \<Rightarrow> True | Failed _ _ _ \<Rightarrow> True | StartDisconnect \<Rightarrow> True | ReportOff _ \<Rightarrow> True | SetIdle \<Rightarrow> True
      | StartReconnect \<Rightarrow> True | StartLogout \<Rightarrow> True | LogoutRemote \<Rightarrow> True | LogoutDone \<Rightarrow> True | ListServers \<Rightarrow> True
      | LoginDone \<Rightarrow> True | Sampler _ \<Rightarrow> True | Reporter _ \<Rightarrow> True | WatchLoop _ \<Rightarrow> True | RefreshLoop _ \<Rightarrow> True
      | _ \<Rightarrow> False)"

lemma quiet_idle: "quiet_task t \<Longrightarrow> idle_task t"
  by (simp add: quiet_task_def split: task.splits)

lemma quiet_task_step:
  assumes "quiet_task t" and "run_task ch t w = (ts, w')"
  shows "list_all idle_task ts \<and> (\<forall>s. SetListen s \<notin> set ts) \<and> same_core w w'"
proof -
  note step = run_task_def same_core_def set_state_def Let_def
  show ?thesis
  proof (cases t)
    case (StartConnect i s)
    then show ?thesis using assms by (auto simp: step start_connect_def split: if_splits)
  next
    case (Failed j b s)
    then show ?thesis using assms by (auto simp: step failed_step_def split: if_splits job.splits)
  next
    case StartDisconnect
    then show ?thesis using assms by (auto simp: step start_disconnect_def split: if_splits)
  next
    case (ReportOff s)
    then show ?thesis using assms by (auto simp: step report_off_def split: if_splits)
  next
    case StartReconnect
    then show ?thesis using assms by (auto simp: step start_reconnect_def split: if_splits)
  next
    case LogoutDone
    then show ?thesis using assms by (auto simp: step logout_done_def split: if_splits)
  next
    case ListServers
    then show ?thesis using assms by (auto simp: step list_servers_def split: if_splits)
  next
    case LoginDone
    then show ?thesis using assms by (auto simp: step set_logged_in_def split: if_splits)
  next
    case (Sampler c)
    then show ?thesis using assms by (auto simp: step sampler_step_def split: if_splits)
  next
    case (WatchLoop c)
    then show ?thesis using assms by (auto simp: step watch_step_def split: if_splits)
  next
    case (RefreshLoop c)
    then show ?thesis using assms by (auto simp: step refresher_step_def split: if_splits)
  qed (use assms in \<open>auto simp: quiet_task_def step split: if_splits\<close>)
qed

lemma inv_build:
  assumes inv: "mgr_inv a (xs @ Build j # ys) w" and r: "run_task ch (Build j) w = (ts, w')"
  shows "mgr_inv a (xs @ ts @ ys) w'"
proof (cases "ch_ok ch")
  case True
  let ?u = "\<lparr>tn_dev = wd_next w, tn_addr = ch_addr ch, tn_node = ch_node ch, tn_name = ch_name ch\<rparr>"
  have "ts = [Listen j ?u]" "w' = w\<lparr>wd_open := wd_next w # wd_open w, wd_next := wd_next w + 1\<rparr>"
    using r True by (simp_all add: run_task_def build_tunnel_def)
  then show ?thesis using inv_open [OF inv, of "Listen j ?u"] idle_facts(2) [of j] by simp
next
  case False
  then show ?thesis
    using r by (intro mgr_inv_idle [OF inv]) (auto simp: run_task_def build_tunnel_def split: if_splits)
qed

lemma inv_drain:
  assumes inv: "mgr_inv a (xs @ Drain d s # ys) w" and r: "run_task ch (Drain d s) w = (ts, w')"
  shows "mgr_inv a (xs @ ts @ ys) w'"
proof -
  let ?w = "report_off s w"
  have "ts = []" "w' = (close_device d w)\<lparr>wd_refresh := wd_refresh w, wd_reports := wd_reports ?w\<rparr>"
    using r by (auto simp: run_task_def report_off_def close_device_def split: if_splits)
  then show ?thesis using inv_close [OF inv, of d "[]" "wd_refresh w" "wd_reports ?w"] by simp
qed

lemma run_task_inv:
  assumes inv: "mgr_inv a (xs @ t # ys) w" and r: "run_task ch t w = (ts, w')"
  shows "mgr_inv a (xs @ ts @ ys) w'"
proof (cases "quiet_task t")
  case True
  with quiet_task_step [OF True r] show ?thesis by (intro mgr_inv_idle [OF inv quiet_idle [OF True]]) auto
next
  case False
  note steps = inv_build inv_listen inv_commit inv_tear_down inv_set_listen inv_refresh_lock inv_refresh_build inv_refresh_probe
    inv_refresh_swap inv_refresh_commit inv_drain
  have "?thesis" if "t = CloseAll c p d n" for c p d n
    using inv_close_all inv r that by (auto simp: run_task_def)
  moreover have "?thesis" if "t = RefreshFailed c" for c
    using inv_refresh_failed inv r that by (auto simp: run_task_def)
  moreover have "?thesis" if "t = SetListen s" for s
    using inv_set_listen inv r that by (auto simp: run_task_def)
  moreover have "?thesis" if "t = Build j \<or> t = Drain d s" for j d s
    using inv_build inv_drain inv r that by blast
  ultimately show ?thesis
    using False inv r steps
    by (cases t) (auto simp: quiet_task_def run_task_def)
qed

section \<open>What may happen at any time\<close>

definition external :: "(string \<Rightarrow> bool) \<Rightarrow> task \<Rightarrow> bool" where
  "external listen t =
     (case t of
        StartConnect _ _ \<Rightarrow> True | StartDisconnect \<Rightarrow> True | StartLogout \<Rightarrow> True | ListServers \<Rightarrow> True
      | LoginDone \<Rightarrow> True | SetListen a \<Rightarrow> listen a | _ \<Rightarrow> False)"

lemma external_idle: "external listen t \<Longrightarrow> idle_task t"
  by (simp add: external_def split: task.splits)

lemma mgr_inv_spawn:
  assumes "mgr_inv a ts w" and "external (\<lambda>s. a = None \<or> a = Some s) t"
  shows "mgr_inv a (ts @ [t]) w"
proof -
  have t: "idle_task t" by (rule external_idle [OF assms(2)])
  then have c: "commits (ts @ [t]) = commits ts" using commits_idle [of "[t]"] by simp
  have "lock_ok (ts @ [t]) w = lock_ok ts w" "owned_devs (ts @ [t]) w = owned_devs ts w"
    "owned_proxies (ts @ [t]) w = owned_proxies ts w" "refresh_ok (ts @ [t]) w = refresh_ok ts w"
    using idle_simps [OF t] c by (auto simp: lock_ok_def owned_devs_def owned_proxies_def refresh_ok_def)
  moreover have "a = Some x \<Longrightarrow> SetListen s \<in> set (ts @ [t]) \<Longrightarrow> s = x" for x s
    using assms by (auto simp: mgr_inv_def external_def)
  ultimately show ?thesis using assms(1) unfolding mgr_inv_def by metis
qed

interpretation any_address: task_invariant "external (\<lambda>_. True)" run_task "mgr_inv None"
  by unfold_locales (use run_task_inv mgr_inv_spawn [of None] in auto)

interpretation one_address: task_invariant "external (\<lambda>s. s = a)" run_task "mgr_inv (Some a)" for a
  by unfold_locales (use run_task_inv mgr_inv_spawn [of "Some a"] in \<open>auto simp: eq_commute\<close>)

section \<open>Runs from a new manager\<close>

lemma new_world_inv: "x = None \<or> x = Some a \<Longrightarrow> mgr_inv x [] (new_world b a)"
  by (auto simp: mgr_inv_def new_world_def fields_ok_def ids_ok_def lock_ok_def refresh_ok_def cover_def owned_devs_def
      owned_proxies_def one_listener_def)

text \<open>A run given by the positions of the tasks that step.\<close>

fun run_schedule :: "(nat \<times> choice) list \<Rightarrow> task list \<times> world \<Rightarrow> task list \<times> world" where
  "run_schedule [] s = s"
| "run_schedule ((i, ch) # rest) (ts, w) =
     (case run_task ch (ts ! i) w of (us, w') \<Rightarrow> run_schedule rest (take i ts @ us @ drop (Suc i) ts, w'))"

fun in_range :: "(nat \<times> choice) list \<Rightarrow> task list \<times> world \<Rightarrow> bool" where
  "in_range [] s = True"
| "in_range ((i, ch) # rest) (ts, w) =
     (i < length ts \<and> (case run_task ch (ts ! i) w of (us, w') \<Rightarrow> in_range rest (take i ts @ us @ drop (Suc i) ts, w')))"

lemma schedule_reach:
  assumes "task_reach sp run_task start ts w" and "in_range sch (ts, w)"
  shows "task_reach sp run_task start (fst (run_schedule sch (ts, w))) (snd (run_schedule sch (ts, w)))"
  using assms
proof (induction sch arbitrary: ts w)
  case (Cons x sch)
  obtain i ch where x: "x = (i, ch)" by (cases x)
  obtain us w' where r: "run_task ch (ts ! i) w = (us, w')" by fastforce
  have i: "i < length ts" using Cons.prems(2) by (simp add: x)
  then have "ts = take i ts @ ts ! i # drop (Suc i) ts" by (rule id_take_nth_drop)
  then have "task_reach sp run_task start (take i ts @ us @ drop (Suc i) ts) w'"
    using reach_step [of sp run_task start "take i ts" "ts ! i" "drop (Suc i) ts" w ch us w'] Cons.prems(1) r by simp
  then show ?case using Cons r by (simp add: x)
qed simp

lemma spawn_reach:
  assumes "list_all sp us"
  shows "task_reach sp run ([], w) us w"
  using assms
proof (induction us rule: rev_induct)
  case Nil
  show ?case by (rule reach_start) simp
next
  case (snoc u us)
  then show ?case using reach_spawn [of sp run "([], w)" us w u] by simp
qed

definition sample_choice :: choice where
  "sample_choice = \<lparr>ch_now = 100 * second, ch_ok = True, ch_err = [], ch_logged_out = False, ch_kicked = False,
     ch_fetching = False, ch_has_otp = False, ch_addr = ''10.0.0.2'', ch_node = 1, ch_name = ''n'',
     ch_sample = \<lparr>sa_now = 0, sa_rx = 0, sa_tx = 0, sa_dial = None, sa_peer = \<lparr>ps_last_handshake = 0, ps_tx = 0, ps_rx = 0\<rparr>\<rparr>\<rparr>"


text \<open>A connection, and a refresh of its tunnel up to the commit.\<close>

definition connect_run :: "(nat \<times> choice) list" where
  "connect_run = replicate 4 (0, sample_choice)"

definition refresh_run :: "(nat \<times> choice) list" where
  "refresh_run = replicate 4 (3, sample_choice)"

lemma sample_runs:
  "in_range (connect_run @ refresh_run) ([StartConnect 0 []], new_world True ''a'')"
  "wd_open (snd (run_schedule (connect_run @ refresh_run) ([StartConnect 0 []], new_world True ''a''))) = [3, 0]"
  "mg_device (wd_mgr (snd (run_schedule (connect_run @ refresh_run) ([StartConnect 0 []], new_world True ''a'')))) = Some 0"
  by code_simp+




section \<open>After a teardown\<close>

text \<open>The tasks that lead to a connection.\<close>

definition connecting_task :: "task \<Rightarrow> bool" where
  "connecting_task t =
     (case t of
        StartConnect _ _ \<Rightarrow> True | Build _ \<Rightarrow> True | Listen _ _ \<Rightarrow> True | Commit _ _ _ \<Rightarrow> True
      | Failed (Reconnection _) _ _ \<Rightarrow> True
      | TearDown ReconnectNext \<Rightarrow> True | CloseAll _ _ _ ReconnectNext \<Rightarrow> True | _ \<Rightarrow> False)"

definition down :: "task list \<Rightarrow> world \<Rightarrow> bool" where
  "down ts w = (mg_device (wd_mgr w) = None \<and> mg_state (wd_mgr w) \<notin> {Connected, Connecting} \<and>
     (\<forall>t \<in> set ts. \<not> connecting_task t))"

lemma not_connecting: "\<forall>u \<in> set (refresh_done c). \<not> connecting_task u" "\<forall>u \<in> set (refresh_error c). \<not> connecting_task u"
  by (simp_all add: refresh_done_def refresh_error_def connecting_task_def split: caller.split)

lemma run_task_down:
  assumes inv: "down (xs @ t # ys) w" and r: "run_task ch t w = (ts, w')"
  shows "down (xs @ ts @ ys) w'"
proof -
  have d: "mg_device (wd_mgr w) = None" "mg_state (wd_mgr w) \<notin> {Connected, Connecting}" "\<not> connecting_task t"
    and rest: "\<forall>u \<in> set (xs @ ys). \<not> connecting_task u"
    using inv by (auto simp: down_def)
  have "mg_device (wd_mgr w') = None \<and> mg_state (wd_mgr w') \<notin> {Connected, Connecting} \<and> (\<forall>u \<in> set ts. \<not> connecting_task u)"
  proof (cases t)
    case (Failed j b s)
    then show ?thesis using r d
      by (cases j) (auto simp: run_task_def failed_step_def set_state_def connecting_task_def)
  next
    case (TearDown n)
    then show ?thesis using r d
      by (cases n) (auto simp: run_task_def tear_down_def Let_def connecting_task_def)
  next
    case (CloseAll c p x n)
    then show ?thesis using r d
      by (cases n) (auto simp: run_task_def close_all_def on_some_def close_proxy_def after_down_task_def connecting_task_def split: option.splits)
  next
    case (ListServers)
    then show ?thesis using r d by (auto simp: run_task_def list_servers_def set_state_def split: if_splits)
  next
    case (LoginDone)
    then show ?thesis using r d by (auto simp: run_task_def set_logged_in_def split: if_splits)
  next
    case (RefreshLock c k)
    then show ?thesis using r d not_connecting
      by (auto simp: run_task_def refresh_lock_def Let_def connecting_task_def split: if_splits conn_state.splits option.splits)
  next
    case (RefreshBuild f n)
    then show ?thesis using r d
      by (auto simp: run_task_def refresh_build_def build_tunnel_def set_state_def connecting_task_def split: if_splits)
  next
    case (RefreshProbe f n u)
    then show ?thesis using r d by (auto simp: run_task_def refresh_probe_def connecting_task_def split: if_splits)
  next
    case (RefreshCommit f u)
    then show ?thesis using r d not_connecting by (auto simp: run_task_def refresh_commit_def Let_def)
  next
    case (RefreshFailed c)
    then show ?thesis using r d not_connecting by (auto simp: run_task_def)
  qed (use r d in \<open>auto simp: run_task_def connecting_task_def start_disconnect_def set_state_def start_reconnect_def
      logout_done_def sampler_step_def watch_step_def refresher_step_def report_off_def refresh_swap_def Let_def split: if_splits\<close>)
  then show ?thesis using rest by (auto simp: down_def)
qed

lemma external_not_connecting: "external listen t \<Longrightarrow> \<forall>i s. t \<noteq> StartConnect i s \<Longrightarrow> \<not> connecting_task t"
  by (cases t) (simp_all add: external_def connecting_task_def)

lemma down_spawn: "down ts w \<Longrightarrow> \<not> connecting_task t \<Longrightarrow> down (ts @ [t]) w"
  by (auto simp: down_def)

interpretation torn_down: task_invariant "\<lambda>t. external (\<lambda>_. True) t \<and> (\<forall>i s. t \<noteq> StartConnect i s)" run_task down
proof
  fix xs t ys w ch ts w'
  show "down (xs @ t # ys) w \<Longrightarrow> run_task ch t w = (ts, w') \<Longrightarrow> down (xs @ ts @ ys) w'" by (rule run_task_down)
next
  fix ts w t
  assume "down ts w" "external (\<lambda>_. True) t \<and> (\<forall>i s. t \<noteq> StartConnect i s)"
  then show "down (ts @ [t]) w" using down_spawn external_not_connecting by blast
qed

text \<open>C10: What was torn down stays down: once the manager has no tunnel and is neither connected nor
  connecting, and no connection attempt is under way, no refresh, watchdog, report or request other
  than a new connect brings a tunnel back, in whatever state the background goroutines were left.\<close>

theorem torn_down_stays_down:
  assumes "task_reach (\<lambda>t. external (\<lambda>_. True) t \<and> (\<forall>i s. t \<noteq> StartConnect i s)) run_task (ts0, w0) ts w"
    and "mg_device (wd_mgr w0) = None" and "mg_state (wd_mgr w0) \<notin> {Connected, Connecting}"
    and "\<forall>t \<in> set ts0. \<not> connecting_task t"
  shows "mg_device (wd_mgr w) = None \<and> mg_state (wd_mgr w) \<notin> {Connected, Connecting}"
  using torn_down.reach_inv [OF assms(1)] assms(2-4) by (simp add: down_def)

text \<open>A refresh that had built its tunnel when the connection was torn down: it gives the tunnel up.\<close>

definition torn_world :: world where
  "torn_world = (new_world True ''a'')\<lparr>wd_open := [7], wd_next := 8, wd_refresh := True\<rparr>"

definition torn_tasks :: "task list" where
  "torn_tasks = [RefreshCommit \<lparr>rf_caller = Watcher 2, rf_proxy = 1, rf_old = 0, rf_addr = []\<rparr>
     \<lparr>tn_dev = 7, tn_addr = ''b'', tn_node = 1, tn_name = ''n''\<rparr>]"

theorem torn_down_stays_down_witness:
  "mg_device (wd_mgr (snd (run_schedule [(0, sample_choice), (0, sample_choice)] (torn_tasks, torn_world)))) = None \<and>
   wd_open (snd (run_schedule [(0, sample_choice), (0, sample_choice)] (torn_tasks, torn_world))) = []"
proof -
  let ?sp = "\<lambda>t. external (\<lambda>_. True) t \<and> (\<forall>i s. t \<noteq> StartConnect i s)"
  let ?run = "[(0, sample_choice), (0, sample_choice)]"
  have c: "in_range ?run (torn_tasks, torn_world)" "wd_open (snd (run_schedule ?run (torn_tasks, torn_world))) = []"
    by code_simp+
  have "task_reach ?sp run_task (torn_tasks, torn_world) torn_tasks torn_world" by (rule reach_start) simp
  from torn_down_stays_down [OF schedule_reach [OF this c(1)]] c(2) show ?thesis
    by (simp add: torn_tasks_def torn_world_def new_world_def connecting_task_def)
qed

section \<open>Requests that are lost\<close>

text \<open>A disconnect while a connection is being made does nothing to the attempt: it is over, with the state
  set to logged in, when the attempt commits. A session that turns out to be logged out while a tunnel
  is up leaves the tunnel up, and a disconnect does nothing then. And a connection that fails because
  of the logout reports the state as logged in.\<close>

definition logged_out_choice :: choice where
  "logged_out_choice = sample_choice\<lparr>ch_ok := False, ch_logged_out := True, ch_err := ''logged out''\<rparr>"

lemma disconnect_lost:
  "let s = run_schedule ((0, sample_choice) # (0, sample_choice) # replicate 5 (1, sample_choice))
         ([StartConnect 0 [], StartDisconnect], new_world True ''a'');
       s' = run_schedule (replicate 2 (0, sample_choice)) s
   in mg_state (wd_mgr (snd s)) = LoggedIn \<and> length (fst s) = 1 \<and>
      mg_state (wd_mgr (snd s')) = Connected \<and> mg_device (wd_mgr (snd s')) = Some 0"
  by code_simp

lemma tunnel_outlives_session:
  "let s = run_schedule (connect_run @ [(4, logged_out_choice), (4, sample_choice)])
         ([StartConnect 0 [], ListServers, StartDisconnect], new_world True ''a'')
   in mg_state (wd_mgr (snd s)) = LoggedOut \<and> length (fst s) = 4 \<and>
      mg_device (wd_mgr (snd s)) = Some 0 \<and> wd_open (snd s) = [0] \<and> length (wd_proxies (snd s)) = 1"
  by code_simp

lemma logout_overwritten:
  "let s = run_schedule [(0, sample_choice), (0, logged_out_choice), (0, sample_choice)]
         ([StartConnect 0 []], new_world True ''a'')
   in mg_state (wd_mgr (snd (run_schedule [(0, sample_choice), (0, logged_out_choice)]
         ([StartConnect 0 []], new_world True ''a'')))) = LoggedOut \<and>
      mg_state (wd_mgr (snd s)) = LoggedIn"
  by code_simp

end
