(* ===== verification/Continuity.thy ===== *)
theory Continuity
  imports Lifecycle
begin

text \<open>
  Make before break: while the manager is connected, the proxy dials through a tunnel that is open,
  whatever refreshes, teardowns and reconnects run beside it.
\<close>

section \<open>The tunnel of a proxy\<close>

definition tunnel_of :: "world \<Rightarrow> nat \<Rightarrow> nat option" where
  "tunnel_of w p = map_option ls_tunnel (map_of (wd_proxies w) p)"

text \<open>A proxy that waits for its commit has the tunnel it was made for; a refresh that waits for its commit has
  moved the proxy, if that is still there; and the proxy of a connection has the tunnel of the manager
  or that of such a refresh.\<close>

definition path_ok :: "task list \<Rightarrow> world \<Rightarrow> bool" where
  "path_ok ts w =
     ((\<forall>j t p. Commit j t p \<in> set ts \<longrightarrow> tunnel_of w p = Some (tn_dev t)) \<and>
      (\<forall>r t. RefreshCommit r t \<in> set ts \<longrightarrow> tunnel_of w (rf_proxy r) \<in> {None, Some (tn_dev t)}) \<and>
      (\<forall>p. mg_state (wd_mgr w) = Connected \<longrightarrow> mg_proxy (wd_mgr w) = Some p \<longrightarrow>
         (\<exists>d. tunnel_of w p = Some d \<and>
            (mg_device (wd_mgr w) = Some d \<or> (\<exists>r t. RefreshCommit r t \<in> set ts \<and> rf_proxy r = p)))))"

definition commit_task :: "task \<Rightarrow> bool" where
  "commit_task t = (case t of Commit _ _ _ \<Rightarrow> True | RefreshCommit _ _ \<Rightarrow> True | _ \<Rightarrow> False)"

lemma commit_task_simps [simp]: "commit_task (Commit j t p)" "commit_task (RefreshCommit r t)"
  by (simp_all add: commit_task_def)

section \<open>What a step leaves alone\<close>

lemmas step_defs = run_task_def start_connect_def failed_step_def start_disconnect_def report_off_def tear_down_def close_all_def
  on_some_def close_proxy_def start_reconnect_def logout_done_def list_servers_def set_logged_in_def sampler_step_def
  watch_step_def refresher_step_def set_state_def build_tunnel_def refresh_lock_def refresh_build_def refresh_probe_def
  Let_def

lemma only_commit_connects:
  assumes "run_task ch t w = (ts, w')" and "mg_state (wd_mgr w') = Connected" and "\<And>j u p. t \<noteq> Commit j u p"
  shows "mg_state (wd_mgr w) = Connected"
  using assms
  by (cases t) (auto simp: step_defs listen_step_def refresh_swap_def refresh_commit_def
      split: if_splits option.splits job.splits conn_state.splits)

lemma step_makes_commit:
  assumes "run_task ch t w = (ts, w')" and "\<And>j u. t \<noteq> Listen j u" and "\<And>r u. t \<noteq> RefreshSwap r u"
  shows "\<forall>u \<in> set ts. \<not> commit_task u"
  using assms
  by (cases t) (auto simp: step_defs commit_step_def refresh_commit_def refresh_done_def refresh_error_def after_down_task_def commit_task_def
      split: if_splits option.splits job.splits conn_state.splits caller.splits after_down.splits)

lemma step_keeps_proxies:
  assumes "run_task ch t w = (ts, w')" and "\<And>j u. t \<noteq> Listen j u" and "\<And>r u. t \<noteq> RefreshSwap r u"
    and "\<And>c p d n. t \<noteq> CloseAll c p d n"
  shows "wd_proxies w' = wd_proxies w"
  using assms
  by (cases t) (auto simp: step_defs commit_step_def refresh_commit_def split: if_splits option.splits job.splits conn_state.splits)

lemma step_keeps_fields:
  assumes "run_task ch t w = (ts, w')" and "\<not> commit_task t" and "\<And>n. t \<noteq> TearDown n"
  shows "mg_device (wd_mgr w') = mg_device (wd_mgr w) \<and> mg_proxy (wd_mgr w') = mg_proxy (wd_mgr w)"
  using assms
  by (cases t) (auto simp: step_defs listen_step_def refresh_swap_def split: if_splits option.splits job.splits conn_state.splits)

section \<open>The steps\<close>

lemma path_keep:
  assumes path: "path_ok (xs @ t # ys) w" and t: "\<not> commit_task t" and ts: "\<forall>u \<in> set ts. \<not> commit_task u"
    and tun: "\<And>p. tunnel_of w' p = tunnel_of w p"
    and fields: "mg_proxy (wd_mgr w') = None \<or>
      (mg_state (wd_mgr w') = Connected \<longrightarrow> mg_state (wd_mgr w) = Connected) \<and>
      mg_proxy (wd_mgr w') = mg_proxy (wd_mgr w) \<and> mg_device (wd_mgr w') = mg_device (wd_mgr w)"
  shows "path_ok (xs @ ts @ ys) w'"
proof -
  have same: "u \<in> set (xs @ ts @ ys) \<longleftrightarrow> u \<in> set (xs @ t # ys)" if "commit_task u" for u
    using that t ts by auto
  show ?thesis
    using path fields same [of "Commit j u p" for j u p] same [of "RefreshCommit r u" for r u]
    unfolding path_ok_def tun by auto
qed

text \<open>A proxy listens, with the tunnel of its connection.\<close>

lemma path_listen:
  assumes path: "path_ok (xs @ Listen j t # ys) w" and inv: "mgr_inv None (xs @ Listen j t # ys) w"
    and r: "run_task ch (Listen j t) w = (ts, w')"
  shows "path_ok (xs @ ts @ ys) w'"
proof (cases "ts = [Commit j t (wd_next w)]")
  case True
  then have w': "wd_proxies w' = (wd_next w, \<lparr>ls_addr = wd_listen w, ls_tunnel = tn_dev t\<rparr>) # wd_proxies w" "wd_mgr w' = wd_mgr w"
    using r by (auto simp: run_task_def listen_step_def split: if_splits)
  have new: "tunnel_of w (wd_next w) = None"
    using inv by (force simp: mgr_inv_def ids_ok_def tunnel_of_def map_of_eq_None_iff)
  have tun: "tunnel_of w' p = (if p = wd_next w then Some (tn_dev t) else tunnel_of w p)" for p
    by (simp add: tunnel_of_def w')
  have old: "rf_proxy r \<noteq> wd_next w" if "RefreshCommit r u \<in> set (xs @ ys)" for r u
  proof -
    have "refresh_of (RefreshCommit r u) = Some r" by simp
    then show ?thesis using inv that unfolding mgr_inv_def refresh_ok_def by fastforce
  qed
  have "tunnel_of w p = Some (tn_dev v) \<Longrightarrow> p \<noteq> wd_next w" for p v using new by auto
  then show ?thesis
    using path old new unfolding path_ok_def tun True by (auto simp: w')
next
  case False
  then have "ts = [Failed j False (ch_err ch)]" "w' = close_device (tn_dev t) w"
    using r by (auto simp: run_task_def listen_step_def split: if_splits)
  then show ?thesis by (intro path_keep [OF path]) (auto simp: commit_task_def tunnel_of_def)
qed

text \<open>The commit of a connection takes over proxy and tunnel together.\<close>

lemma path_commit:
  assumes path: "path_ok (xs @ Commit j t p # ys) w" and r: "run_task ch (Commit j t p) w = (ts, w')"
  shows "path_ok (xs @ ts @ ys) w'"
proof -
  have w': "wd_proxies w' = wd_proxies w" "mg_proxy (wd_mgr w') = Some p" "mg_device (wd_mgr w') = Some (tn_dev t)"
    and ts: "\<forall>u \<in> set ts. \<not> commit_task u"
    using r by (auto simp: run_task_def commit_step_def Let_def commit_task_def)
  have tun: "tunnel_of w' q = tunnel_of w q" for q by (simp add: tunnel_of_def w')
  have "u \<in> set (xs @ Commit j t p # ys)" if "u \<in> set (xs @ ts @ ys)" "commit_task u" for u using that ts by auto
  then show ?thesis
    using path unfolding path_ok_def tun w' by (fastforce simp: w')
qed

text \<open>A proxy that is closed is neither the one of the manager nor one that waits for its commit.\<close>

lemma closed_proxy_owner:
  assumes inv: "mgr_inv None (xs @ CloseAll c (Some q) d n # ys) w"
  shows "mg_proxy (wd_mgr w) \<noteq> Some q" and "Commit j t q \<notin> set (xs @ ys)"
proof -
  have "owned_proxies (xs @ CloseAll c (Some q) d n # ys) w \<subseteq># mset (map fst (wd_proxies w))" "distinct (map fst (wd_proxies w))"
    using inv by (simp_all add: mgr_inv_def cover_def ids_ok_def)
  then have one: "count (owned_proxies (xs @ CloseAll c (Some q) d n # ys) w) q \<le> 1"
    by (metis count_mset_0_iff distinct_count_atmost_1 le_trans mset_subset_eq_count order_refl zero_le)
  then show "mg_proxy (wd_mgr w) \<noteq> Some q" by (auto simp: owned_proxies_def)
  have "q \<in> set (concat (map held_proxies (xs @ ys)))" if "Commit j t q \<in> set (xs @ ys)"
    using that by force
  then show "Commit j t q \<notin> set (xs @ ys)"
    using one by (auto simp: owned_proxies_def count_mset_0_iff)
qed

lemma map_of_without: "map_of (filter (\<lambda>(x, _). x \<noteq> a) ps) p = (if p = a then None else map_of ps p)"
  by (induction ps) auto

lemma map_of_mapped: "map_of (map (\<lambda>(p, l). (p, f p l)) ps) p = map_option (f p) (map_of ps p)"
  by (induction ps) auto

lemma path_close_all:
  assumes path: "path_ok (xs @ CloseAll c q d n # ys) w" and inv: "mgr_inv None (xs @ CloseAll c q d n # ys) w"
    and r: "run_task ch (CloseAll c q d n) w = (ts, w')"
  shows "path_ok (xs @ ts @ ys) w'"
proof -
  have ts: "\<forall>u \<in> set ts. \<not> commit_task u" by (rule step_makes_commit [OF r]) simp_all
  have w': "wd_mgr w' = wd_mgr w" "wd_proxies w' = (case q of None \<Rightarrow> wd_proxies w | Some q \<Rightarrow> filter (\<lambda>(x, _). x \<noteq> q) (wd_proxies w))"
    using r by (auto simp: run_task_def close_all_def on_some_def close_proxy_def split: option.splits)
  have tun: "tunnel_of w' p = (if q = Some p then None else tunnel_of w p)" for p
    by (cases q) (simp_all add: tunnel_of_def w' map_of_without)
  have com: "Commit j t p \<in> set (xs @ ys) \<Longrightarrow> q \<noteq> Some p" and own: "mg_proxy (wd_mgr w) = Some p \<Longrightarrow> q \<noteq> Some p" for j t p
    using closed_proxy_owner inv by blast+
  have "u \<in> set (xs @ ts @ ys) \<longleftrightarrow> u \<in> set (xs @ ys)" if "commit_task u" for u using that ts by auto
  then show ?thesis
    using path com own unfolding path_ok_def tun w'(1) by auto
qed

text \<open>Only one refresh is between its lock and its commit, so that none undoes the swap of another.\<close>

lemma one_refresh:
  assumes inv: "mgr_inv a (xs @ t # ys) w" and t: "refresh_of t = Some r" and u: "u \<in> set (xs @ ys)"
  shows "refresh_of u = None"
proof (rule ccontr)
  assume "refresh_of u \<noteq> None"
  then have "u \<in> set (filter refreshing (xs @ ys))" using u by (simp add: refreshing_def)
  then have "0 < length (filter refreshing (xs @ ys))" by (metis length_pos_if_in_set)
  moreover have "length (filter refreshing (xs @ t # ys)) \<le> 1"
    using inv by (simp add: mgr_inv_def lock_ok_def split: if_splits)
  ultimately show False using t by (simp add: refreshing_def)
qed

lemma path_swap:
  assumes path: "path_ok (xs @ RefreshSwap r t # ys) w" and inv: "mgr_inv None (xs @ RefreshSwap r t # ys) w"
    and run: "run_task ch (RefreshSwap r t) w = (ts, w')"
  shows "path_ok (xs @ ts @ ys) w'"
proof -
  have ts: "ts = [RefreshCommit r t]" and m: "wd_mgr w' = wd_mgr w"
    and ps: "wd_proxies w' = map (\<lambda>(p, l). (p, if p = rf_proxy r then l\<lparr>ls_tunnel := tn_dev t\<rparr> else l)) (wd_proxies w)"
    using run by (auto simp: run_task_def refresh_swap_def)
  have tun: "tunnel_of w' p = (if p = rf_proxy r then map_option (\<lambda>_. tn_dev t) (tunnel_of w p) else tunnel_of w p)" for p
    unfolding tunnel_of_def ps map_of_mapped by (simp add: option.map_comp comp_def)
  have none: "RefreshCommit r' t' \<notin> set (xs @ ys)" for r' t'
    using one_refresh [OF inv, of r "RefreshCommit r' t'"] by auto
  have com: "rf_proxy r \<noteq> p" if "Commit j u p \<in> set (xs @ ys)" for j u p
  proof -
    have "rf_proxy r \<notin> commits (xs @ RefreshSwap r t # ys)"
      using inv unfolding mgr_inv_def refresh_ok_def by (metis in_set_conv_decomp refresh_simps)
    then show ?thesis using that by (auto simp: commits_def)
  qed
  show ?thesis
    using path com none unfolding path_ok_def tun m ts by auto
qed

lemma path_refresh_commit:
  assumes path: "path_ok (xs @ RefreshCommit r t # ys) w" and run: "run_task ch (RefreshCommit r t) w = (ts, w')"
  shows "path_ok (xs @ ts @ ys) w'"
proof -
  have ts: "\<forall>u \<in> set ts. \<not> commit_task u" by (rule step_makes_commit [OF run]) simp_all
  have keep: "u \<in> set (xs @ ts @ ys) \<longleftrightarrow> u \<in> set (xs @ ys)" if "commit_task u" for u using that ts by auto
  have tun: "tunnel_of w' p = tunnel_of w p" for p
    using step_keeps_proxies [OF run] by (simp add: tunnel_of_def)
  show ?thesis
  proof (cases "mg_state (wd_mgr w) = Connected \<and> mg_proxy (wd_mgr w) = Some (rf_proxy r)")
    case True
    then have "mg_device (wd_mgr w') = Some (tn_dev t)" "mg_proxy (wd_mgr w') = mg_proxy (wd_mgr w)"
      using run by (auto simp: run_task_def refresh_commit_def Let_def)
    then show ?thesis using path True keep unfolding path_ok_def tun by auto
  next
    case False
    then have "wd_mgr w' = wd_mgr w" using run by (auto simp: run_task_def refresh_commit_def Let_def split: if_splits)
    then have m: "wd_mgr w' = wd_mgr w" by simp
    have sub: "u \<in> set (xs @ RefreshCommit r t # ys)" if "u \<in> set (xs @ ts @ ys)" "commit_task u" for u
      using keep [OF that(2)] that(1) by auto
    have super: "RefreshCommit r' t' \<in> set (xs @ ts @ ys)" if "RefreshCommit r' t' \<in> set (xs @ RefreshCommit r t # ys)"
      "r' \<noteq> r" for r' t'
      using keep [of "RefreshCommit r' t'"] that by auto
    show ?thesis
      unfolding path_ok_def tun m
    proof (intro conjI allI impI)
      fix p
      assume on: "mg_state (wd_mgr w) = Connected" "mg_proxy (wd_mgr w) = Some p"
      then have "r' \<noteq> r" if "rf_proxy r' = p" for r' using that False by auto
      then show "\<exists>d. tunnel_of w p = Some d \<and> (mg_device (wd_mgr w) = Some d \<or>
          (\<exists>r t. RefreshCommit r t \<in> set (xs @ ts @ ys) \<and> rf_proxy r = p))"
        using path on super unfolding path_ok_def by blast
    qed (use path sub [OF _ commit_task_simps(1)] sub [OF _ commit_task_simps(2)] in \<open>unfold path_ok_def, blast+\<close>)
  qed
qed

lemma path_step:
  assumes path: "path_ok (xs @ t # ys) w" and inv: "mgr_inv None (xs @ t # ys) w" and run: "run_task ch t w = (ts, w')"
  shows "path_ok (xs @ ts @ ys) w'"
proof (cases "commit_task t \<or> (\<exists>j u. t = Listen j u) \<or> (\<exists>r u. t = RefreshSwap r u) \<or> (\<exists>c p d n. t = CloseAll c p d n)")
  case True
  then show ?thesis
    using path_listen path_commit path_close_all path_swap path_refresh_commit path inv run
    by (cases t) (auto simp: commit_task_def)
next
  case False
  then have t: "\<not> commit_task t" "\<And>j u. t \<noteq> Listen j u" "\<And>r u. t \<noteq> RefreshSwap r u" "\<And>c p d n. t \<noteq> CloseAll c p d n"
    by auto
  have tun: "tunnel_of w' p = tunnel_of w p" for p
    using step_keeps_proxies [OF run t(2-4)] by (simp add: tunnel_of_def)
  have "t \<noteq> Commit j u p" for j u p using t(1) by auto
  then have st: "mg_state (wd_mgr w') = Connected \<longrightarrow> mg_state (wd_mgr w) = Connected"
    using only_commit_connects [OF run] by blast
  have "mg_proxy (wd_mgr w') = None" if "t = TearDown n" for n
    using run that by (auto simp: run_task_def tear_down_def Let_def)
  then show ?thesis
    using path_keep [OF path t(1) step_makes_commit [OF run t(2,3)] tun] st step_keeps_fields [OF run t(1)] by blast
qed

section \<open>Make before break\<close>

lemma external_path: "external (\<lambda>_. True) t \<Longrightarrow> \<not> commit_task t"
  by (cases t) (simp_all add: external_def commit_task_def)

lemma path_spawn:
  assumes path: "path_ok ts w" and t: "\<not> commit_task t"
  shows "path_ok (ts @ [t]) w"
proof -
  have "u \<in> set (ts @ [t]) \<longleftrightarrow> u \<in> set ts" if "commit_task u" for u using that t by auto
  then show ?thesis using path unfolding path_ok_def by (simp only: commit_task_simps)
qed

interpretation continuity: task_invariant "external (\<lambda>_. True)" run_task "\<lambda>ts w. mgr_inv None ts w \<and> path_ok ts w"
proof
  fix xs t ys w ch ts w'
  show "mgr_inv None (xs @ t # ys) w \<and> path_ok (xs @ t # ys) w \<Longrightarrow> run_task ch t w = (ts, w') \<Longrightarrow>
      mgr_inv None (xs @ ts @ ys) w' \<and> path_ok (xs @ ts @ ys) w'"
    using run_task_inv path_step by blast
next
  fix ts w t
  show "mgr_inv None ts w \<and> path_ok ts w \<Longrightarrow> external (\<lambda>_. True) t \<Longrightarrow> mgr_inv None (ts @ [t]) w \<and> path_ok (ts @ [t]) w"
    using mgr_inv_spawn [of None] path_spawn external_path by simp
qed

lemma path_open:
  assumes path: "path_ok ts w" and inv: "mgr_inv None ts w"
    and on: "mg_state (wd_mgr w) = Connected" "mg_proxy (wd_mgr w) = Some p"
  shows "\<exists>d. tunnel_of w p = Some d \<and> d \<in> set (wd_open w)"
proof -
  have sub: "set (opt_list (mg_device (wd_mgr w))) \<union> set (concat (map held_devs ts)) \<subseteq> set (wd_open w)"
    using inv set_mset_mono [of "owned_devs ts w" "mset (wd_open w)"] by (simp add: mgr_inv_def cover_def owned_devs_def)
  obtain d where d: "tunnel_of w p = Some d" using path on by (auto simp: path_ok_def)
  show ?thesis
  proof (cases "mg_device (wd_mgr w) = Some d")
    case True
    then show ?thesis using sub d by simp
  next
    case False
    then obtain r t where c: "RefreshCommit r t \<in> set ts" "rf_proxy r = p" using path on d by (fastforce simp: path_ok_def)
    then have "d = tn_dev t" using path d by (fastforce simp: path_ok_def)
    moreover have "tn_dev t \<in> set (concat (map held_devs ts))" using c(1) by force
    ultimately show ?thesis using sub d by blast
  qed
qed

lemma path_new: "path_ok [] (new_world b a)"
  by (simp add: path_ok_def new_world_def)

section \<open>Where it breaks\<close>

text \<open>Only while the manager counts as connected. When a request finds the session logged out between the swap and
  the commit of a refresh, the commit closes the new tunnel but leaves the proxy on it: the proxy goes
  on listening, the old tunnel stays open, and every new connection is dialled through a closed one.\<close>

lemma logout_strands_proxy:
  "let s = run_schedule (connect_run @ replicate 5 (3, sample_choice) @ [(4, logged_out_choice), (3, sample_choice)])
         ([StartConnect 0 [], ListServers], new_world True ''a'')
   in mg_state (wd_mgr (snd s)) = LoggedOut \<and> mg_proxy (wd_mgr (snd s)) = Some 1 \<and>
      tunnel_of (snd s) 1 = Some 3 \<and> wd_open (snd s) = [0] \<and> list_all (\<lambda>t. held_devs t = []) (fst s)"
  by code_simp

end
