(* ===== verification/Netstack.thy ===== *)
theory Netstack
  imports Watchdog
begin

text \<open>
  The userspace WireGuard device of \<open>corplink/netstack.go\<close>: what \<open>StartNetstackWithProxy\<close>
  programs into it and in which order (\<open>parseAddrs\<close>, \<open>parseDNS\<close>, \<open>newWireGuardBind\<close>,
  \<open>resolveEndpoint\<close>, \<open>buildUAPI\<close>), what it closes again when a step fails, the counters
  that its connections keep, and how \<open>PeerStats\<close> reads the device back. The netstack, the
  WireGuard device and the name lookup of the host are parameters: their answers. The atomic
  counters are words of 64 bits.
\<close>

type_synonym i64 = "64 word"

section \<open>Configuration of the device\<close>

datatype uapi_err = BadPrivateKey | BadPeerKey | BadPeerAddress string | PeerUnresolved string

text \<open>\<open>net.LookupIP\<close> of the host is the parameter \<open>look\<close>; no address is its error.\<close>

definition resolve_endpoint :: "(string \<Rightarrow> addr list) \<Rightarrow> string \<Rightarrow> uapi_err + string" where
  "resolve_endpoint look a =
     (case split_host_port a of
        None \<Rightarrow> Inl (BadPeerAddress a)
      | Some (host, port) \<Rightarrow>
          if parse_ip host \<noteq> None then Inr a
          else (case look host of
                  [] \<Rightarrow> Inl (PeerUnresolved host)
                | ip # _ \<Rightarrow> Inr (join_host_port (show_ip ip) port)))"

definition uapi_line :: "string \<Rightarrow> string \<Rightarrow> string" where
  "uapi_line key val = key @ ''='' @ val @ [newline]"

definition uapi_route :: "string \<Rightarrow> string" where
  "uapi_route ip = (if contains ip ''/'' then uapi_line ''allowed_ip'' ip else uapi_line ''allowed_ip'' (ip @ ''/32''))"

definition build_uapi :: "(string \<Rightarrow> addr list) \<Rightarrow> wg_conf \<Rightarrow> uapi_err + string" where
  "build_uapi look conf =
     (case b64_decode_to_hex (wc_private_key conf) of
        None \<Rightarrow> Inl BadPrivateKey
      | Some priv \<Rightarrow>
          (case b64_decode_to_hex (wc_peer_key conf) of
             None \<Rightarrow> Inl BadPeerKey
           | Some peer \<Rightarrow>
               (case resolve_endpoint look (wc_peer_address conf) of
                  Inl e \<Rightarrow> Inl e
                | Inr endpoint \<Rightarrow>
                    Inr (uapi_line ''private_key'' priv @ uapi_line ''replace_peers'' ''true'' @
                         uapi_line ''public_key'' peer @ uapi_line ''replace_allowed_ips'' ''true'' @
                         uapi_line ''endpoint'' endpoint @ uapi_line ''persistent_keepalive_interval'' ''10'' @
                         concat (map uapi_route (wc_allowed conf))))))"

fun parse_addr_list :: "string list \<Rightarrow> string + addr list" where
  "parse_addr_list [] = Inr []"
| "parse_addr_list (cidr # rest) =
     (if cidr = [] then parse_addr_list rest
      else let host = (case index_byte (CHR ''/'') cidr of None \<Rightarrow> cidr | Some i \<Rightarrow> take i cidr)
           in case parse_addr host of
                None \<Rightarrow> Inl cidr
              | Some a \<Rightarrow> map_sum id (\<lambda>as. a # as) (parse_addr_list rest))"

datatype addr_err = InvalidTunnelAddress string | NoTunnelAddress

definition parse_addrs :: "wg_conf \<Rightarrow> addr_err + addr list" where
  "parse_addrs conf =
     (case parse_addr_list [wc_address conf, wc_address6 conf] of
        Inl c \<Rightarrow> Inl (InvalidTunnelAddress c)
      | Inr as \<Rightarrow> if as = [] then Inl NoTunnelAddress else Inr as)"

definition parse_dns :: "string \<Rightarrow> addr list" where
  "parse_dns dns =
     (let out = concat (map (\<lambda>s. case parse_addr (trim_space s) of None \<Rightarrow> [] | Some a \<Rightarrow> [a])
                  (fields_func (\<lambda>c. c = CHR '','' \<or> c = CHR '' '') dns))
      in if out = [] then [V4 0x08080808] else out)"

definition has_ipv6 :: "addr list \<Rightarrow> bool" where
  "has_ipv6 as = list_ex is6 as"

text \<open>The transport of the device: the library's default one over UDP, or TCP, dialled directly or
  through the upstream proxy. \<open>NewTCPBind\<close> always gives a \<open>TcpBind\<close>, so its failed type
  assertion is no branch here.\<close>

datatype wg_bind = DefaultBind | TcpBind "upstream_cfg option"

definition new_wireguard_bind :: "nat \<Rightarrow> upstream_cfg option \<Rightarrow> nat + wg_bind" where
  "new_wireguard_bind protocol proxy' =
     (if protocol = 0 then Inr DefaultBind
      else if protocol = 1 then Inr (TcpBind (if enabled proxy' then proxy' else None))
      else Inl protocol)"

section \<open>Starting the device\<close>

text \<open>The calls that the start makes on the libraries, in their order. \<open>Device.Close\<close> closes the
  tun device that the WireGuard device was made with.\<close>

datatype start_call =
    CreateTun "addr list" "addr list" int | CloseTun | NewDevice wg_bind | DeviceUp | IpcSet string | CloseDevice

datatype 'e start_err =
    StartAddr addr_err | StartTun 'e | StartBind nat | StartUp 'e | StartUapi uapi_err | StartIpc 'e

record netstack_device =
  nd_dns :: "addr list"
  nd_has6 :: bool
  nd_closed :: bool
  nd_rx :: i64
  nd_tx :: i64
  nd_dial_at :: int
  nd_active :: i64
  nd_conns :: "bool list"
  nd_dev_closes :: nat

record 'e start_env =
  se_lookup :: "string \<Rightarrow> addr list"
  se_create :: "addr list \<Rightarrow> addr list \<Rightarrow> int \<Rightarrow> 'e option"
  se_up :: "'e option"
  se_ipc :: "string \<Rightarrow> 'e option"

definition new_device :: "addr list \<Rightarrow> addr list \<Rightarrow> netstack_device" where
  "new_device dns locals =
     \<lparr>nd_dns = dns, nd_has6 = has_ipv6 locals, nd_closed = False, nd_rx = 0, nd_tx = 0, nd_dial_at = 0,
      nd_active = 0, nd_conns = [], nd_dev_closes = 0\<rparr>"

definition start_netstack_with_proxy ::
  "'e start_env \<Rightarrow> wg_conf \<Rightarrow> upstream_cfg option \<Rightarrow> start_call list \<times> ('e start_err + netstack_device)" where
  "start_netstack_with_proxy env conf proxy' =
     (case parse_addrs conf of
        Inl e \<Rightarrow> ([], Inl (StartAddr e))
      | Inr locals \<Rightarrow>
          let dns = parse_dns (wc_dns conf);
              mtu = (if wc_mtu conf = 0 then 1280 else uint (wc_mtu conf));
              t1 = [CreateTun locals dns mtu]
          in case se_create env locals dns mtu of
               Some e \<Rightarrow> (t1, Inl (StartTun e))
             | None \<Rightarrow>
                 (case new_wireguard_bind (wc_protocol conf) proxy' of
                    Inl p \<Rightarrow> (t1 @ [CloseTun], Inl (StartBind p))
                  | Inr bind \<Rightarrow>
                      let t2 = t1 @ [NewDevice bind, DeviceUp]
                      in case se_up env of
                           Some e \<Rightarrow> (t2 @ [CloseDevice], Inl (StartUp e))
                         | None \<Rightarrow>
                             (case build_uapi (se_lookup env) conf of
                                Inl e \<Rightarrow> (t2 @ [CloseDevice], Inl (StartUapi e))
                              | Inr uapi \<Rightarrow>
                                  (case se_ipc env uapi of
                                     Some e \<Rightarrow> (t2 @ [IpcSet uapi, CloseDevice], Inl (StartIpc e))
                                   | None \<Rightarrow> (t2 @ [IpcSet uapi], Inr (new_device dns locals))))))"

definition start_netstack :: "'e start_env \<Rightarrow> wg_conf \<Rightarrow> start_call list \<times> ('e start_err + netstack_device)" where
  "start_netstack env conf = start_netstack_with_proxy env conf None"

section \<open>Connections and counters\<close>

text \<open>A counting connection is its index and its closed flag. \<open>None\<close> of a dial is an error.\<close>

definition mark_dial_activity :: "instant \<Rightarrow> netstack_device \<Rightarrow> netstack_device" where
  "mark_dial_activity now d = d\<lparr>nd_dial_at := now\<rparr>"

definition last_dial_activity :: "netstack_device \<Rightarrow> instant option" where
  "last_dial_activity d = (if nd_dial_at d = 0 then None else Some (nd_dial_at d))"

definition track_conn :: "netstack_device \<Rightarrow> netstack_device" where
  "track_conn d = d\<lparr>nd_active := nd_active d + 1\<rparr>"

definition device_dial :: "instant \<Rightarrow> 'e option \<Rightarrow> netstack_device \<Rightarrow> ('e + nat) \<times> netstack_device" where
  "device_dial now err d =
     (let d1 = mark_dial_activity now d in
      case err of
        Some e \<Rightarrow> (Inl e, d1)
      | None \<Rightarrow> (Inr (length (nd_conns d1)), (track_conn d1)\<lparr>nd_conns := nd_conns d1 @ [False]\<rparr>))"

definition active_conns :: "netstack_device \<Rightarrow> int" where
  "active_conns d = sint (nd_active d)"

definition transfer_totals :: "netstack_device \<Rightarrow> int \<times> int" where
  "transfer_totals d = (sint (nd_rx d), sint (nd_tx d))"

definition counted_read :: "nat \<Rightarrow> netstack_device \<Rightarrow> netstack_device" where
  "counted_read n d = d\<lparr>nd_rx := nd_rx d + of_nat n\<rparr>"

definition counted_write :: "nat \<Rightarrow> netstack_device \<Rightarrow> netstack_device" where
  "counted_write n d = d\<lparr>nd_tx := nd_tx d + of_nat n\<rparr>"

definition counted_close :: "nat \<Rightarrow> netstack_device \<Rightarrow> netstack_device" where
  "counted_close i d =
     (if i < length (nd_conns d) then
        let was = nd_conns d ! i; d1 = d\<lparr>nd_conns := (nd_conns d)[i := True]\<rparr>
        in if was then d1 else d1\<lparr>nd_active := nd_active d1 - 1\<rparr>
      else d)"

definition device_close :: "netstack_device \<Rightarrow> netstack_device" where
  "device_close d = (if nd_closed d then d else d\<lparr>nd_closed := True, nd_dev_closes := Suc (nd_dev_closes d)\<rparr>)"

text \<open>A probe dials without leaving a trace in the counters.\<close>

definition device_probe :: "'e option \<Rightarrow> netstack_device \<Rightarrow> 'e option \<times> netstack_device" where
  "device_probe err d = (err, d)"

definition device_lookup_host :: "netstack_device \<Rightarrow> 'e + string list \<Rightarrow> 'e + string list" where
  "device_lookup_host d r =
     (case r of
        Inl e \<Rightarrow> Inl e
      | Inr addrs \<Rightarrow>
          if nd_has6 d then Inr addrs
          else Inr (filter (\<lambda>a. case parse_addr a of None \<Rightarrow> True | Some ip \<Rightarrow> \<not> is6 ip) addrs))"

section \<open>Reading the device back\<close>

text \<open>
  \<open>fmt.Sscan\<close> of an integer: an optional sign, then a base prefix and digits with
  underscores (\<open>scanBasePrefix\<close> and \<open>scanNumber\<close>), handed to \<open>strconv.ParseInt\<close> with base 0.
  What follows the number is left unread. An error leaves 0.
\<close>

definition base_prefix :: "string \<Rightarrow> nat \<times> string" where
  "base_prefix s =
     (case s of
        CHR ''0'' # c # r \<Rightarrow>
          if lower c = CHR ''x'' then (16, [CHR ''0'', c])
          else if lower c = CHR ''o'' then (8, [CHR ''0'', c])
          else if lower c = CHR ''b'' then (2, [CHR ''0'', c])
          else (8, ''0'')
      | CHR ''0'' # r \<Rightarrow> (8, ''0'')
      | _ \<Rightarrow> (10, []))"

definition base_digit :: "nat \<Rightarrow> char \<Rightarrow> bool" where
  "base_digit b c = (case hex_val c of None \<Rightarrow> False | Some v \<Rightarrow> v < b)"

text \<open>\<open>underscoreOK\<close>: an underscore only between digits, or between the prefix and a digit;
  \<open>prev\<close> tells whether a digit or the prefix came just before.\<close>

fun underscores_ok :: "bool \<Rightarrow> string \<Rightarrow> bool" where
  "underscores_ok prev [] = True"
| "underscores_ok prev (c # s) =
     (if c = CHR ''_'' then prev \<and> s \<noteq> [] \<and> s ! 0 \<noteq> CHR ''_'' \<and> underscores_ok False s
      else underscores_ok True s)"

definition digits_val :: "nat \<Rightarrow> string \<Rightarrow> nat" where
  "digits_val b s = foldl (\<lambda>v c. case hex_val c of None \<Rightarrow> v | Some d \<Rightarrow> v * b + d) 0 s"

definition parse_int64 :: "string \<Rightarrow> int" where
  "parse_int64 s0 =
     (let s = trim_space s0;
          neg = (s \<noteq> [] \<and> s ! 0 = CHR ''-'');
          body = (if s \<noteq> [] \<and> (s ! 0 = CHR ''-'' \<or> s ! 0 = CHR ''+'') then drop 1 s else s)
      in case base_prefix body of (b, pre) \<Rightarrow>
           let ds = takeWhile (\<lambda>c. base_digit b c \<or> c = CHR ''_'') (drop (length pre) body);
               n = digits_val b ds
           in if pre = [] \<and> ds = [] \<or> length pre = 2 \<and> filter (\<lambda>c. c \<noteq> CHR ''_'') ds = [] \<or> \<not> underscores_ok (pre \<noteq> []) ds then 0
              else if neg then (if n \<le> 2 ^ 63 then - int n else 0)
              else (if n < 2 ^ 63 then int n else 0))"

definition peer_stats_line :: "string \<Rightarrow> peer_stats \<Rightarrow> peer_stats" where
  "peer_stats_line kv st =
     (if has_prefix kv ''tx_bytes='' then st\<lparr>ps_tx := parse_int64 (trim_prefix kv ''tx_bytes='')\<rparr>
      else if has_prefix kv ''rx_bytes='' then st\<lparr>ps_rx := parse_int64 (trim_prefix kv ''rx_bytes='')\<rparr>
      else if has_prefix kv ''last_handshake_time_sec='' then
        let sec = parse_int64 (trim_prefix kv ''last_handshake_time_sec='')
        in if ps_last_handshake st < sec then st\<lparr>ps_last_handshake := sec\<rparr> else st
      else st)"

definition zero_peer_stats :: peer_stats where
  "zero_peer_stats = \<lparr>ps_last_handshake = 0, ps_tx = 0, ps_rx = 0\<rparr>"

definition device_peer_stats :: "'e + string \<Rightarrow> peer_stats" where
  "device_peer_stats ipc =
     (case ipc of
        Inl _ \<Rightarrow> zero_peer_stats
      | Inr out \<Rightarrow> fold peer_stats_line (split_str out [newline]) zero_peer_stats)"

definition last_handshake :: "'e + string \<Rightarrow> int" where
  "last_handshake ipc = ps_last_handshake (device_peer_stats ipc)"

section \<open>Lemmas: addresses hold no line end\<close>

lemma hex_val_chars: "hex_val c \<noteq> None \<Longrightarrow> v6_char c"
  by (simp add: v6_char_def)

lemma parse_v4_chars: "parse_v4_fields fs v d s = Some r \<Longrightarrow> list_all v6_char s"
  by (induction fs v d s rule: parse_v4_fields.induct)
    (auto simp: v6_char_def hex_val_def split: if_splits)

lemma read_hex_chars: "read_hex off acc s = Some (v, n, r) \<Longrightarrow> \<exists>p. s = p @ r \<and> list_all v6_char p"
proof (induction off acc s arbitrary: v n r rule: read_hex.induct)
  case (2 off acc c s)
  show ?case
  proof (cases "hex_val c")
    case None
    then show ?thesis using 2(2) by auto
  next
    case (Some x)
    then have "\<exists>p. s = p @ r \<and> list_all v6_char p"
      using 2 by (simp split: if_splits)
    then obtain p where "s = p @ r" "list_all v6_char p" by blast
    then show ?thesis using Some hex_val_chars [of c] by (intro exI [of _ "c # p"]) simp
  qed
qed auto

lemma parse_v6_chars: "parse_v6_loop gs el s = Some (gs', el', r) \<Longrightarrow> \<exists>p. s = p @ r \<and> list_all v6_char p"
proof (induction gs el s arbitrary: gs' el' r rule: parse_v6_loop.induct)
  case (1 gs el s)
  show ?case
  proof (cases "8 \<le> length gs")
    case True
    then show ?thesis using "1.prems" by (subst (asm) parse_v6_loop.simps) simp
  next
    case False
    then obtain acc off t where h: "read_hex 0 0 s = Some (acc, off, t)" and off: "off \<noteq> 0"
      using "1.prems" by (subst (asm) parse_v6_loop.simps) (auto split: option.splits if_splits)
    then obtain p where p: "s = p @ t" "list_all v6_char p" using read_hex_chars by blast
    note eq = "1.prems" [unfolded parse_v6_loop.simps [of gs el s]]
    show ?thesis
    proof (cases t)
      case Nil
      then show ?thesis using eq False h off p by auto
    next
      case (Cons c t1)
      show ?thesis
      proof (cases "c = CHR ''.''")
        case True
        then have "list_all v6_char s" "r = []"
          using eq False h off Cons parse_v4_chars by (auto split: option.splits if_splits)
        then show ?thesis by simp
      next
        case dot: False
        then obtain d t2 where t: "t = CHR '':'' # d # t2"
          using eq False h off Cons by (cases t1) (auto split: if_splits)
        have "\<exists>q. d # t2 = q @ r \<and> list_all v6_char q"
        proof (cases "d = CHR '':''")
          case True
          have "t2 = [] \<and> r = [] \<or> (\<exists>q. t2 = q @ r \<and> list_all v6_char q)"
            using eq False h off t True "1.IH"(1) [OF False h refl refl off] by (auto split: if_splits)
          then show ?thesis using True by (auto intro: exI [of _ "CHR '':'' # q" for q])
        next
          case nc: False
          then show ?thesis
            using eq False h off t "1.IH"(2) [OF False h refl refl off] by auto
        qed
        then show ?thesis using p t by (metis append.assoc append_Cons list_all_append list.pred_inject(2) v6_char_simps(1))
      qed
    qed
  qed
qed

lemma newline_iff: "newline = c \<longleftrightarrow> byte c = 10" "c = newline \<longleftrightarrow> byte c = 10"
  using byte_inject [of newline c] by (auto simp: newline_def)

lemma newline_not [simp]: "newline \<noteq> CHR '':''" "newline \<noteq> CHR ''.''" "newline \<noteq> CHR ''/''" "newline \<noteq> CHR ''-''"
  "newline \<noteq> CHR ''+''" "newline \<noteq> CHR ''='' " "newline \<noteq> CHR ''['' " "newline \<noteq> CHR '']''"
  by (simp_all add: newline_iff byte_def)

lemma newline_not_digit [simp]: "\<not> is_digit newline"
  by (simp add: is_digit_def newline_def)

lemma v6_char_newline [simp]: "\<not> v6_char newline"
  by (simp add: v6_char_def hex_val_def) (simp add: newline_def)

lemma last_index_byte_Some: "last_index_byte c s = Some i \<Longrightarrow> i < length s \<and> s ! i = c"
  by (induction s arbitrary: i) (auto split: option.splits if_splits)

lemma parse_v6_groups_chars: "parse_v6_groups s = Some gs \<Longrightarrow> list_all v6_char s"
proof -
  assume g: "parse_v6_groups s = Some gs"
  have fin: "list_all v6_char t" if loop: "Option.bind (parse_v6_loop [] el t) finish_v6 = Some gs" for el t
  proof -
    obtain gs' el' r where l: "parse_v6_loop [] el t = Some (gs', el', r)" and f: "finish_v6 (gs', el', r) = Some gs"
      using loop by (auto simp: bind_eq_Some_conv)
    then show ?thesis using parse_v6_chars [OF l] by (auto simp: finish_v6_def split: if_splits)
  qed
  show ?thesis
  proof (cases "has_prefix s ''::''")
    case True
    then obtain t where "s = ''::'' @ t" by (auto simp: has_prefix_iff)
    then show ?thesis using g True fin [of "Some 0" t] by (auto simp: parse_v6_groups_def split: if_splits)
  next
    case False
    then show ?thesis using g fin by (auto simp: parse_v6_groups_def)
  qed
qed

lemma parse_addr_chars: "parse_addr s = Some a \<Longrightarrow> zone_of a = [] \<Longrightarrow> list_all v6_char s"
proof -
  assume p: "parse_addr s = Some a" and z: "zone_of a = []"
  show ?thesis
  proof (cases "addr_kind s = Some (CHR ''.'')")
    case True
    then show ?thesis using p parse_v4_chars by (auto simp: parse_addr_def parse_ipv4_def)
  next
    case False
    obtain t zone found where cut: "cut_byte (CHR ''%'') s = (t, zone, found)" by (metis prod_cases3)
    have "\<exists>gs. parse_v6_groups t = Some gs" "zone = zone_of a" "\<not> (found \<and> zone = [])"
      using p False cut by (auto simp: parse_addr_def parse_ipv6_def zone_of_def split: option.splits if_splits)
    moreover have "\<not> found \<Longrightarrow> t = s" using cut by (auto simp: cut_byte_def split: option.splits)
    ultimately show ?thesis using z parse_v6_groups_chars by auto
  qed
qed

lemma atoi_chars: "atoi b = Some n \<Longrightarrow> newline \<notin> set b"
  by (auto simp: atoi_def parse_digits_def list_all_iff Let_def split: list.splits if_splits option.splits)

lemma parse_prefix_chars:
  assumes "parse_prefix s = Some p"
  shows "newline \<notin> set s" and "CHR ''/'' \<in> set s"
proof -
  obtain i a n where i: "last_index_byte (CHR ''/'') s = Some i" and a: "parse_addr (take i s) = Some a" "zone_of a = []"
    and n: "atoi (drop (Suc i) s) = Some n"
    using assms by (auto simp: parse_prefix_def Let_def split: option.splits if_splits)
  have sl: "CHR ''/'' \<in> set s" using i last_index_byte_None [of "CHR ''/''" s] by auto
  then show "CHR ''/'' \<in> set s" .
  have s: "s = take i s @ CHR ''/'' # drop (Suc i) s" using last_index_byte_Some [OF i] id_take_nth_drop [of i s] by simp
  have "newline \<notin> set (take i s)" using parse_addr_chars [OF a] by (auto simp: list_all_iff)
  moreover have "newline \<notin> set (drop (Suc i) s)" using atoi_chars [OF n] .
  ultimately show "newline \<notin> set s" by (subst s) simp
qed

section \<open>The program of the device\<close>

lemma split_acc_line: "newline \<notin> set l \<Longrightarrow>
    split_acc [newline] 0 cur (l @ newline # s) = (rev cur @ l) # split_acc [newline] 0 [] s"
  by (induction l arbitrary: cur) (auto simp: has_prefix_def)

lemma split_lines: "\<forall>l \<in> set ls. newline \<notin> set l \<Longrightarrow>
    split_str (concat (map (\<lambda>l. l @ [newline]) ls)) [newline] = ls @ [[]]"
  by (induction ls) (simp_all add: split_str_def split_acc_line)

lemma show_ip_addr: "show_ip a = show_addr (case a of V4 w \<Rightarrow> V4 w | V6 w z \<Rightarrow> if is4in6 w then V4 (low4 w) else V6 w [])"
  by (simp add: show_ip_def show_addr_def zone_suffix_def split: addr.split)

lemma parse_show_ip: "parse_ip (show_ip a) \<noteq> None"
  by (simp add: show_ip_addr parse_ip_def parse_show_addr zone_of_def split: addr.split)

lemma parse_ip_chars: "parse_ip h \<noteq> None \<Longrightarrow> list_all v6_char h"
  using parse_addr_chars by (auto simp: parse_ip_def split: option.splits if_splits)

lemma v6_char_not_bracket [simp]: "\<not> v6_char (CHR ''['')" "\<not> v6_char (CHR '']'')"
  by (simp_all add: v6_char_def hex_val_def is_digit_def byte_def)

lemma case_bracket: "(case s of CHR ''['' # r \<Rightarrow> f r | _ \<Rightarrow> g) = (if s \<noteq> [] \<and> hd s = CHR ''['' then f (tl s) else g)"
  by (cases s) (auto split: char.splits bool.splits)

text \<open>The two forms that \<open>SplitHostPort\<close> takes apart.\<close>

lemma split_host_port_Some:
  assumes "split_host_port s = Some (h, p)"
  shows "s = h @ CHR '':'' # p \<or> s = CHR ''['' # h @ CHR '']'' # CHR '':'' # p"
proof -
  obtain i where i: "last_index_byte (CHR '':'') s = Some i"
    using assms by (auto simp: split_host_port_def split: option.splits)
  then have s: "s = take i s @ CHR '':'' # drop (Suc i) s"
    using last_index_byte_Some [OF i] id_take_nth_drop [of i s] by simp
  show ?thesis
  proof (cases "s \<noteq> [] \<and> hd s = CHR ''[''")
    case True
    then obtain r where r: "s = CHR ''['' # r" by (cases s) auto
    then obtain e where e: "index_byte (CHR '']'') r = Some e" "i = Suc (Suc e)"
      and hp: "h = take e r" "p = drop (Suc i) s"
      using assms i by (auto simp: split_host_port_def split: option.splits if_splits)
    have "r = take e r @ CHR '']'' # drop (Suc e) r"
      using index_byte_Some [OF e(1)] id_take_nth_drop [of e r] by simp
    moreover have "drop (Suc e) r = CHR '':'' # p"
      using last_index_byte_Some [OF i] Cons_nth_drop_Suc [of "Suc e" r] by (simp add: r e(2) hp(2))
    ultimately show ?thesis using r hp(1) by simp
  next
    case False
    then have "h = take i s" "p = drop (Suc i) s"
      using assms i by (auto simp: split_host_port_def case_bracket simp del: list.case_distrib split: if_splits)
    then show ?thesis using s by simp
  qed
qed

lemma split_host_port_port:
  assumes "split_host_port s = Some (h, q)" and "s = a @ CHR '':'' # p" and "CHR '':'' \<notin> set p"
  shows "q = p"
proof -
  obtain i where i: "last_index_byte (CHR '':'') s = Some i" "q = drop (Suc i) s"
    using assms(1) by (auto simp: split_host_port_def case_bracket split: option.splits if_splits)
  then show ?thesis using assms(2,3) last_index_byte_append [of "CHR '':''" p a] by simp
qed

text \<open>An endpoint of a node is a numeric address with the port of the node.\<close>

lemma resolve_endpoint_numeric:
  assumes r: "resolve_endpoint look (a @ CHR '':'' # itoa n) = Inr e"
  shows "\<exists>h. split_host_port e = Some (h, itoa n) \<and> parse_ip h \<noteq> None" and "newline \<notin> set e"
proof -
  have digits: "CHR '':'' \<notin> set (itoa n)" "CHR ''['' \<notin> set (itoa n)" "CHR '']'' \<notin> set (itoa n)"
    "newline \<notin> set (itoa n)"
    using itoa_digits_set newline_not_digit by (fastforce simp: is_digit_def byte_def)+
  obtain h p where hp: "split_host_port (a @ CHR '':'' # itoa n) = Some (h, p)"
    using r by (auto simp: resolve_endpoint_def split: option.splits)
  then have p: "p = itoa n" using split_host_port_port [OF hp refl] digits by blast
  have "(\<exists>h. split_host_port e = Some (h, itoa n) \<and> parse_ip h \<noteq> None) \<and> newline \<notin> set e"
  proof (cases "parse_ip h = None")
    case True
    then obtain ip where e: "e = join_host_port (show_ip ip) (itoa n)"
      using r hp p by (auto simp: resolve_endpoint_def split: list.splits)
    have c: "list_all v6_char (show_ip ip)" by (rule parse_ip_chars [OF parse_show_ip])
    have f: "CHR ''['' \<notin> set (show_ip ip)" "CHR '']'' \<notin> set (show_ip ip)" "newline \<notin> set (show_ip ip)"
      using c by (auto simp: list_all_iff)
    then show ?thesis
      using digits parse_show_ip split_join_host_port [OF f(1,2) digits(1-3)]
      by (auto simp: e join_host_port_def)
  next
    case False
    then have e: "e = a @ CHR '':'' # itoa n" using r hp by (auto simp: resolve_endpoint_def)
    have "newline \<notin> set h" using parse_ip_chars [OF False] by (auto simp: list_all_iff)
    then have "newline \<notin> set e"
      using split_host_port_Some [OF hp] digits p unfolding e by (auto simp: append_eq_append_conv2)
    then show ?thesis using hp p False e by auto
  qed
  then show "\<exists>h. split_host_port e = Some (h, itoa n) \<and> parse_ip h \<noteq> None" and "newline \<notin> set e" by auto
qed

lemma hex_encode_no_newline [simp]: "newline \<notin> set (hex_encode bs)"
proof -
  have "newline \<noteq> hex_digit d" if "d < 16" for d
    using that by (simp add: hex_digit_def newline_def chr_inject)
  moreover have "byte b div 16 < 16" for b using byte_bound [of b] by (intro less_mult_imp_div_less) simp
  ultimately show ?thesis by (auto simp: hex_encode_def)
qed

lemma build_wg_conf_fields:
  assumes "build_wg_conf conf node info = Some (Inr wc)"
  shows "wc_private_key wc = private_key conf" "wc_peer_key wc = wi_public_key info"
    "wc_peer_address wc = vi_ip node @ CHR '':'' # itoa (unat (vi_vpn_port node))"
    "\<exists>rs. wc_allowed wc = normalize_cidrs rs" "wc_protocol wc \<in> {0, 1}"
  using assms by (auto simp: build_wg_conf_def choose_protocol_def Let_def split: option.splits if_splits)

definition uapi_pair :: "string \<times> string \<Rightarrow> string" where
  "uapi_pair kv = fst kv @ ''='' @ snd kv"

lemma uapi_line_pair: "uapi_line k v = uapi_pair (k, v) @ [newline]"
  by (simp add: uapi_line_def uapi_pair_def)

lemma contains_slash: "contains s ''/'' \<longleftrightarrow> CHR ''/'' \<in> set s"
  by (induction s) (auto simp: has_prefix_def)

lemma uapi_routes: "\<forall>r \<in> set rs. parse_prefix r \<noteq> None \<Longrightarrow>
    map uapi_route rs = map (\<lambda>l. l @ [newline]) (map (\<lambda>r. uapi_pair (''allowed_ip'', r)) rs)"
  using parse_prefix_chars(2) by (fastforce simp: uapi_route_def contains_slash uapi_line_pair)

lemma build_uapi_endpoint:
  assumes "build_wg_conf conf node info = Some (Inr wc)" and "build_uapi look wc = Inr uapi"
  shows "\<exists>priv peer endpoint host.
    resolve_endpoint look (wc_peer_address wc) = Inr endpoint \<and>
    b64_decode (private_key conf) = Some priv \<and> b64_decode (wi_public_key info) = Some peer \<and>
    split_host_port endpoint = Some (host, itoa (unat (vi_vpn_port node))) \<and> parse_ip host \<noteq> None \<and>
    list_all (\<lambda>r. parse_prefix r \<noteq> None) (wc_allowed wc) \<and>
    split_str uapi [newline] = map uapi_pair
      ([(''private_key'', hex_encode priv), (''replace_peers'', ''true''), (''public_key'', hex_encode peer),
        (''replace_allowed_ips'', ''true''), (''endpoint'', endpoint), (''persistent_keepalive_interval'', ''10'')]
       @ map (Pair ''allowed_ip'') (wc_allowed wc)) @ [[]]"
proof -
  note f = build_wg_conf_fields [OF assms(1)]
  obtain priv peer e where k: "b64_decode (private_key conf) = Some priv" "b64_decode (wi_public_key info) = Some peer"
    and e: "resolve_endpoint look (wc_peer_address wc) = Inr e"
    and u: "uapi = uapi_line ''private_key'' (hex_encode priv) @ uapi_line ''replace_peers'' ''true'' @
         uapi_line ''public_key'' (hex_encode peer) @ uapi_line ''replace_allowed_ips'' ''true'' @
         uapi_line ''endpoint'' e @ uapi_line ''persistent_keepalive_interval'' ''10'' @
         concat (map uapi_route (wc_allowed wc))"
    using assms(2) by (auto simp: build_uapi_def b64_decode_to_hex_def f(1,2) split: option.splits sum.splits)
  note num = resolve_endpoint_numeric [OF e [unfolded f(3)]]
  have routes: "\<forall>r \<in> set (wc_allowed wc). parse_prefix r \<noteq> None"
    using f(4) by (auto simp: normalize_cidrs_spec)
  let ?ps = "[(''private_key'', hex_encode priv), (''replace_peers'', ''true''), (''public_key'', hex_encode peer),
        (''replace_allowed_ips'', ''true''), (''endpoint'', e), (''persistent_keepalive_interval'', ''10'')]
       @ map (Pair ''allowed_ip'') (wc_allowed wc)"
  have "uapi = concat (map (\<lambda>l. l @ [newline]) (map uapi_pair ?ps))"
    by (simp add: u uapi_line_pair uapi_routes [OF routes] comp_def)
  moreover have "\<forall>l \<in> set (map uapi_pair ?ps). newline \<notin> set l"
    using num(2) routes parse_prefix_chars(1) by (fastforce simp: uapi_pair_def newline_iff byte_def)
  ultimately have "split_str uapi [newline] = map uapi_pair ?ps @ [[]]" using split_lines by blast
  with k e num(1) routes show ?thesis by (auto simp: list_all_iff)
qed

text \<open>C15: What is programmed into the WireGuard device is exactly the tunnel that was built: read line by
  line, the configuration string holds the private key, the key of the one peer (replacing any other),
  the endpoint, which is a numeric address with the port of the node, and one line for each route, every
  one a prefix and in the order of the configuration. No value of the server can add or hide a line.\<close>

theorem uapi_program:
  assumes "build_wg_conf conf node info = Some (Inr wc)" and "build_uapi look wc = Inr uapi"
  shows "\<exists>priv peer endpoint host.
    b64_decode (private_key conf) = Some priv \<and> b64_decode (wi_public_key info) = Some peer \<and>
    split_host_port endpoint = Some (host, itoa (unat (vi_vpn_port node))) \<and> parse_ip host \<noteq> None \<and>
    list_all (\<lambda>r. parse_prefix r \<noteq> None) (wc_allowed wc) \<and>
    split_str uapi [newline] = map uapi_pair
      ([(''private_key'', hex_encode priv), (''replace_peers'', ''true''), (''public_key'', hex_encode peer),
        (''replace_allowed_ips'', ''true''), (''endpoint'', endpoint), (''persistent_keepalive_interval'', ''10'')]
       @ map (Pair ''allowed_ip'') (wc_allowed wc)) @ [[]]"
  using build_uapi_endpoint [OF assms] by blast

definition keyed_config :: config where
  "keyed_config = empty_config\<lparr>private_key := ''AAEC''\<rparr>"

definition keyed_info :: wg_info where
  "keyed_info = (demo_info ''10.0.0.53'')\<lparr>wi_public_key := ''//8=''\<rparr>"

lemma keyed_tunnel:
  "\<exists>wc uapi. build_wg_conf keyed_config demo_node keyed_info = Some (Inr wc) \<and> build_uapi (\<lambda>h. []) wc = Inr uapi"
proof -
  have m: "atoi (wi_ip_mask keyed_info) = Some 24" by code_simp
  have nr: "\<not> (route_mode_or_default keyed_config \<noteq> route_mode_split \<and> route_base keyed_config keyed_info = [])"
    by (simp add: route_mode_or_default_def keyed_config_def empty_config_def route_mode_split_def route_base_def
        keyed_info_def demo_info_def)
  obtain wc where b: "build_wg_conf keyed_config demo_node keyed_info = Some (Inr wc)"
    using build_wg_conf_total [OF m nr] by blast
  note f = build_wg_conf_fields [OF b]
  have k: "b64_decode_to_hex (wc_private_key wc) = Some ''000102''" "b64_decode_to_hex (wc_peer_key wc) = Some ''ffff''"
    unfolding f by code_simp+
  have "resolve_endpoint (\<lambda>h. []) (vi_ip demo_node @ CHR '':'' # itoa (unat (vi_vpn_port demo_node))) =
      Inr ''10.9.8.7:51820''" by code_simp
  then show ?thesis using b by (simp add: build_uapi_def k f(3))
qed

theorem uapi_program_witness:
  "\<exists>wc uapi. build_wg_conf keyed_config demo_node keyed_info = Some (Inr wc) \<and>
     build_uapi (\<lambda>h. []) wc = Inr uapi \<and> split_str uapi [newline] ! 0 = ''private_key=000102''"
proof -
  obtain wc uapi where b: "build_wg_conf keyed_config demo_node keyed_info = Some (Inr wc)"
    "build_uapi (\<lambda>h. []) wc = Inr uapi"
    using keyed_tunnel by blast
  have "b64_decode (private_key keyed_config) = Some (map chr [0, 1, 2])"
    "hex_encode (map chr [0, 1, 2]) = ''000102''" by code_simp+
  then show ?thesis using uapi_program [OF b] b by (auto simp: uapi_pair_def)
qed

section \<open>Starting cleans up\<close>

definition is_close :: "start_call \<Rightarrow> bool" where
  "is_close c = (c = CloseTun \<or> c = CloseDevice)"

text \<open>What is still to be closed when a stage fails: a device owns its tun.\<close>

definition to_close :: "'e start_err \<Rightarrow> start_call list" where
  "to_close e = (case e of StartAddr _ \<Rightarrow> [] | StartTun _ \<Rightarrow> [] | StartBind _ \<Rightarrow> [CloseTun] | _ \<Rightarrow> [CloseDevice])"

text \<open>Whatever fails on the way, starting a tunnel leaves nothing behind: a start that fails closes exactly
  what it had made, once and as its last act - nothing before the tun device exists, the tun device until
  a WireGuard device owns it, the WireGuard device after that; and a start that succeeds closes nothing,
  has programmed the configuration of the tunnel into the device it brought up, on the transport
  of its protocol and with its addresses, name servers and MTU.\<close>

theorem start_cleans_up:
  "case start_netstack_with_proxy env conf p of
     (cs, Inl e) \<Rightarrow> cs = filter (\<lambda>c. \<not> is_close c) cs @ to_close e
   | (cs, Inr d) \<Rightarrow>
       (\<exists>locals bind uapi. parse_addrs conf = Inr locals \<and> new_wireguard_bind (wc_protocol conf) p = Inr bind \<and>
          build_uapi (se_lookup env) conf = Inr uapi \<and> d = new_device (parse_dns (wc_dns conf)) locals \<and>
          cs = [CreateTun locals (parse_dns (wc_dns conf)) (if wc_mtu conf = 0 then 1280 else uint (wc_mtu conf)),
            NewDevice bind, DeviceUp, IpcSet uapi])"
  by (auto simp: start_netstack_with_proxy_def Let_def is_close_def to_close_def split: sum.splits option.splits)

text \<open>A tunnel over TCP with an upstream proxy dials through it, and no other: a tunnel never bypasses the
  proxy except over UDP.\<close>

lemma bind_uses_proxy: "new_wireguard_bind 1 p = Inr (TcpBind q) \<Longrightarrow> enabled p \<Longrightarrow> q = p"
  by (simp add: new_wireguard_bind_def)

section \<open>The counters\<close>

datatype device_op =
    OpDial instant bool | OpMark instant | OpRead nat | OpWrite nat | OpCloseConn nat | OpClose

fun device_step :: "device_op \<Rightarrow> netstack_device \<Rightarrow> netstack_device" where
  "device_step (OpDial now ok) d = snd (device_dial now (if ok then None else Some ()) d)"
| "device_step (OpMark now) d = mark_dial_activity now d"
| "device_step (OpRead n) d = counted_read n d"
| "device_step (OpWrite n) d = counted_write n d"
| "device_step (OpCloseConn i) d = counted_close i d"
| "device_step OpClose d = device_close d"

definition bytes_read :: "device_op list \<Rightarrow> nat" where
  "bytes_read ops = (\<Sum>op\<leftarrow>ops. case op of OpRead n \<Rightarrow> n | _ \<Rightarrow> 0)"

definition bytes_written :: "device_op list \<Rightarrow> nat" where
  "bytes_written ops = (\<Sum>op\<leftarrow>ops. case op of OpWrite n \<Rightarrow> n | _ \<Rightarrow> 0)"

fun dial_times :: "device_op list \<Rightarrow> instant list" where
  "dial_times [] = []"
| "dial_times (OpDial now ok # ops) = now # dial_times ops"
| "dial_times (OpMark now # ops) = now # dial_times ops"
| "dial_times (op # ops) = dial_times ops"

fun dial_count :: "device_op list \<Rightarrow> nat" where
  "dial_count [] = 0"
| "dial_count (OpDial now ok # ops) = (if ok then Suc (dial_count ops) else dial_count ops)"
| "dial_count (op # ops) = dial_count ops"

text \<open>What the counters hold, as against the list of connections.\<close>

definition counters_ok :: "netstack_device \<Rightarrow> bool" where
  "counters_ok d = (nd_active d = of_nat (length (filter (\<lambda>c. \<not> c) (nd_conns d))) \<and>
     nd_dev_closes d = (if nd_closed d then 1 else 0))"

lemma open_count_close:
  "i < length cs \<Longrightarrow> \<not> cs ! i \<Longrightarrow>
   Suc (length (filter (\<lambda>c. \<not> c) (cs[i := True]))) = length (filter (\<lambda>c. \<not> c) cs)"
proof (induction cs arbitrary: i)
  case (Cons c cs)
  then show ?case by (cases i) auto
qed simp

lemma counters_step: "counters_ok d \<Longrightarrow> counters_ok (device_step op d)"
proof (cases op)
  case (OpCloseConn i)
  assume ok: "counters_ok d"
  show ?thesis
  proof (cases "i < length (nd_conns d) \<and> \<not> nd_conns d ! i")
    case True
    then have "of_nat (length (filter (\<lambda>c. \<not> c) (nd_conns d))) =
        (of_nat (Suc (length (filter (\<lambda>c. \<not> c) ((nd_conns d)[i := True])))) :: i64)"
      using open_count_close by simp
    then show ?thesis using ok True OpCloseConn by (simp add: counters_ok_def counted_close_def Let_def)
  next
    case False
    then have "i < length (nd_conns d) \<Longrightarrow> (nd_conns d)[i := True] = nd_conns d"
      using list_update_id [of "nd_conns d" i] by auto
    then show ?thesis using ok False OpCloseConn by (auto simp: counters_ok_def counted_close_def Let_def)
  qed
qed (auto simp: counters_ok_def device_dial_def mark_dial_activity_def track_conn_def counted_read_def counted_write_def
    device_close_def Let_def)

interpretation counters: op_invariant device_step "\<lambda>op. True" counters_ok
  by unfold_locales (rule counters_step)

lemma fold_device:
  "nd_rx (fold device_step ops d) = nd_rx d + of_nat (bytes_read ops)"
  "nd_tx (fold device_step ops d) = nd_tx d + of_nat (bytes_written ops)"
  "nd_dial_at (fold device_step ops d) = last (nd_dial_at d # dial_times ops)"
  "nd_closed (fold device_step ops d) \<longleftrightarrow> nd_closed d \<or> OpClose \<in> set ops"
  "length (nd_conns (fold device_step ops d)) = length (nd_conns d) + dial_count ops"
proof (induction ops arbitrary: d)
  case (Cons op ops)
  { case 1 show ?case using Cons(1) by (cases op) (auto simp: bytes_read_def device_dial_def mark_dial_activity_def
      track_conn_def counted_read_def counted_write_def counted_close_def device_close_def Let_def) }
  { case 2 show ?case using Cons(2) by (cases op) (auto simp: bytes_written_def device_dial_def mark_dial_activity_def
      track_conn_def counted_read_def counted_write_def counted_close_def device_close_def Let_def) }
  { case 3 show ?case using Cons(3) by (cases op) (auto simp: device_dial_def mark_dial_activity_def
      track_conn_def counted_read_def counted_write_def counted_close_def device_close_def Let_def) }
  { case 4 show ?case using Cons(4) by (cases op) (auto simp: device_dial_def mark_dial_activity_def
      track_conn_def counted_read_def counted_write_def counted_close_def device_close_def Let_def) }
  { case 5 show ?case using Cons(5) by (cases op) (auto simp: device_dial_def mark_dial_activity_def
      track_conn_def counted_read_def counted_write_def counted_close_def device_close_def Let_def) }
qed (simp_all add: bytes_read_def bytes_written_def)

lemma sint_of_nat_small: "n < 2 ^ 63 \<Longrightarrow> sint (of_nat n :: i64) = int n"
  by (simp add: signed_of_nat signed_take_bit_int_eq_self)

text \<open>C32: The counters of a tunnel are right after any sequence of dials, reads, writes and closes, as long as
  no total reaches 2 to the 63: \<open>ActiveConns\<close> is the number of connections not closed (closing one
  twice counts once), the totals are the bytes read and written, the last dial activity is the last dial
  or mark, and the WireGuard device has been closed once if the tunnel was closed, however often, and
  else never.\<close>

theorem device_counters:
  assumes "d = fold device_step ops (new_device dns locals)"
    and "dial_count ops < 2 ^ 63" "bytes_read ops < 2 ^ 63" "bytes_written ops < 2 ^ 63" and "0 \<notin> set (dial_times ops)"
  shows "active_conns d = int (length (filter (\<lambda>c. \<not> c) (nd_conns d))) \<and> length (nd_conns d) = dial_count ops \<and>
    transfer_totals d = (int (bytes_read ops), int (bytes_written ops)) \<and>
    last_dial_activity d = (if dial_times ops = [] then None else Some (last (dial_times ops))) \<and>
    nd_dev_closes d = (if OpClose \<in> set ops then 1 else 0)"
proof -
  have n: "nd_rx (new_device dns locals) = 0" "nd_tx (new_device dns locals) = 0" "nd_dial_at (new_device dns locals) = 0"
    "nd_closed (new_device dns locals) = False" "nd_conns (new_device dns locals) = []"
    by (simp_all add: new_device_def)
  note f = fold_device [of ops "new_device dns locals", folded assms(1), unfolded n]
  have ok: "counters_ok d" unfolding assms(1) by (rule counters.fold_inv) (simp_all add: list_all_iff new_device_def counters_ok_def)
  have len: "length (filter (\<lambda>c. \<not> c) (nd_conns d)) < 2 ^ 63"
    using length_filter_le [of "\<lambda>c. \<not> c" "nd_conns d"] f(5) assms(2) by simp
  have "last (dial_times ops) \<noteq> 0" if "dial_times ops \<noteq> []"
    using assms(5) last_in_set [OF that] by auto
  then show ?thesis
    using ok f sint_of_nat_small [OF len] sint_of_nat_small [OF assms(3)] sint_of_nat_small [OF assms(4)]
    by (auto simp: counters_ok_def active_conns_def transfer_totals_def last_dial_activity_def)
qed

theorem device_counters_witness:
  "let d = fold device_step [OpDial 5 True, OpDial 6 False, OpRead 7, OpCloseConn 0, OpCloseConn 0, OpDial 9 True, OpClose, OpClose]
       (new_device [] [])
   in active_conns d = 1 \<and> transfer_totals d = (7, 0) \<and> last_dial_activity d = Some 9 \<and> nd_dev_closes d = 1"
proof -
  let ?ops = "[OpDial 5 True, OpDial 6 False, OpRead 7, OpCloseConn 0, OpCloseConn 0, OpDial 9 True, OpClose, OpClose]"
  have c: "nd_conns (fold device_step ?ops (new_device [] [])) = [True, False]" by code_simp
  have t: "bytes_read ?ops = 7" "bytes_written ?ops = 0" "dial_times ?ops = [5, 6, 9]" "dial_count ?ops = 2"
    by (simp_all add: bytes_read_def bytes_written_def)
  show ?thesis using device_counters [OF refl, of ?ops "[]" "[]"] c by (simp add: t Let_def)
qed

section \<open>Reading the peer back\<close>

lemma base_prefix_itoa: "base_prefix (itoa n) = (if n = 0 then (8, ''0'') else (10, []))"
proof (cases "n = 0")
  case False
  obtain c r where cr: "itoa n = c # r" by (cases "itoa n") auto
  moreover have "itoa n \<noteq> itoa 0" using False by (subst itoa_inject) simp
  ultimately have "c \<noteq> CHR ''0''" using itoa_head [of n] by (cases r) auto
  then have "base_prefix (c # r) = (10, [])"
    by (auto simp: base_prefix_def split: list.splits char.splits bool.splits)
  then show ?thesis using False cr by simp
qed (simp add: base_prefix_def)

lemma base_digit_10: "is_digit c \<Longrightarrow> base_digit 10 c"
  by (auto simp: base_digit_def hex_val_def is_digit_def)

lemma digits_val_dec: "list_all is_digit s \<Longrightarrow> digits_val 10 s = dec_val s"
proof -
  have "foldl (\<lambda>v c. case hex_val c of None \<Rightarrow> v | Some d \<Rightarrow> v * 10 + d) v s = foldl (\<lambda>v c. v * 10 + digit_val c) v s"
    if "list_all is_digit s" for v
    using that by (induction s arbitrary: v) (simp_all add: hex_val_def digit_val_def)
  then show "list_all is_digit s \<Longrightarrow> ?thesis" by (simp add: digits_val_def dec_val_def)
qed

lemma underscores_digits: "list_all is_digit s \<Longrightarrow> underscores_ok b s"
  by (induction s arbitrary: b) (auto simp: is_digit_def byte_def)

lemma trim_space_digits: "list_all is_digit s \<Longrightarrow> trim_space s = s"
proof -
  have "\<not> is_space c" if "is_digit c" for c using that by (auto simp: is_digit_def is_space_def)
  then have "dropWhile is_space t = t" if "list_all is_digit t" for t
    using that by (cases t) auto
  then show "list_all is_digit s \<Longrightarrow> ?thesis" by (simp add: trim_space_def)
qed

text \<open>The number that the device prints is the number that is read.\<close>

lemma parse_int64_itoa:
  assumes "n < 2 ^ 63"
  shows "parse_int64 (itoa n) = int n"
proof (cases "n = 0")
  case True
  have "parse_int64 ''0'' = 0" by code_simp
  then show ?thesis using True by simp
next
  case False
  have sign: "itoa n ! 0 \<noteq> CHR ''-''" "itoa n ! 0 \<noteq> CHR ''+''"
    using itoa_digits_set [of "itoa n ! 0" n] digit_not nth_mem [of 0 "itoa n"] by auto
  have "takeWhile (\<lambda>c. base_digit 10 c \<or> c = CHR ''_'') (itoa n) = itoa n"
    using itoa_digits_set base_digit_10 by (simp only: takeWhile_eq_all_conv) blast
  then show ?thesis
    using assms False sign
    by (simp add: parse_int64_def trim_space_digits base_prefix_itoa digits_val_dec underscores_digits Let_def
        del: takeWhile_eq_all_conv)
qed

lemma peer_stats_line_values:
  "n < 2 ^ 63 \<Longrightarrow> peer_stats_line (''tx_bytes='' @ itoa n) st = st\<lparr>ps_tx := int n\<rparr>"
  "n < 2 ^ 63 \<Longrightarrow> peer_stats_line (''rx_bytes='' @ itoa n) st = st\<lparr>ps_rx := int n\<rparr>"
  "n < 2 ^ 63 \<Longrightarrow> peer_stats_line (''last_handshake_time_sec='' @ itoa n) st =
     st\<lparr>ps_last_handshake := max (ps_last_handshake st) (int n)\<rparr>"
  by (simp_all add: peer_stats_line_def has_prefix_def trim_prefix_def parse_int64_itoa max_def Let_def)

text \<open>The statistics of the one peer, wherever its lines stand in the answer of the device.\<close>

lemma peer_stats_read_back:
  assumes "\<forall>l \<in> set (pre @ post). newline \<notin> set l \<and> \<not> has_prefix l ''tx_bytes='' \<and> \<not> has_prefix l ''rx_bytes='' \<and>
      \<not> has_prefix l ''last_handshake_time_sec=''"
    and "h < 2 ^ 63" "t < 2 ^ 63" "r < 2 ^ 63"
  shows "device_peer_stats (Inr (concat (map (\<lambda>l. l @ [newline])
      (pre @ [''last_handshake_time_sec='' @ itoa h, ''tx_bytes='' @ itoa t, ''rx_bytes='' @ itoa r] @ post))) :: 'a + string) =
    \<lparr>ps_last_handshake = int h, ps_tx = int t, ps_rx = int r\<rparr>"
proof -
  have other: "fold peer_stats_line ls st = st" if "set ls \<subseteq> set (pre @ post)" for ls st
    using that assms(1) by (induction ls) (auto simp: peer_stats_line_def)
  let ?ls = "pre @ [''last_handshake_time_sec='' @ itoa h, ''tx_bytes='' @ itoa t, ''rx_bytes='' @ itoa r] @ post"
  have "\<forall>l \<in> set ?ls. newline \<notin> set l"
    using assms(1) itoa_digits_set newline_not_digit by (fastforce simp: newline_iff byte_def)
  then have "split_str (concat (map (\<lambda>l. l @ [newline]) ?ls)) [newline] = ?ls @ [[]]" by (rule split_lines)
  then have "device_peer_stats (Inr (concat (map (\<lambda>l. l @ [newline]) ?ls)) :: 'a + string) =
      fold peer_stats_line (?ls @ [[]]) zero_peer_stats"
    by (simp only: device_peer_stats_def sum.case)
  moreover have "peer_stats_line [] st = st" for st by (simp add: peer_stats_line_def has_prefix_def)
  ultimately show ?thesis
    using other [of pre] other [of post]
    by (simp only: fold_append fold_simps comp_apply peer_stats_line_values assms(2-4) set_append Un_upper1 Un_upper2)
      (simp add: zero_peer_stats_def)
qed

end
