(* ===== verification/Panel.thy ===== *)
theory Panel
  imports Manager AdminAuth
begin

text \<open>
  The control panel (\<open>server/server.go\<close>, \<open>admin.go\<close>, \<open>handlers.go\<close>, \<open>spa.go\<close>): the routes with their
  gate, every handler from the request to the answer, and the static pages.

  A handler runs to its answer, or to the operation of the manager that it waits for; then the task it
  starts is given to the goroutines of the theory Manager, and \<open>finish_wait\<close> is the rest of the handler
  once the operation has returned. What an answer holds is a value, not its JSON text; the texts of
  errors are a parameter. The multiplexer's redirects of unclean paths and the content of the
  built-in files are not modelled.
\<close>

section \<open>Requests and answers\<close>

record panel_request =
  pr_method :: string
  pr_path :: string
  pr_query :: string
  pr_cookies :: "(string \<times> string) list"
  pr_body :: "resp_body option"
  pr_remote :: string

datatype payload =
    PError string
  | POk
  | PAuth bool bool
  | PStatus status
  | PCompany company_info
  | PMethods login_method "tps_login list"
  | PPending
  | PLogin string
  | PState conn_state
  | PNeedOtp conn_state
  | PServers "vpn_server list"
  | PTraffic traffic_sample
  | PConfig config_view
  | PPage string
  | PIndex
  | PNoFrontend

record set_cookie =
  sc_name :: string
  sc_value :: string
  sc_path :: string
  sc_http_only :: bool
  sc_lax :: bool
  sc_expires :: "instant option"
  sc_max_age :: int

record panel_response =
  rs_code :: nat
  rs_payload :: payload
  rs_cookie :: "set_cookie option"

definition write_json :: "nat \<Rightarrow> payload \<Rightarrow> panel_response" where
  "write_json code v = \<lparr>rs_code = code, rs_payload = v, rs_cookie = None\<rparr>"

definition write_ok :: panel_response where
  "write_ok = write_json 200 POk"

definition write_err :: "nat \<Rightarrow> string \<Rightarrow> panel_response" where
  "write_err code msg = write_json code (PError msg)"

text \<open>What a handler waits for, and what it does at once.\<close>

datatype wait = AwaitConnect | AwaitDisconnect | AwaitLogout
datatype handled = Done panel_response | Waits task wait

record panel =
  pn_admin :: admin_auth
  pn_client :: client
  pn_world :: world

text \<open>What a request meets: the time, the random bytes, the order of map iterations, the servers, the
  faults of the disk, the answer of the match service, and the texts of the errors.\<close>

record panel_env =
  pe_now :: instant
  pe_rnd :: bytes
  pe_ord :: "string list \<Rightarrow> string list"
  pe_client :: client_env
  pe_company :: "resp_body option"
  pe_save :: save_fault
  pe_probes :: "nat list"
  pe_client_text :: "client_err \<Rightarrow> string"
  pe_company_text :: "set_company_err \<Rightarrow> string"
  pe_config_text :: "config_err \<Rightarrow> string"
  pe_files :: "string set"

text \<open>The configuration is one shared object: \<open>Connect\<close> writes the pinned node, which the manager model
  keeps, and \<open>sync_conf\<close> brings it to the client's copy before a handler runs.\<close>

definition panel_conf :: "panel \<Rightarrow> config" where
  "panel_conf p = (cl_conf (pn_client p))\<lparr>vpn_server_id := mg_server_id (wd_mgr (pn_world p))\<rparr>"

definition sync_conf :: "panel \<Rightarrow> panel" where
  "sync_conf p = p\<lparr>pn_client := (pn_client p)\<lparr>cl_conf := panel_conf p\<rparr>\<rparr>"

section \<open>Reading the request\<close>

text \<open>\<open>json.Decoder.Decode\<close> of a struct: the value with every member that could be decoded, and whether there
  was an error. A body that is no JSON value leaves the zero value.\<close>

definition body_field :: "string \<Rightarrow> 'a \<Rightarrow> (json \<Rightarrow> 'a option) \<Rightarrow> (string \<times> json) list \<Rightarrow> 'a \<times> bool" where
  "body_field name zero dec ms =
     foldl (\<lambda>(x, err) (k, v). if eq_fold k name \<and> v \<noteq> JNull
              then (case dec v of None \<Rightarrow> (x, True) | Some y \<Rightarrow> (y, err)) else (x, err)) (zero, False) ms"

definition body_members :: "resp_body option \<Rightarrow> (string \<times> json) list \<times> bool" where
  "body_members b =
     (case b of
        None \<Rightarrow> ([], False)
      | Some (Doc (JObj ms)) \<Rightarrow> (ms, False)
      | Some (Doc JNull) \<Rightarrow> ([], False)
      | Some _ \<Rightarrow> ([], True))"

definition decode_strings :: "resp_body option \<Rightarrow> string list \<Rightarrow> string list \<times> bool" where
  "decode_strings b names =
     (case body_members b of (ms, err) \<Rightarrow>
        let rs = map (\<lambda>n. body_field n [] as_str ms) names in (map fst rs, err \<or> list_ex snd rs))"

definition opt_field :: "string \<Rightarrow> (json \<Rightarrow> 'a option) \<Rightarrow> (string \<times> json) list \<Rightarrow> 'a option \<times> bool" where
  "opt_field name dec ms =
     foldl (\<lambda>(x, err) (k, v). if eq_fold k name
              then (if v = JNull then (None, err)
                    else case dec v of None \<Rightarrow> (x, True) | Some y \<Rightarrow> (Some y, err)) else (x, err)) (None, False) ms"

definition decode_update :: "resp_body option \<Rightarrow> config_update \<times> bool" where
  "decode_update b =
     (case body_members b of (ms, err) \<Rightarrow>
        let s = (\<lambda>n. opt_field n as_str ms); i = opt_field ''vpn_server_id'' as_int64 ms
        in (\<lparr>cu_socks_listen = fst (s ''socks_listen''), cu_vpn_server_id = fst i,
             cu_strategy = fst (s ''vpn_select_strategy''), cu_route_mode = fst (s ''route_mode''),
             cu_force_protocol = fst (s ''force_protocol''), cu_upstream = fst (s ''upstream_proxy'')\<rparr>,
            err \<or> snd i \<or> list_ex (\<lambda>n. snd (s n))
              [''socks_listen'', ''vpn_select_strategy'', ''route_mode'', ''force_protocol'', ''upstream_proxy'']))"

definition client_ip :: "panel_request \<Rightarrow> string" where
  "client_ip rq = (case split_host_port (pr_remote rq) of Some (host, _) \<Rightarrow> host | None \<Rightarrow> pr_remote rq)"

definition query_get :: "panel_request \<Rightarrow> string \<Rightarrow> string" where
  "query_get rq k = (case map_of (query_pairs (pr_query rq)) k of None \<Rightarrow> [] | Some v \<Rightarrow> v)"

definition is_post :: "panel_request \<Rightarrow> bool" where
  "is_post rq = (pr_method rq = ''POST'')"

definition not_allowed :: "panel \<Rightarrow> handled \<times> panel" where
  "not_allowed p = (Done (write_err 405 ''POST required''), p)"

section \<open>The admin gate\<close>

definition admin_cookie_name :: string where "admin_cookie_name = ''corplink_admin''"

definition admin_cookie :: "panel_request \<Rightarrow> string option" where
  "admin_cookie rq = map_of (pr_cookies rq) admin_cookie_name"

definition require_admin ::
  "(panel_env \<Rightarrow> panel_request \<Rightarrow> panel \<Rightarrow> handled \<times> panel) \<Rightarrow>
     panel_env \<Rightarrow> panel_request \<Rightarrow> panel \<Rightarrow> handled \<times> panel" where
  "require_admin next env rq p =
     (if \<not> admin_auth_enabled (panel_conf p) then next env rq p
      else let token = (case admin_cookie rq of None \<Rightarrow> [] | Some t \<Rightarrow> t)
           in case check_session (panel_conf p) (pe_now env) token (pn_admin p) of
                (ok, a) \<Rightarrow> if \<not> ok then (Done (write_err 401 ''admin authentication required''), p\<lparr>pn_admin := a\<rparr>)
                           else next env rq (p\<lparr>pn_admin := a\<rparr>))"

definition handle_admin_auth :: "panel_env \<Rightarrow> panel_request \<Rightarrow> panel \<Rightarrow> handled \<times> panel" where
  "handle_admin_auth env rq p =
     (let en = admin_auth_enabled (panel_conf p) in
      if en then
        (case admin_cookie rq of
           None \<Rightarrow> (Done (write_json 200 (PAuth en False)), p)
         | Some t \<Rightarrow> (case check_session (panel_conf p) (pe_now env) t (pn_admin p) of
                        (ok, a) \<Rightarrow> (Done (write_json 200 (PAuth en ok)), p\<lparr>pn_admin := a\<rparr>)))
      else (Done (write_json 200 (PAuth en True)), p))"

definition session_cookie :: "string \<Rightarrow> instant \<Rightarrow> set_cookie" where
  "session_cookie token now = \<lparr>sc_name = admin_cookie_name, sc_value = token, sc_path = ''/'', sc_http_only = True,
     sc_lax = True, sc_expires = Some (now + 12 * 3600 * second), sc_max_age = 0\<rparr>"

definition clear_session_cookie :: set_cookie where
  "clear_session_cookie = \<lparr>sc_name = admin_cookie_name, sc_value = [], sc_path = ''/'', sc_http_only = True,
     sc_lax = False, sc_expires = None, sc_max_age = -1\<rparr>"

definition handle_admin_login :: "panel_env \<Rightarrow> panel_request \<Rightarrow> panel \<Rightarrow> handled \<times> panel" where
  "handle_admin_login env rq p =
     (if \<not> is_post rq then not_allowed p
      else if \<not> admin_auth_enabled (panel_conf p) then (Done write_ok, p)
      else case decode_strings (pr_body rq) [''username'', ''password''] of (vs, err) \<Rightarrow>
        if err then (Done (write_err 400 ''invalid body''), p)
        else case admin_login (panel_conf p) (pe_ord env) (pe_now env) (pe_rnd env) (client_ip rq) (vs ! 0) (vs ! 1) (pn_admin p) of
            (None, a) \<Rightarrow> (Done (write_err 401 ''invalid credentials''), p\<lparr>pn_admin := a\<rparr>)
          | (Some token, a) \<Rightarrow>
              (Done (write_ok\<lparr>rs_cookie := Some (session_cookie token (pe_now env))\<rparr>), p\<lparr>pn_admin := a\<rparr>))"

definition handle_admin_logout :: "panel_request \<Rightarrow> panel \<Rightarrow> handled \<times> panel" where
  "handle_admin_logout rq p =
     (Done (write_ok\<lparr>rs_cookie := Some clear_session_cookie\<rparr>),
      case admin_cookie rq of None \<Rightarrow> p | Some t \<Rightarrow> p\<lparr>pn_admin := admin_logout t (pn_admin p)\<rparr>)"

section \<open>The handlers\<close>

definition handle_state :: "panel_env \<Rightarrow> panel_request \<Rightarrow> panel \<Rightarrow> handled \<times> panel" where
  "handle_state env rq p = (Done (write_json 200 (PStatus (status_of (panel_conf p) (pn_world p)))), p)"

definition handle_company :: "panel_env \<Rightarrow> panel_request \<Rightarrow> panel \<Rightarrow> handled \<times> panel" where
  "handle_company env rq p =
     (if \<not> is_post rq then not_allowed p
      else case decode_strings (pr_body rq) [''company_name''] of (vs, err) \<Rightarrow>
        if err \<or> vs ! 0 = [] then (Done (write_err 400 ''company_name required''), p)
        else case set_company (pe_client env) (vs ! 0) (pe_company env) (pn_client p) of
            (c, Inl e) \<Rightarrow> (Done (write_err 502 (pe_company_text env e)), p\<lparr>pn_client := c\<rparr>)
          | (c, Inr info) \<Rightarrow> (Done (write_json 200 (PCompany info)), p\<lparr>pn_client := c\<rparr>))"

definition handle_login_methods :: "panel_env \<Rightarrow> panel_request \<Rightarrow> panel \<Rightarrow> handled \<times> panel" where
  "handle_login_methods env rq p =
     (case get_login_methods (pe_client env) (pn_client p) of
        (c, Inl e) \<Rightarrow> (Done (write_err 502 (pe_client_text env e)), p\<lparr>pn_client := c\<rparr>)
      | (c, Inr (lm, tps)) \<Rightarrow> (Done (write_json 200 (PMethods lm tps)), p\<lparr>pn_client := c\<rparr>))"

text \<open>The end of a login handler: \<open>SetLoggedIn\<close> and the answer, or the error.\<close>

definition login_result :: "panel_env \<Rightarrow> panel \<Rightarrow> client \<times> (client_err + 'a) \<Rightarrow> ('a \<Rightarrow> payload) \<Rightarrow> handled \<times> panel" where
  "login_result env p r ok =
     (case r of
        (c, Inl e) \<Rightarrow> (Done (write_err 401 (pe_client_text env e)), p\<lparr>pn_client := c\<rparr>)
      | (c, Inr a) \<Rightarrow> (Done (write_json 200 (ok a)), p\<lparr>pn_client := c, pn_world := set_logged_in (pn_world p)\<rparr>))"

definition handle_login_password :: "panel_env \<Rightarrow> panel_request \<Rightarrow> panel \<Rightarrow> handled \<times> panel" where
  "handle_login_password env rq p =
     (if \<not> is_post rq then not_allowed p
      else case decode_strings (pr_body rq) [''username'', ''password'', ''platform''] of (vs, err) \<Rightarrow>
        if err \<or> vs ! 0 = [] then (Done (write_err 400 ''username and password required''), p)
        else login_result env p
               (login_with_password (pe_client env) (vs ! 0) (vs ! 1) (vs ! 2) (pn_client p)) (\<lambda>_. POk))"

definition handle_email_request :: "panel_env \<Rightarrow> panel_request \<Rightarrow> panel \<Rightarrow> handled \<times> panel" where
  "handle_email_request env rq p =
     (if \<not> is_post rq then not_allowed p
      else case decode_strings (pr_body rq) [''username''] of (vs, err) \<Rightarrow>
        if err \<or> vs ! 0 = [] then (Done (write_err 400 ''username required''), p)
        else case request_email_code (pe_client env) (vs ! 0) (pn_client p) of
            (c, Inl e) \<Rightarrow> (Done (write_err 502 (pe_client_text env e)), p\<lparr>pn_client := c\<rparr>)
          | (c, Inr _) \<Rightarrow> (Done write_ok, p\<lparr>pn_client := c\<rparr>))"

definition handle_email_verify :: "panel_env \<Rightarrow> panel_request \<Rightarrow> panel \<Rightarrow> handled \<times> panel" where
  "handle_email_verify env rq p =
     (if \<not> is_post rq then not_allowed p
      else case decode_strings (pr_body rq) [''username'', ''code''] of (vs, err) \<Rightarrow>
        if err \<or> vs ! 1 = [] then (Done (write_err 400 ''code required''), p)
        else login_result env p (login_with_email (pe_client env) (vs ! 0) (vs ! 1) (pn_client p)) (\<lambda>_. POk))"

definition handle_tps_check :: "panel_env \<Rightarrow> panel_request \<Rightarrow> panel \<Rightarrow> handled \<times> panel" where
  "handle_tps_check env rq p =
     (let token = query_get rq ''token'' in
      if token = [] then (Done (write_err 400 ''token required''), p)
      else case check_tps_token (pe_client env) token (pn_client p) of
          (c, Inl _) \<Rightarrow> (Done (write_json 200 PPending), p\<lparr>pn_client := c\<rparr>)
        | (c, Inr url) \<Rightarrow>
            (Done (write_json 200 (PLogin url)), p\<lparr>pn_client := c, pn_world := set_logged_in (pn_world p)\<rparr>))"

text \<open>The error of the decoder is ignored here.\<close>

definition handle_connect_api :: "panel_env \<Rightarrow> panel_request \<Rightarrow> panel \<Rightarrow> handled \<times> panel" where
  "handle_connect_api env rq p =
     (if \<not> is_post rq then not_allowed p
      else let ms = fst (body_members (pr_body rq))
           in (Waits (StartConnect (fst (body_field ''server_id'' 0 as_int64 ms)) (fst (body_field ''otp'' [] as_str ms)))
                 AwaitConnect, p))"

definition handle_disconnect :: "panel_env \<Rightarrow> panel_request \<Rightarrow> panel \<Rightarrow> handled \<times> panel" where
  "handle_disconnect env rq p = (if \<not> is_post rq then not_allowed p else (Waits StartDisconnect AwaitDisconnect, p))"

text \<open>\<open>Manager.Servers\<close>\<close>

definition manager_servers :: "panel_env \<Rightarrow> bool \<Rightarrow> panel \<Rightarrow> (client_err + vpn_server list) \<times> panel" where
  "manager_servers env probe p =
     (case list_vpn (pe_client env) (pn_client p) of
        (c, Inl e) \<Rightarrow>
          (Inl e, p\<lparr>pn_client := c,
                    pn_world := (if is_logged_out e then set_state LoggedOut (pe_client_text env e) (pn_world p)
                                 else pn_world p)\<rparr>)
      | (c, Inr vpns) \<Rightarrow>
          (case (if probe then probe_all (pe_client env) (pe_probes env) vpns c else (c, vpns)) of
             (c1, vs) \<Rightarrow> (Inr (server_list (mg_server_id (wd_mgr (pn_world p))) vs), p\<lparr>pn_client := c1\<rparr>)))"

definition handle_servers :: "panel_env \<Rightarrow> panel_request \<Rightarrow> panel \<Rightarrow> handled \<times> panel" where
  "handle_servers env rq p =
     (case manager_servers env (query_get rq ''probe'' \<noteq> ''false'') p of
        (Inl e, p') \<Rightarrow> (Done (write_err 502 (pe_client_text env e)), p')
      | (Inr servers, p') \<Rightarrow> (Done (write_json 200 (PServers servers)), p'))"

definition handle_traffic :: "panel_env \<Rightarrow> panel_request \<Rightarrow> panel \<Rightarrow> handled \<times> panel" where
  "handle_traffic env rq p = (Done (write_json 200 (PTraffic (traffic (panel_conf p) (pe_now env) (pn_world p)))), p)"

definition handle_logout :: "panel_env \<Rightarrow> panel_request \<Rightarrow> panel \<Rightarrow> handled \<times> panel" where
  "handle_logout env rq p = (if \<not> is_post rq then not_allowed p else (Waits StartLogout AwaitLogout, p))"

text \<open>\<open>UpdateConfig\<close> on the shared configuration: the manager sees the new listen address and node, and the
  transport of the client a new upstream proxy, unless it is malformed.\<close>

definition proxy_refused :: "config_err option \<Rightarrow> bool" where
  "proxy_refused err = (case err of Some (ProxyErr _) \<Rightarrow> True | _ \<Rightarrow> False)"

definition panel_update_config :: "panel_env \<Rightarrow> config_update \<Rightarrow> panel \<Rightarrow> config_err option \<times> panel" where
  "panel_update_config env u p =
     (case update_config (pe_save env) u (panel_conf p, cl_disk (pn_client p)) of
        ((conf, d), err) \<Rightarrow>
          (err, p\<lparr>pn_client := (if cu_upstream u = None \<or> proxy_refused err then id else apply_upstream_proxy)
                     ((pn_client p)\<lparr>cl_conf := conf, cl_disk := d\<rparr>),
                  pn_world := (pn_world p)\<lparr>wd_listen := socks_listen conf,
                     wd_mgr := (wd_mgr (pn_world p))\<lparr>mg_server_id := vpn_server_id conf\<rparr>\<rparr>\<rparr>))"

definition handle_config :: "panel_env \<Rightarrow> panel_request \<Rightarrow> panel \<Rightarrow> handled \<times> panel" where
  "handle_config env rq p =
     (if pr_method rq = ''GET'' then (Done (write_json 200 (PConfig (config_view_of (panel_conf p)))), p)
      else if pr_method rq = ''PUT'' \<or> pr_method rq = ''POST'' then
        (case decode_update (pr_body rq) of (u, err) \<Rightarrow>
           if err then (Done (write_err 400 ''invalid config body''), p)
           else case panel_update_config env u p of
               (Some e, p') \<Rightarrow> (Done (write_err 500 (pe_config_text env e)), p')
             | (None, p') \<Rightarrow> (Done write_ok, p'))
      else (Done (write_err 405 ''GET or PUT required''), p))"

section \<open>After the manager\<close>

text \<open>What follows once the operation has returned, with the text of its error. The remote part of
  \<open>Manager.Logout\<close> belongs to it: the request to the server and the code that is dropped.\<close>

definition logout_client :: "panel_env \<Rightarrow> client \<Rightarrow> client" where
  "logout_client env c =
     (let c1 = fst (logout (pe_client env) c)
      in fst (save_conf (pe_client env) (c1\<lparr>cl_conf := (cl_conf c1)\<lparr>otp_code := []\<rparr>\<rparr>)))"

definition finish_connect :: "string option \<Rightarrow> conn_state \<Rightarrow> panel_response" where
  "finish_connect err st =
     (case err of
        None \<Rightarrow> write_json 200 (PState st)
      | Some e \<Rightarrow> if e = ''otp required'' then write_json 200 (PNeedOtp st) else write_err 502 e)"

definition finish_disconnect :: "string option \<Rightarrow> conn_state \<Rightarrow> panel_response" where
  "finish_disconnect err st = (case err of None \<Rightarrow> write_json 200 (PState st) | Some e \<Rightarrow> write_err 500 e)"

definition finish_wait :: "panel_env \<Rightarrow> wait \<Rightarrow> string option \<Rightarrow> panel \<Rightarrow> panel_response \<times> panel" where
  "finish_wait env wt err p =
     (let st = mg_state (wd_mgr (pn_world p)) in
      case wt of
        AwaitConnect \<Rightarrow> (finish_connect err st, p)
      | AwaitDisconnect \<Rightarrow> (finish_disconnect err st, p)
      | AwaitLogout \<Rightarrow> (write_ok, p\<lparr>pn_client := logout_client env (pn_client (sync_conf p))\<rparr>))"

section \<open>Routing\<close>

text \<open>The static pages: an existing file, else the index page.\<close>

definition serve_index :: "panel_env \<Rightarrow> panel_response" where
  "serve_index env = (if ''index.html'' \<in> pe_files env then write_json 200 PIndex else write_json 404 PNoFrontend)"

definition serve_spa :: "panel_env \<Rightarrow> panel_request \<Rightarrow> panel_response" where
  "serve_spa env rq =
     (let upath0 = trim_prefix (pr_path rq) ''/''; upath = (if upath0 = [] then ''index.html'' else upath0)
      in if upath \<in> pe_files env then write_json 200 (PPage upath) else serve_index env)"

definition guarded_routes :: "(string \<times> (panel_env \<Rightarrow> panel_request \<Rightarrow> panel \<Rightarrow> handled \<times> panel)) list" where
  "guarded_routes =
     [(''/api/state'', handle_state), (''/api/company'', handle_company), (''/api/login/methods'', handle_login_methods),
      (''/api/login/password'', handle_login_password), (''/api/login/email/request'', handle_email_request),
      (''/api/login/email/verify'', handle_email_verify), (''/api/login/tps/check'', handle_tps_check),
      (''/api/connect'', handle_connect_api), (''/api/disconnect'', handle_disconnect), (''/api/servers'', handle_servers),
      (''/api/traffic'', handle_traffic), (''/api/logout'', handle_logout), (''/api/config'', handle_config)]"

definition routes :: "(string \<times> (panel_env \<Rightarrow> panel_request \<Rightarrow> panel \<Rightarrow> handled \<times> panel)) list" where
  "routes =
     map (\<lambda>(path, h). (path, require_admin h)) guarded_routes @
     [(''/api/admin/auth'', handle_admin_auth), (''/api/admin/login'', handle_admin_login),
      (''/api/admin/logout'', \<lambda>env. handle_admin_logout)]"

definition serve_panel :: "panel_env \<Rightarrow> panel_request \<Rightarrow> panel \<Rightarrow> handled \<times> panel" where
  "serve_panel env rq p =
     (case map_of routes (pr_path rq) of
        Some h \<Rightarrow> h env rq (sync_conf p)
      | None \<Rightarrow> (Done (serve_spa env rq), sync_conf p))"

section \<open>What no handler touches\<close>

definition admin_fields :: "config \<Rightarrow> bool \<times> string \<times> string" where
  "admin_fields c = (admin_auth_enabled c, admin_username c, admin_password c)"

lemma panel_conf_fields: "admin_fields (panel_conf p) = admin_fields (cl_conf (pn_client p))"
  by (simp add: panel_conf_def admin_fields_def)

lemma sync_conf_frame [simp]: "pn_admin (sync_conf p) = pn_admin p" "pn_world (sync_conf p) = pn_world p"
  "panel_conf (sync_conf p) = panel_conf p" "panel_conf (p\<lparr>pn_admin := a\<rparr>) = panel_conf p"
  by (simp_all add: sync_conf_def panel_conf_def)

text \<open>The client keeps the admin settings and the upstream proxy: only logins, the company and updates write the
  configuration. And what it sends meanwhile goes through the proxy of its transport.\<close>

definition sent_via :: "client \<Rightarrow> client \<Rightarrow> bool" where
  "sent_via c c' = (\<exists>reqs. cl_log c' = cl_log c @ reqs \<and> (\<forall>r \<in> set reqs. rq_via r = cl_proxy c))"

definition fixed_fields :: "client \<Rightarrow> (bool \<times> string \<times> string) \<times> url option \<times> upstream_cfg option" where
  "fixed_fields c = (admin_fields (cl_conf c), cl_proxy c, upstream_parsed (cl_conf c))"

definition keeps_fields :: "client \<Rightarrow> client \<Rightarrow> bool" where
  "keeps_fields c c' = (fixed_fields c' = fixed_fields c \<and> sent_via c c')"

named_theorems keeps "operations of the client that keep the admin settings and the proxy"

lemma sent_via_same: "cl_log c' = cl_log c \<Longrightarrow> sent_via c c'"
  by (simp add: sent_via_def)

lemma sent_via_trans: "sent_via c c1 \<Longrightarrow> cl_proxy c1 = cl_proxy c \<Longrightarrow> sent_via c1 c2 \<Longrightarrow> sent_via c c2"
  by (fastforce simp: sent_via_def)

lemma keeps_refl [simp, intro]: "keeps_fields c c"
  by (simp add: keeps_fields_def sent_via_same)

lemma keeps_trans: "keeps_fields c c1 \<Longrightarrow> keeps_fields c1 c2 \<Longrightarrow> keeps_fields c c2"
  by (auto simp: keeps_fields_def fixed_fields_def intro: sent_via_trans)

lemma keeps_request [keeps]: "keeps_fields c (fst (request env a body zero dec c))"
  using request_frame(5) [of env a body zero dec c]
  by (auto simp: keeps_fields_def fixed_fields_def sent_via_def request_frame)

lemma keeps_same: "fixed_fields c' = fixed_fields c \<Longrightarrow> cl_log c' = cl_log c \<Longrightarrow> keeps_fields c c'"
  by (simp add: keeps_fields_def sent_via_same)

lemma keeps_save [keeps]: "keeps_fields c (fst (save_conf env c))"
  by (rule keeps_same) (auto simp: fixed_fields_def save_conf_def split: prod.splits option.splits)

lemma keeps_bind:
  assumes "keeps_fields c (fst r)" and "\<And>a c1. keeps_fields c1 (fst (f a c1))"
  shows "keeps_fields c (fst (bind_cl r f))"
  using assms keeps_trans by (auto simp: bind_cl_fst split: sum.splits)

lemma keeps_otp_uri [keeps]: "keeps_fields c (fst (request_otp_uri env c))"
  unfolding request_otp_uri_def by (rule keeps_bind [OF keeps_request]) auto

text \<open>A change of the configuration that keeps them may come first.\<close>

lemma keeps_first: "keeps_fields c1 c2 \<Longrightarrow> fixed_fields c1 = fixed_fields c \<Longrightarrow> cl_log c1 = cl_log c \<Longrightarrow> keeps_fields c c2"
  by (auto intro: keeps_trans keeps_same)

lemma keeps_conf:
  assumes "keeps_fields (c\<lparr>cl_conf := conf\<rparr>) c2"
    and "admin_fields conf = admin_fields (cl_conf c)" and "upstream_parsed conf = upstream_parsed (cl_conf c)"
  shows "keeps_fields c c2"
  by (rule keeps_first [OF assms(1)]) (simp_all add: fixed_fields_def assms(2,3))

lemma keeps_finalize [keeps]: "keeps_fields c (fst (finalize_login env c))"
proof -
  obtain c1 r where u: "request_otp_uri env c = (c1, r)" by fastforce
  then have k: "keeps_fields c c1" using keeps_otp_uri [of c env] by simp
  have "keeps_fields c1 (fst (save_conf env (c1\<lparr>cl_conf := (cl_conf c1)\<lparr>otp_code := s\<rparr>\<rparr>)))" for s
    by (rule keeps_conf [OF keeps_save]) (simp_all add: admin_fields_def)
  then show ?thesis
    using keeps_trans [OF k keeps_save] keeps_trans [OF k] u
    by (auto simp: finalize_login_def Let_def split: sum.splits)
qed

lemma keeps_login_v1 [keeps]: "keeps_fields c (fst (login_v1 env user pw c))"
  by (auto simp: login_v1_def Let_def intro!: keeps_bind keeps)

lemma keeps_login_password [keeps]: "keeps_fields c (fst (login_with_password env user pw plat c))"
proof -
  have f: "admin_fields ((cl_conf c)\<lparr>username := user, platform := pl\<rparr>) = admin_fields (cl_conf c)"
    "upstream_parsed ((cl_conf c)\<lparr>username := user, platform := pl\<rparr>) = upstream_parsed (cl_conf c)" for pl
    by (simp_all add: admin_fields_def)
  show ?thesis
    unfolding login_with_password_def Let_def
    by (auto split: option.splits intro!: keeps_conf [OF _ f] keeps_bind keeps)
qed

lemma keeps_email_request [keeps]: "keeps_fields c (fst (request_email_code env user c))"
  unfolding request_email_code_def
  by (rule keeps_conf [where conf = "(cl_conf c)\<lparr>username := user\<rparr>"])
    (auto simp: admin_fields_def intro!: keeps_bind keeps)

lemma keeps_login_email [keeps]: "keeps_fields c (fst (login_with_email env user code c))"
  unfolding login_with_email_def
  by (rule keeps_conf [where conf = "(cl_conf c)\<lparr>username := user\<rparr>"])
    (auto simp: admin_fields_def intro!: keeps_bind keeps)

lemma keeps_tps [keeps]: "keeps_fields c (fst (check_tps_token env token c))"
  unfolding check_tps_token_def by (rule keeps_bind [OF keeps_request]) auto

lemma keeps_methods [keeps]: "keeps_fields c (fst (get_login_methods env c))"
proof -
  have "keeps_fields c1 (fst (case request env TpsLoginMethod None [] dec_tpss c1 of
      (c2, Inl _) \<Rightarrow> (c2, Inr (lm, [])) | (c2, Inr (_, tps)) \<Rightarrow> (c2, Inr (lm, tps))))" for c1 and lm :: login_method
  proof -
    obtain c2 r where q: "request env TpsLoginMethod None [] dec_tpss c1 = (c2, r)" by fastforce
    then show ?thesis using keeps_request [of c1 env TpsLoginMethod None "[]" dec_tpss] by (cases r) auto
  qed
  then show ?thesis unfolding get_login_methods_def by (auto intro!: keeps_bind keeps_request split: prod.split)
qed

lemma keeps_list [keeps]: "keeps_fields c (fst (list_vpn env c))"
  unfolding list_vpn_def by (rule keeps_bind [OF keeps_request]) auto

lemma keeps_base: "keeps_fields c (fst (set_vpn_base ip port c))"
  by (rule keeps_same) (auto simp: fixed_fields_def set_vpn_base_def split: option.splits)

lemma keeps_ping: "keeps_fields c (fst (ping_node env ip port c))"
  unfolding ping_node_def Let_def by (auto intro!: keeps_bind keeps_base keeps_request)

lemma keeps_probe [keeps]: "keeps_fields c (fst (probe_all env is vpns c))"
proof (induction "is" arbitrary: vpns c)
  case (Cons i "is")
  obtain c1 r where p: "ping_node env (vi_ip (vpns ! i)) (vi_api_port (vpns ! i)) c = (c1, r)" by fastforce
  then have "keeps_fields c c1" using keeps_ping by (metis fst_conv)
  then show ?case using Cons.IH keeps_trans by (auto simp: p)
qed simp

lemma keeps_seed: "keeps_fields c (seed_device_cookies c)"
  by (rule keeps_same) (auto simp: fixed_fields_def seed_device_cookies_def Let_def split: option.split)

lemma keeps_company [keeps]: "keeps_fields c (fst (set_company env code b c))"
proof -
  have k: "keeps_fields c (set_server d (c\<lparr>cl_conf := (cl_conf c)\<lparr>company_name := code\<rparr>\<rparr>))" for d
    unfolding set_server_def
    by (rule keeps_conf [OF keeps_conf [OF keeps_seed]]) (simp_all add: admin_fields_def)
  have "keeps_fields c (fst (save_conf env (set_server d (c\<lparr>cl_conf := (cl_conf c)\<lparr>company_name := code\<rparr>\<rparr>))))" for d
    by (rule keeps_trans [OF k keeps_save])
  then show ?thesis
    by (auto simp: set_company_def Let_def split: sum.splits prod.splits) (metis fst_conv)+
qed

lemma keeps_logout [keeps]: "keeps_fields c (logout_client env c)"
proof -
  obtain c1 r where q: "request (pe_client env) api.Logout None () dec_ignore c = (c1, r)" by fastforce
  then have k: "keeps_fields c c1" using keeps_request by (metis fst_conv)
  have "keeps_fields c1 (c1\<lparr>cl_jar := jar_clear (cl_jar c1)\<rparr>)" by (rule keeps_same) (simp_all add: fixed_fields_def)
  moreover have "keeps_fields (c1\<lparr>cl_jar := jar_clear (cl_jar c1)\<rparr>)
      (fst (save_conf (pe_client env) (c1\<lparr>cl_jar := jar_clear (cl_jar c1), cl_conf := (cl_conf c1)\<lparr>otp_code := []\<rparr>\<rparr>)))"
    by (rule keeps_conf [OF keeps_save]) (simp_all add: admin_fields_def)
  ultimately show ?thesis
    using keeps_trans [OF k keeps_trans] by (simp add: logout_client_def logout_def q Let_def)
qed

lemma apply_update_fixed: "admin_fields (apply_update u c) = admin_fields c"
  "upstream_parsed (apply_update u c) = upstream_parsed c"
  by (simp_all add: apply_update_def admin_fields_def Let_def split: option.splits)

lemma update_config_admin: "update_config f u (c, d) = ((c', d'), r) \<Longrightarrow> admin_fields c' = admin_fields c"
  using apply_update_fixed(1) [of u c]
  by (auto simp: update_config_def set_upstream_proxy_def Let_def admin_fields_def
      split: if_splits sum.splits prod.splits)

text \<open>The proxy in use changes only with a proxy setting that parses.\<close>

lemma update_config_proxy:
  assumes "update_config f u (c, d) = ((c', d'), r)" and "cu_upstream u = None \<or> proxy_refused r"
  shows "upstream_parsed c' = upstream_parsed c"
proof -
  have "\<not> proxy_refused (snd (save f x d))" for x
    by (simp add: save_def proxy_refused_def Let_def split: save_fault.split)
  then show ?thesis
    using assms apply_update_fixed(2) [of u c]
    by (auto simp: update_config_def set_upstream_proxy_def Let_def split: if_splits sum.splits prod.splits)
      (metis snd_conv)+
qed

section \<open>The contract of a handler\<close>

text \<open>A handler behind the gate leaves the session tracker and the admin settings alone, the transport of
  the client stays the one of the configuration, and what it sends goes through it; then the gate in
  front of it does exactly one check, and nothing else on a request it refuses.\<close>

definition proxy_set :: "client \<Rightarrow> bool" where
  "proxy_set c = (cl_proxy c = proxy_url (upstream_parsed (cl_conf c)))"

definition handler_keeps :: "client \<Rightarrow> client \<Rightarrow> bool" where
  "handler_keeps c c' =
     (admin_fields (cl_conf c') = admin_fields (cl_conf c) \<and> (proxy_set c \<longrightarrow> proxy_set c') \<and> sent_via c c')"

lemma keeps_handler: "keeps_fields c c' \<Longrightarrow> handler_keeps c c'"
  by (auto simp: keeps_fields_def fixed_fields_def handler_keeps_def proxy_set_def)

lemma handler_keeps_refl [simp]: "handler_keeps c c"
  by (simp add: keeps_handler)

locale panel_handler =
  fixes h :: "panel_env \<Rightarrow> panel_request \<Rightarrow> panel \<Rightarrow> handled \<times> panel"
  assumes keeps_tracker: "pn_admin (snd (h env rq p)) = pn_admin p"
    and keeps_settings: "handler_keeps (pn_client p) (pn_client (snd (h env rq p)))"
begin

lemma guarded_settings: "handler_keeps (pn_client p) (pn_client (snd (require_admin h env rq p)))"
  using keeps_settings [of "p\<lparr>pn_admin := a\<rparr>" for a]
  by (simp add: require_admin_def keeps_settings Let_def split: prod.split option.split)

lemma guarded_tracker:
  "pn_admin (snd (require_admin h env rq p)) =
     (if admin_auth_enabled (panel_conf p)
      then snd (check_session (panel_conf p) (pe_now env) (case admin_cookie rq of None \<Rightarrow> [] | Some t \<Rightarrow> t) (pn_admin p))
      else pn_admin p)"
  by (simp add: require_admin_def keeps_tracker Let_def split: prod.split)

lemma guarded_refused:
  assumes "admin_auth_enabled (panel_conf p)"
    and "\<not> fst (check_session (panel_conf p) (pe_now env) (case admin_cookie rq of None \<Rightarrow> [] | Some t \<Rightarrow> t) (pn_admin p))"
  shows "\<exists>a. require_admin h env rq p = (Done (write_err 401 ''admin authentication required''), p\<lparr>pn_admin := a\<rparr>)"
  using assms by (auto simp: require_admin_def Let_def split: prod.splits)

end

lemmas handler_defs = not_allowed_def login_result_def manager_servers_def panel_update_config_def

lemma fst_eqD: "r = (c, x) \<Longrightarrow> keeps_fields c0 (fst r) \<Longrightarrow> handler_keeps c0 c"
  by (simp add: keeps_handler)

interpretation h_state: panel_handler handle_state
  by unfold_locales (auto simp: handle_state_def)

interpretation h_company: panel_handler handle_company
  by unfold_locales
    (auto simp: handle_company_def not_allowed_def split: prod.split sum.split intro: fst_eqD keeps_company)

interpretation h_methods: panel_handler handle_login_methods
  by unfold_locales
    (auto simp: handle_login_methods_def split: prod.split sum.split intro: fst_eqD keeps_methods)

interpretation h_password: panel_handler handle_login_password
  by unfold_locales
    (auto simp: handle_login_password_def not_allowed_def login_result_def split: prod.split sum.split
       intro: fst_eqD keeps_login_password)

interpretation h_email_request: panel_handler handle_email_request
  by unfold_locales
    (auto simp: handle_email_request_def not_allowed_def split: prod.split sum.split intro: fst_eqD keeps_email_request)

interpretation h_email_verify: panel_handler handle_email_verify
  by unfold_locales
    (auto simp: handle_email_verify_def not_allowed_def login_result_def split: prod.split sum.split
       intro: fst_eqD keeps_login_email)

interpretation h_tps: panel_handler handle_tps_check
  by unfold_locales
    (auto simp: handle_tps_check_def Let_def split: prod.split sum.split intro: fst_eqD keeps_tps)

interpretation h_connect: panel_handler handle_connect_api
  by unfold_locales (auto simp: handle_connect_api_def not_allowed_def Let_def)

interpretation h_disconnect: panel_handler handle_disconnect
  by unfold_locales (auto simp: handle_disconnect_def not_allowed_def)

lemma manager_servers_frame: "manager_servers env probe p = (r, p') \<Longrightarrow>
    pn_admin p' = pn_admin p \<and> keeps_fields (pn_client p) (pn_client p')"
proof -
  assume m: "manager_servers env probe p = (r, p')"
  obtain c1 r1 where l: "list_vpn (pe_client env) (pn_client p) = (c1, r1)" by fastforce
  then have k: "keeps_fields (pn_client p) c1" using keeps_list by (metis fst_conv)
  have "keeps_fields (pn_client p) c2" if "probe_all (pe_client env) (pe_probes env) vs c1 = (c2, vs2)" for vs c2 vs2
    using keeps_trans [OF k] keeps_probe that by (metis fst_conv)
  then show ?thesis
    using m l k by (auto simp: manager_servers_def split: prod.splits sum.splits if_splits)
qed

interpretation h_servers: panel_handler handle_servers
  by unfold_locales
    (use manager_servers_frame keeps_handler in \<open>auto simp: handle_servers_def split: prod.split sum.split\<close>)

interpretation h_traffic: panel_handler handle_traffic
  by unfold_locales (auto simp: handle_traffic_def)

interpretation h_logout: panel_handler handle_logout
  by unfold_locales (auto simp: handle_logout_def not_allowed_def)

lemma panel_update_frame:
  assumes "panel_update_config env u p = (r, p')"
  shows "pn_admin p' = pn_admin p \<and> handler_keeps (pn_client p) (pn_client p')"
proof -
  obtain conf d err where u: "update_config (pe_save env) u (panel_conf p, cl_disk (pn_client p)) = ((conf, d), err)"
    by (metis prod.exhaust)
  then have a: "admin_fields conf = admin_fields (cl_conf (pn_client p))"
    using update_config_admin panel_conf_fields by simp
  have "upstream_parsed (panel_conf p) = upstream_parsed (cl_conf (pn_client p))" by (simp add: panel_conf_def)
  with update_config_proxy [OF u] have "cu_upstream u = None \<or> proxy_refused err \<Longrightarrow>
      upstream_parsed conf = upstream_parsed (cl_conf (pn_client p))"
    by simp
  then show ?thesis
    using assms u a
    by (auto simp: panel_update_config_def handler_keeps_def proxy_set_def sent_via_def apply_upstream_proxy_def)
qed

interpretation h_config: panel_handler handle_config
  by unfold_locales
    (use panel_update_frame in \<open>auto simp: handle_config_def split: prod.split option.split\<close>)

lemma guarded_handlers: "(path, h) \<in> set guarded_routes \<Longrightarrow> panel_handler h"
  unfolding guarded_routes_def
  using h_state.panel_handler_axioms h_company.panel_handler_axioms h_methods.panel_handler_axioms
    h_password.panel_handler_axioms h_email_request.panel_handler_axioms h_email_verify.panel_handler_axioms
    h_tps.panel_handler_axioms h_connect.panel_handler_axioms h_disconnect.panel_handler_axioms
    h_servers.panel_handler_axioms h_traffic.panel_handler_axioms h_logout.panel_handler_axioms
    h_config.panel_handler_axioms
  by auto

section \<open>Histories of requests\<close>

text \<open>What a request asks of the session tracker.\<close>

definition admin_events :: "panel_env \<Rightarrow> panel_request \<Rightarrow> panel \<Rightarrow> admin_event list" where
  "admin_events env rq p =
     (let en = admin_auth_enabled (panel_conf p); ck = admin_cookie rq in
      if pr_path rq \<in> fst ` set guarded_routes
      then (if en then [Check (pe_now env) (case ck of None \<Rightarrow> [] | Some t \<Rightarrow> t)] else [])
      else if pr_path rq = ''/api/admin/auth''
      then (case ck of Some t \<Rightarrow> if en then [Check (pe_now env) t] else [] | None \<Rightarrow> [])
      else if pr_path rq = ''/api/admin/login''
      then (case decode_strings (pr_body rq) [''username'', ''password''] of (vs, err) \<Rightarrow>
              if is_post rq \<and> en \<and> \<not> err
              then [Login (pe_now env) (pe_rnd env) (client_ip rq) (vs ! 0) (vs ! 1)] else [])
      else if pr_path rq = ''/api/admin/logout''
      then (case ck of None \<Rightarrow> [] | Some t \<Rightarrow> [Logout t])
      else [])"

lemma admin_paths: "''/api/admin/auth'' \<notin> fst ` set guarded_routes" "''/api/admin/login'' \<notin> fst ` set guarded_routes"
  "''/api/admin/logout'' \<notin> fst ` set guarded_routes"
  by (simp_all add: guarded_routes_def)

lemma routes_cases:
  "map_of routes path =
     (if path \<in> fst ` set guarded_routes then map_option require_admin (map_of guarded_routes path)
      else if path = ''/api/admin/auth'' then Some handle_admin_auth
      else if path = ''/api/admin/login'' then Some handle_admin_login
      else if path = ''/api/admin/logout'' then Some (\<lambda>env. handle_admin_logout)
      else None)"
proof -
  have m: "map_of (map (\<lambda>(p, h). (p, require_admin h)) rs) path = map_option require_admin (map_of rs path)" for rs
    by (induction rs) auto
  have d: "path \<in> fst ` set guarded_routes \<longleftrightarrow> map_of guarded_routes path \<noteq> None"
    by (metis map_of_eq_None_iff)
  show ?thesis
    by (cases "map_of guarded_routes path") (simp_all add: d routes_def m map_add_def)
qed

lemma event_step_fields:
  "admin_fields c = admin_fields c' \<Longrightarrow> event_step c ord ev a = event_step c' ord ev a"
  by (simp add: admin_fields_def event_step_def admin_login_def check_session_def
      split: admin_event.split prod.split bool.split)

lemma check_session_fields:
  "admin_fields c = admin_fields c' \<Longrightarrow> check_session c now t a = check_session c' now t a"
  by (simp add: admin_fields_def check_session_def)

text \<open>A request changes the tracker by its events, and leaves the settings alone.\<close>

lemma serve_guarded:
  assumes "pr_path rq \<in> fst ` set guarded_routes"
  shows "\<exists>h. panel_handler h \<and> serve_panel env rq p = require_admin h env rq (sync_conf p)"
proof -
  obtain h where h: "map_of guarded_routes (pr_path rq) = Some h"
    using assms by (metis map_of_eq_None_iff not_None_eq)
  then show ?thesis
    using guarded_handlers [OF map_of_SomeD [OF h]] assms by (auto simp: serve_panel_def routes_cases)
qed

lemma serve_open:
  assumes "pr_path rq \<notin> fst ` set guarded_routes"
  shows "serve_panel env rq p =
    (if pr_path rq = ''/api/admin/auth'' then handle_admin_auth env rq (sync_conf p)
     else if pr_path rq = ''/api/admin/login'' then handle_admin_login env rq (sync_conf p)
     else if pr_path rq = ''/api/admin/logout'' then handle_admin_logout rq (sync_conf p)
     else (Done (serve_spa env rq), sync_conf p))"
  using assms by (simp add: serve_panel_def routes_cases)

lemma serve_panel_tracker:
  "pn_admin (snd (serve_panel env rq p)) = run_events (panel_conf p) (pe_ord env) (admin_events env rq p) (pn_admin p)"
proof (cases "pr_path rq \<in> fst ` set guarded_routes")
  case True
  from serve_guarded [OF this] obtain h where h: "panel_handler h"
    and s: "serve_panel env rq p = require_admin h env rq (sync_conf p)" by blast
  show ?thesis
    using True by (simp add: s panel_handler.guarded_tracker [OF h] admin_events_def event_step_def Let_def)
next
  case False
  have auth: "pn_admin (snd (handle_admin_auth env rq q)) = run_events (panel_conf q) (pe_ord env)
      (case admin_cookie rq of Some t \<Rightarrow> if admin_auth_enabled (panel_conf q) then [Check (pe_now env) t] else [] | None \<Rightarrow> []) (pn_admin q)" for q
    by (simp add: handle_admin_auth_def Let_def event_step_def split: option.split prod.split)
  have login: "pn_admin (snd (handle_admin_login env rq q)) = run_events (panel_conf q) (pe_ord env)
      (case decode_strings (pr_body rq) [''username'', ''password''] of (vs, err) \<Rightarrow>
         if is_post rq \<and> admin_auth_enabled (panel_conf q) \<and> \<not> err
         then [Login (pe_now env) (pe_rnd env) (client_ip rq) (vs ! 0) (vs ! 1)] else []) (pn_admin q)" for q
    by (simp add: handle_admin_login_def not_allowed_def event_step_def split: option.split prod.split)
  have logout: "pn_admin (snd (handle_admin_logout rq q)) = run_events (panel_conf q) (pe_ord env)
      (case admin_cookie rq of None \<Rightarrow> [] | Some t \<Rightarrow> [Logout t]) (pn_admin q)" for q
    by (simp add: handle_admin_logout_def event_step_def split: option.split)
  show ?thesis
    unfolding serve_open [OF False] admin_events_def Let_def
    using False auth [of "sync_conf p", unfolded sync_conf_frame] login [of "sync_conf p", unfolded sync_conf_frame]
      logout [of "sync_conf p", unfolded sync_conf_frame] by simp
qed

lemma keeps_sync: "keeps_fields (pn_client p) (pn_client (sync_conf p))"
  by (rule keeps_same) (simp_all add: fixed_fields_def sync_conf_def panel_conf_def admin_fields_def)

lemma handler_keeps_after: "keeps_fields c c1 \<Longrightarrow> handler_keeps c1 c2 \<Longrightarrow> handler_keeps c c2"
  by (auto simp: handler_keeps_def keeps_fields_def fixed_fields_def proxy_set_def intro: sent_via_trans)

lemma serve_panel_keeps: "handler_keeps (pn_client p) (pn_client (snd (serve_panel env rq p)))"
proof (rule handler_keeps_after [OF keeps_sync], cases "pr_path rq \<in> fst ` set guarded_routes")
  case True
  from serve_guarded [OF this] obtain h where h: "panel_handler h"
    and s: "serve_panel env rq p = require_admin h env rq (sync_conf p)" by blast
  show "handler_keeps (pn_client (sync_conf p)) (pn_client (snd (serve_panel env rq p)))"
    unfolding s by (rule panel_handler.guarded_settings [OF h])
next
  case False
  show "handler_keeps (pn_client (sync_conf p)) (pn_client (snd (serve_panel env rq p)))"
    unfolding serve_open [OF False]
    by (simp add: handle_admin_auth_def handle_admin_login_def handle_admin_logout_def not_allowed_def Let_def
        split: option.split prod.split)
qed

lemma serve_panel_settings: "admin_fields (panel_conf (snd (serve_panel env rq p))) = admin_fields (panel_conf p)"
  using serve_panel_keeps [of p env rq] by (simp add: panel_conf_fields handler_keeps_def)

text \<open>A panel after some history: requests served, waits finished, and whatever the goroutines of the manager
  and the client do in between (\<open>background\<close>), which only must not touch the tracker and its settings.\<close>

inductive panel_reach :: "config \<Rightarrow> (string list \<Rightarrow> string list) \<Rightarrow> admin_event list \<Rightarrow> panel \<Rightarrow> bool" for conf ord where
  fresh: "pn_admin p = new_admin_auth \<Longrightarrow> admin_fields (panel_conf p) = admin_fields conf \<Longrightarrow> panel_reach conf ord [] p"
| served: "panel_reach conf ord evs p \<Longrightarrow> pe_ord env = ord \<Longrightarrow> serve_panel env rq p = (r, p') \<Longrightarrow>
    panel_reach conf ord (evs @ admin_events env rq p) p'"
| finished: "panel_reach conf ord evs p \<Longrightarrow> finish_wait env wt err p = (r, p') \<Longrightarrow> panel_reach conf ord evs p'"
| background: "panel_reach conf ord evs p \<Longrightarrow> pn_admin p' = pn_admin p \<Longrightarrow>
    admin_fields (panel_conf p') = admin_fields (panel_conf p) \<Longrightarrow> panel_reach conf ord evs p'"

lemma finish_wait_keeps: "finish_wait env wt err p = (r, p') \<Longrightarrow> pn_admin p' = pn_admin p \<and> keeps_fields (pn_client p) (pn_client p')"
  using keeps_trans [OF keeps_sync keeps_logout] by (auto simp: finish_wait_def Let_def split: wait.splits)

lemma finish_wait_frame: "finish_wait env wt err p = (r, p') \<Longrightarrow>
    pn_admin p' = pn_admin p \<and> admin_fields (panel_conf p') = admin_fields (panel_conf p)"
  using finish_wait_keeps [of env wt err p r p'] by (simp add: panel_conf_fields keeps_fields_def fixed_fields_def)

lemma panel_reach_tracker:
  "panel_reach conf ord evs p \<Longrightarrow>
     pn_admin p = run_events conf ord evs new_admin_auth \<and> admin_fields (panel_conf p) = admin_fields conf"
proof (induction rule: panel_reach.induct)
  case (served evs p env rq r p')
  have same: "run_events (panel_conf p) ord es a = run_events conf ord es a" for es a
    using event_step_fields [of "panel_conf p" conf] served.IH by (simp add: run_events_def)
  show ?case
    using served.IH served.hyps serve_panel_tracker [of env rq p] serve_panel_settings [of env rq p]
    by (simp add: same)
next
  case (finished evs p env wt err r p')
  then show ?case using finish_wait_frame by metis
qed simp_all

section \<open>The gate over a history\<close>

text \<open>What anybody may see: the pages, the two flags of the gate, and its refusals.\<close>

definition discloses :: "payload \<Rightarrow> bool" where
  "discloses v =
     (case v of
        PError m \<Rightarrow> m \<notin> set [''admin authentication required'', ''POST required'', ''invalid body'', ''invalid credentials'']
      | POk \<Rightarrow> False | PAuth _ _ \<Rightarrow> False | PPage _ \<Rightarrow> False | PIndex \<Rightarrow> False | PNoFrontend \<Rightarrow> False
      | _ \<Rightarrow> True)"

text \<open>A request acts when it changes the client with its configuration or the manager, starts an operation of
  the manager, or is answered with more than that.\<close>

definition acts :: "panel \<Rightarrow> handled \<Rightarrow> panel \<Rightarrow> bool" where
  "acts p r p' = (pn_client p' \<noteq> pn_client (sync_conf p) \<or> pn_world p' \<noteq> pn_world p \<or>
     (case r of Waits _ _ \<Rightarrow> True | Done rsp \<Rightarrow> discloses (rs_payload rsp)))"

lemma open_routes_harmless:
  assumes "pr_path rq \<notin> fst ` set guarded_routes" and "serve_panel env rq p = (r, p')"
  shows "\<not> acts p r p'"
proof -
  have auth: "\<not> acts p (fst (handle_admin_auth env rq (sync_conf p))) (snd (handle_admin_auth env rq (sync_conf p)))"
    by (simp add: acts_def handle_admin_auth_def Let_def discloses_def write_json_def split: option.split prod.split)
  have login: "\<not> acts p (fst (handle_admin_login env rq (sync_conf p))) (snd (handle_admin_login env rq (sync_conf p)))"
    by (simp add: acts_def handle_admin_login_def not_allowed_def discloses_def write_ok_def write_err_def write_json_def
        split: option.split prod.split)
  have logout: "\<not> acts p (fst (handle_admin_logout rq (sync_conf p))) (snd (handle_admin_logout rq (sync_conf p)))"
    by (simp add: acts_def handle_admin_logout_def discloses_def write_ok_def write_json_def split: option.split)
  have spa: "\<not> acts p (Done (serve_spa env rq)) (sync_conf p)"
    by (simp add: acts_def discloses_def serve_spa_def serve_index_def write_json_def Let_def)
  show ?thesis
    using assms(2) auth login logout spa unfolding serve_open [OF assms(1)] by (auto split: if_splits)
qed

lemma refused_harmless: "\<not> acts p (Done (write_err 401 ''admin authentication required'')) ((sync_conf p)\<lparr>pn_admin := a\<rparr>)"
  by (simp add: acts_def discloses_def write_err_def write_json_def)

text \<open>A request that acts carries a token that the tracker knows and has not expired.\<close>

lemma acting_token:
  assumes reach: "panel_reach conf ord evs p" and on: "admin_auth_enabled conf"
    and served: "serve_panel env rq p = (r, p')" and acts: "acts p r p'"
  shows "\<exists>token e. admin_cookie rq = Some token \<and> \<not> e < pe_now env \<and>
    map_of (aa_sessions (run_events conf ord evs new_admin_auth)) token = Some e"
proof -
  have guarded: "pr_path rq \<in> fst ` set guarded_routes" using open_routes_harmless [OF _ served] acts by blast
  from serve_guarded [OF this] obtain h where h: "panel_handler h"
    and s: "serve_panel env rq p = require_admin h env rq (sync_conf p)" by blast
  from panel_reach_tracker [OF reach] have a: "pn_admin p = run_events conf ord evs new_admin_auth"
    and f: "admin_fields (panel_conf p) = admin_fields conf" by auto
  let ?token = "case admin_cookie rq of None \<Rightarrow> [] | Some t \<Rightarrow> t"
  have en: "admin_auth_enabled (panel_conf (sync_conf p))" using f on by (simp add: admin_fields_def)
  have "fst (check_session (panel_conf (sync_conf p)) (pe_now env) ?token (pn_admin (sync_conf p)))"
    using panel_handler.guarded_refused [OF h en] s served acts refused_harmless by fastforce
  then have "fst (check_session conf (pe_now env) ?token (pn_admin p))"
    using check_session_fields [OF f] by simp
  then obtain e where e: "map_of (aa_sessions (run_events conf ord evs new_admin_auth)) ?token = Some e"
      "\<not> e < pe_now env" and ne: "?token \<noteq> []"
    using on a by (auto simp: check_session_def split: option.splits if_splits)
  obtain token where "admin_cookie rq = Some token" "?token = token" using ne by (cases "admin_cookie rq") auto
  with e show ?thesis by auto
qed

text \<open>C2: With admin authentication on, nobody uses the panel without having logged in: over any history of
  requests and of background work, a request that changes the client, its configuration or the manager,
  starts a connect, disconnect or logout, or is answered with anything but the pages, the gate's own flags
  and its refusals, carries a session token that a login with the configured credentials was given at most
  twelve hours before, and that has not been logged out since.\<close>

theorem panel_gate:
  assumes "panel_reach conf ord evs p" and "admin_auth_enabled conf"
    and "serve_panel env rq p = (r, p')" and "acts p r p'"
  shows "\<exists>token pre t rnd client user pw post. admin_cookie rq = Some token \<and>
    evs = pre @ Login t rnd client user pw # post \<and>
    fst (admin_login conf ord t rnd client user pw (run_events conf ord pre new_admin_auth)) = Some token \<and>
    user = admin_username conf \<and> pw = admin_password conf \<and>
    pe_now env \<le> t + 12 * 3600 * second \<and> Logout token \<notin> set post"
proof -
  obtain token e where "admin_cookie rq = Some token" "\<not> e < pe_now env"
    "map_of (aa_sessions (run_events conf ord evs new_admin_auth)) token = Some e"
    using acting_token [OF assms] by blast
  with session_granted [OF this(3)] show ?thesis unfolding granted_def session_ttl_def by fastforce
qed

definition panel_sample_env :: "instant \<Rightarrow> panel_env" where
  "panel_sample_env now = \<lparr>pe_now = now, pe_rnd = ''k'', pe_ord = id, pe_client = demo_env, pe_company = None, pe_save = NoFault,
     pe_probes = [], pe_client_text = (\<lambda>_. []), pe_company_text = (\<lambda>_. []), pe_config_text = (\<lambda>_. []), pe_files = {}\<rparr>"

definition sample_panel :: panel where
  "sample_panel = \<lparr>pn_admin = new_admin_auth, pn_client = demo_client\<lparr>cl_conf := demo_admin\<rparr>,
     pn_world = new_world True ''a''\<rparr>"

definition sample_login :: panel_request where
  "sample_login = \<lparr>pr_method = ''POST'', pr_path = ''/api/admin/login'', pr_query = [], pr_cookies = [],
     pr_body = Some (Doc (JObj [(''username'', JStr ''root''), (''password'', JStr ''pw'')])), pr_remote = ''10.0.0.9:5555''\<rparr>"

definition sample_get :: panel_request where
  "sample_get = \<lparr>pr_method = ''GET'', pr_path = ''/api/state'', pr_query = [], pr_cookies = [(''corplink_admin'', ''6b'')],
     pr_body = Some BlankBody, pr_remote = ''10.0.0.9:5556''\<rparr>"

theorem panel_gate_witness:
  "\<exists>pre t rnd client user pw post. admin_events (panel_sample_env 1) sample_login sample_panel = pre @ Login t rnd client user pw # post \<and>
     user = ''root'' \<and> 5 \<le> t + 12 * 3600 * second"
proof -
  let ?e = "admin_events (panel_sample_env 1) sample_login sample_panel"
  obtain r1 p1 where p1: "serve_panel (panel_sample_env 1) sample_login sample_panel = (r1, p1)" by fastforce
  have "panel_reach demo_admin id [] sample_panel"
    by (rule fresh) (simp_all add: sample_panel_def panel_conf_def admin_fields_def)
  then have reach: "panel_reach demo_admin id ?e p1"
    using served [OF _ _ p1, of demo_admin id "[]"] by (simp add: panel_sample_env_def)
  obtain r2 p2 where p2: "serve_panel (panel_sample_env 5) sample_get p1 = (r2, p2)" by fastforce
  have code: "case fst (serve_panel (panel_sample_env 5) sample_get (snd (serve_panel (panel_sample_env 1) sample_login sample_panel))) of
      Waits _ _ \<Rightarrow> True | Done rsp \<Rightarrow> discloses (rs_payload rsp)"
    by code_simp
  then have act: "acts p1 r2 p2" using p1 p2 by (simp add: acts_def)
  have conf: "admin_auth_enabled demo_admin" "admin_username demo_admin = ''root''" by (simp_all add: demo_admin_def)
  show ?thesis
    using panel_gate [OF reach conf(1) p2 act] conf(2) by (fastforce simp: panel_sample_env_def)
qed

section \<open>Two effects of reading\<close>

text \<open>The list of servers is a GET, and its latency probes leave the client pointed at the last node probed: a
  keep-alive report of the running tunnel goes there from then on.\<close>

lemma probing_moves_base:
  assumes "node_base (server (cl_conf c)) ip port = Some b"
  shows "cl_base (fst (ping_node env ip port c)) = b"
proof -
  obtain u where "url_parse (server (cl_conf c)) = Some u"
    using assms by (auto simp: node_base_def split: option.splits)
  then show ?thesis
    using assms by (simp add: ping_node_def bind_cl_fst set_vpn_base_def request_frame Let_def split: sum.split prod.split)
qed

text \<open>The SSO check is a GET that logs the panel in, as whoever the token stands for.\<close>

lemma tps_check_logs_in:
  assumes "check_tps_token (pe_client env) token (pn_client p) = (c, Inr url)" and "token \<noteq> []"
    and "query_get rq ''token'' = token" and "mg_state (wd_mgr (pn_world p)) = LoggedOut"
  shows "mg_state (wd_mgr (pn_world (snd (handle_tps_check env rq p)))) = LoggedIn"
  using assms by (simp add: handle_tps_check_def set_logged_in_def)

end
