(* ===== verification/Program.thy ===== *)
theory Program
  imports Panel Netstack ProxyState
begin

text \<open>
  The ends of the program: the listener of the mixed proxy (\<open>ListenAndServe\<close>, \<open>Addr\<close>, \<open>Close\<close>,
  \<open>acceptLoop\<close>, and the dispatch by the first byte in \<open>handle\<close>, all of \<open>corplink/proxy.go\<close>), and the
  command itself (\<open>cmd/corplink-web/main.go\<close>): its arguments, the stages of its start with their errors,
  the warning about an open panel, and its shutdown. Socket options are not modelled.
\<close>

section \<open>The listener of the proxy\<close>

text \<open>The address it really listens on, whether \<open>closed\<close> is closed, how often the socket was closed, and the
  connections a goroutine was started for.\<close>

record mixed_listener =
  ml_ln :: "string option"
  ml_closed :: bool
  ml_ln_closes :: nat
  ml_handled :: "nat list"

definition new_listener :: mixed_listener where
  "new_listener = \<lparr>ml_ln = None, ml_closed = False, ml_ln_closes = 0, ml_handled = []\<rparr>"

definition listen_and_serve :: "(string \<Rightarrow> 'e + string) \<Rightarrow> string \<Rightarrow> mixed_listener \<Rightarrow> 'e option \<times> mixed_listener" where
  "listen_and_serve net_listen a l =
     (case net_listen a of Inl e \<Rightarrow> (Some e, l) | Inr actual \<Rightarrow> (None, l\<lparr>ml_ln := Some actual\<rparr>))"

definition listener_addr :: "mixed_listener \<Rightarrow> string" where
  "listener_addr l = (case ml_ln l of None \<Rightarrow> [] | Some a \<Rightarrow> a)"

definition listener_close :: "mixed_listener \<Rightarrow> mixed_listener" where
  "listener_close l =
     (if ml_closed l then l
      else l\<lparr>ml_closed := True, ml_ln_closes := (if ml_ln l = None then ml_ln_closes l else Suc (ml_ln_closes l))\<rparr>)"

text \<open>One turn of the accept loop: a connection, or an error; \<open>False\<close> when the loop returns.\<close>

definition accept_turn :: "nat option \<Rightarrow> mixed_listener \<Rightarrow> bool \<times> mixed_listener" where
  "accept_turn r l =
     (case r of
        None \<Rightarrow> (\<not> ml_closed l, l)
      | Some c \<Rightarrow> (True, l\<lparr>ml_handled := ml_handled l @ [c]\<rparr>))"

text \<open>The loop over what \<open>Accept\<close> returns; in between others may close the listener.\<close>

fun accept_loop :: "(nat option \<times> bool) list \<Rightarrow> mixed_listener \<Rightarrow> bool \<times> mixed_listener" where
  "accept_loop [] l = (True, l)"
| "accept_loop ((r, closing) # rs) l =
     (case accept_turn r (if closing then listener_close l else l) of
        (True, l') \<Rightarrow> accept_loop rs l'
      | (False, l') \<Rightarrow> (False, l'))"

text \<open>The dispatch: the first byte decides, and the handler reads it again; no byte, no handler.\<close>

definition handle_client :: "(bytes \<Rightarrow> 'a) \<Rightarrow> (bytes \<Rightarrow> 'a) \<Rightarrow> bytes \<Rightarrow> 'a option" where
  "handle_client socks http s =
     (case s of [] \<Rightarrow> None | first # _ \<Rightarrow> if byte first = 5 then Some (socks s) else Some (http s))"

lemma close_idempotent: "listener_close (listener_close l) = listener_close l"
  by (simp add: listener_close_def)

lemma accept_turn_frame: "ml_closed (snd (accept_turn r l)) = ml_closed l"
  by (simp add: accept_turn_def split: option.split)

text \<open>The loop returns only on a closed listener, and then at the first error; until then it goes on, whatever
  errors \<open>Accept\<close> returns, without a pause.\<close>

lemma accept_loop_stops:
  "accept_loop rs l = (False, l') \<Longrightarrow> ml_closed l'"
proof (induction rs l rule: accept_loop.induct)
  case (2 r closing rs l)
  let ?m = "if closing then listener_close l else l"
  obtain b m where t: "accept_turn r ?m = (b, m)" by fastforce
  show ?case
  proof (cases b)
    case True
    then show ?thesis using 2 t by simp
  next
    case False
    then show ?thesis using "2.prems" t by (auto simp: accept_turn_def split: option.splits)
  qed
qed simp

lemma accept_loop_spins:
  "\<not> ml_closed l \<Longrightarrow> accept_loop (replicate n (None, False)) l = (True, l)"
  by (induction n) (simp_all add: accept_turn_def)

text \<open>A SOCKS5 client is one whose first byte is the version that the handshake demands.\<close>

lemma handle_client_socks: "handle_client socks http s = Some r \<Longrightarrow> s \<noteq> [] \<and> (r = socks s \<or> r = http s)"
  by (auto simp: handle_client_def split: list.splits if_splits)

section \<open>The command\<close>

definition default_listen :: string where "default_listen = ''127.0.0.1:6151''"

definition config_path_of :: "string list \<Rightarrow> string" where
  "config_path_of args = (case args of [] \<Rightarrow> ''config.json'' | a # _ \<Rightarrow> a)"

definition listen_is_all_interfaces :: "string \<Rightarrow> bool" where
  "listen_is_all_interfaces listen =
     (let host = (case split_host_port listen of Some (h, _) \<Rightarrow> h | None \<Rightarrow> listen)
      in host = ''0.0.0.0'' \<or> host = ''::'' \<or> host = [])"

text \<open>What the command does, in order; the manager is disconnected before the server shuts down.\<close>

datatype run_event = Listening string | OpenPanelWarning | Interrupted | ManagerDisconnect | ServerShutdown

text \<open>The panel that serves: the loaded configuration, a new manager, an empty session tracker.\<close>

definition new_panel :: "config \<Rightarrow> stored_cookie list option \<Rightarrow> disk \<Rightarrow> panel" where
  "new_panel conf cookies d =
     \<lparr>pn_admin = new_admin_auth, pn_client = new_client conf cookies d,
      pn_world = (let w = new_world (server conf \<noteq> []) (socks_listen conf)
                  in w\<lparr>wd_mgr := (wd_mgr w)\<lparr>mg_server_id := vpn_server_id conf\<rparr>\<rparr>)\<rparr>"

text \<open>\<open>run\<close>: the error of a stage, or the panel that serves and what happens until the end. Making the manager
  never fails, whatever the cookie file holds.\<close>

datatype run_err = RunConfig config_err | RunServer

definition run_program ::
  "crypto_env \<Rightarrow> save_fault \<Rightarrow> stored_cookie list option \<Rightarrow> bool \<Rightarrow> string \<Rightarrow> string \<Rightarrow> disk \<Rightarrow>
     run_err + panel \<times> run_event list" where
  "run_program env fault cookies spa_ok listen path d =
     (case load_config env fault path d of
        (_, Inl e) \<Rightarrow> Inl (RunConfig e)
      | (d', Inr conf) \<Rightarrow>
          if \<not> spa_ok then Inl RunServer
          else Inr (new_panel conf cookies d',
             Listening listen # (if listen_is_all_interfaces listen then [OpenPanelWarning] else []) @
             [Interrupted, ManagerDisconnect, ServerShutdown]))"

text \<open>The panel starts with nobody logged in.\<close>

lemma run_program_reach:
  assumes "run_program env fault cookies spa_ok listen path d = Inr (p, evs)"
  shows "\<exists>conf. panel_reach conf ord [] p"
proof -
  obtain conf d' where "p = new_panel conf cookies d'"
    using assms by (auto simp: run_program_def split: prod.splits sum.splits if_splits)
  then have "pn_admin p = new_admin_auth" by (simp add: new_panel_def)
  then show ?thesis using fresh [of p "panel_conf p"] by blast
qed

lemma panel_warning:
  "run_program env fault cookies spa_ok listen path d = Inr (p, evs) \<Longrightarrow>
     OpenPanelWarning \<in> set evs \<longleftrightarrow> listen_is_all_interfaces listen"
  by (auto simp: run_program_def split: prod.splits sum.splits if_splits)

end
