(* ===== verification/Control.thy ===== *)
theory Control
  imports Program Continuity
begin

text \<open>
  The control path of the whole program as one transition system: \<open>run\<close> starts it (theory Program),
  requests reach the handlers of the panel, a handler that waits hands its operation to the goroutines
  of the manager, these step in any interleaving, and the interrupt disconnects.
\<close>

section \<open>The state of the program\<close>

text \<open>The panel with its tracker, client and manager; the goroutines of the manager; the handlers that
  wait for one of them; and what the session tracker was asked so far.\<close>

record sys =
  sy_panel :: panel
  sy_tasks :: "task list"
  sy_waits :: "wait list"
  sy_events :: "admin_event list"

definition boot :: "panel \<Rightarrow> sys" where
  "boot p = \<lparr>sy_panel = p, sy_tasks = [], sy_waits = [], sy_events = []\<rparr>"

abbreviation sy_world :: "sys \<Rightarrow> world" where
  "sy_world s \<equiv> pn_world (sy_panel s)"

text \<open>The goroutines that call the client: a connect saves the configuration, a tunnel is built from its
  answers, and reports are sent. None of them writes the admin settings.\<close>

definition uses_client :: "task \<Rightarrow> bool" where
  "uses_client t =
     (case t of
        StartConnect _ _ \<Rightarrow> True | Build _ \<Rightarrow> True | Commit _ _ _ \<Rightarrow> True | ReportOff _ \<Rightarrow> True | Reporter _ \<Rightarrow> True
      | RefreshBuild _ _ \<Rightarrow> True | RefreshCommit _ _ \<Rightarrow> True | Drain _ _ \<Rightarrow> True | _ \<Rightarrow> False)"

definition client_moves :: "task \<Rightarrow> client \<Rightarrow> client \<Rightarrow> bool" where
  "client_moves t c c' = (if uses_client t then keeps_fields c c' else c' = c)"

text \<open>A step of the program. Requests arrive at any time, also while others wait; \<open>listen\<close> restricts the
  listen addresses that are configured.\<close>

inductive sys_step :: "(string \<Rightarrow> bool) \<Rightarrow> (string list \<Rightarrow> string list) \<Rightarrow> sys \<Rightarrow> sys \<Rightarrow> bool" for listen ord where
  answered: "serve_panel env rq (sy_panel s) = (Done rsp, p) \<Longrightarrow> pe_ord env = ord \<Longrightarrow> listen (wd_listen (pn_world p)) \<Longrightarrow>
    sys_step listen ord s (s\<lparr>sy_panel := p, sy_events := sy_events s @ admin_events env rq (sy_panel s)\<rparr>)"
| started: "serve_panel env rq (sy_panel s) = (Waits t wt, p) \<Longrightarrow> pe_ord env = ord \<Longrightarrow>
    sys_step listen ord s (s\<lparr>sy_panel := p, sy_tasks := sy_tasks s @ [t], sy_waits := wt # sy_waits s,
      sy_events := sy_events s @ admin_events env rq (sy_panel s)\<rparr>)"
| returned: "wt \<in> set (sy_waits s) \<Longrightarrow> finish_wait env wt err (sy_panel s) = (rsp, p) \<Longrightarrow>
    sys_step listen ord s (s\<lparr>sy_panel := p, sy_waits := remove1 wt (sy_waits s)\<rparr>)"
| stepped: "sy_tasks s = xs @ t # ys \<Longrightarrow> run_task ch t (sy_world s) = (us, w) \<Longrightarrow>
    client_moves t (pn_client (sy_panel s)) c \<Longrightarrow>
    sys_step listen ord s (s\<lparr>sy_panel := (sy_panel s)\<lparr>pn_world := w, pn_client := c\<rparr>, sy_tasks := xs @ us @ ys\<rparr>)"
| interrupted: "sys_step listen ord s (s\<lparr>sy_tasks := sy_tasks s @ [StartDisconnect]\<rparr>)"

inductive sys_reach :: "(string \<Rightarrow> bool) \<Rightarrow> (string list \<Rightarrow> string list) \<Rightarrow> panel \<Rightarrow> sys \<Rightarrow> bool" for listen ord p0 where
  booted: "listen (wd_listen (pn_world p0)) \<Longrightarrow> sys_reach listen ord p0 (boot p0)"
| running: "sys_reach listen ord p0 s \<Longrightarrow> sys_step listen ord s s' \<Longrightarrow> sys_reach listen ord p0 s'"

inductive_cases sys_stepE: "sys_step listen ord s s'"

lemma sys_reach_steps:
  "sys_reach listen ord p0 s \<Longrightarrow> listen (wd_listen (pn_world p0)) \<and> (sys_step listen ord)\<^sup>*\<^sup>* (boot p0) s"
  by (induction rule: sys_reach.induct) auto

text \<open>What every step keeps holds in every state that the program reaches.\<close>

lemma started_at: "run_program env fault cookies spa_ok addr path d = Inr (p, out) \<Longrightarrow>
    \<exists>conf d'. p = new_panel conf cookies d'"
  by (auto simp: run_program_def split: prod.splits sum.splits if_splits)

section \<open>What a handler does to the manager\<close>

text \<open>A handler leaves the tunnels, the proxies and the loops to the goroutines: at once it changes only the
  state, its error, the pinned node and the configured address, and what it starts is one of the operations
  that may start at any time.\<close>

definition tunnels_kept :: "world \<Rightarrow> world \<Rightarrow> bool" where
  "tunnels_kept w w' =
     (same_core w (w'\<lparr>wd_listen := wd_listen w\<rparr>) \<and>
      (mg_state (wd_mgr w') = Connected \<longrightarrow> mg_state (wd_mgr w) = Connected))"

lemma tunnels_kept_simps [simp]: "tunnels_kept w w" "tunnels_kept w (set_state LoggedOut e w)" "tunnels_kept w (set_logged_in w)"
  "tunnels_kept w (w\<lparr>wd_listen := a, wd_mgr := (wd_mgr w)\<lparr>mg_server_id := i\<rparr>\<rparr>)"
  by (simp_all add: tunnels_kept_def same_core_def set_state_def set_logged_in_def)

locale tunnel_handler = panel_handler +
  assumes keeps_tunnels: "tunnels_kept (pn_world p) (pn_world (snd (h env rq p)))"
    and starts: "fst (h env rq p) = Waits t wt \<Longrightarrow> pn_world (snd (h env rq p)) = pn_world p \<and> external (\<lambda>_. False) t"
begin

lemma guarded_tunnels: "tunnels_kept (pn_world p) (pn_world (snd (require_admin h env rq p)))"
  using keeps_tunnels [of "p\<lparr>pn_admin := a\<rparr>" for a] by (simp add: require_admin_def keeps_tunnels Let_def split: prod.split)

lemma guarded_starts:
  "fst (require_admin h env rq p) = Waits t wt \<Longrightarrow>
     pn_world (snd (require_admin h env rq p)) = pn_world p \<and> external (\<lambda>_. False) t"
  using starts [of env rq "p\<lparr>pn_admin := a\<rparr>" for a] starts
  by (fastforce simp: require_admin_def Let_def split: prod.splits if_splits)

end

interpretation t_state: tunnel_handler handle_state
  by unfold_locales (auto simp: handle_state_def)

interpretation t_company: tunnel_handler handle_company
  by unfold_locales (auto simp: handle_company_def not_allowed_def split: prod.splits sum.splits if_splits)

interpretation t_methods: tunnel_handler handle_login_methods
  by unfold_locales (auto simp: handle_login_methods_def split: prod.splits sum.splits)

interpretation t_password: tunnel_handler handle_login_password
  by unfold_locales (auto simp: handle_login_password_def not_allowed_def login_result_def split: prod.splits sum.splits if_splits)

interpretation t_email_request: tunnel_handler handle_email_request
  by unfold_locales (auto simp: handle_email_request_def not_allowed_def split: prod.splits sum.splits if_splits)

interpretation t_email_verify: tunnel_handler handle_email_verify
  by unfold_locales (auto simp: handle_email_verify_def not_allowed_def login_result_def split: prod.splits sum.splits if_splits)

interpretation t_tps: tunnel_handler handle_tps_check
  by unfold_locales (auto simp: handle_tps_check_def Let_def split: prod.splits sum.splits if_splits)

interpretation t_connect: tunnel_handler handle_connect_api
  by unfold_locales (auto simp: handle_connect_api_def not_allowed_def Let_def external_def split: if_splits)

interpretation t_disconnect: tunnel_handler handle_disconnect
  by unfold_locales (auto simp: handle_disconnect_def not_allowed_def external_def split: if_splits)

interpretation t_servers: tunnel_handler handle_servers
  by unfold_locales (auto simp: handle_servers_def manager_servers_def split: prod.splits sum.splits if_splits)

interpretation t_traffic: tunnel_handler handle_traffic
  by unfold_locales (auto simp: handle_traffic_def)

interpretation t_logout: tunnel_handler handle_logout
  by unfold_locales (auto simp: handle_logout_def not_allowed_def external_def split: if_splits)

lemma update_config_world: "panel_update_config env u p = (r, p') \<Longrightarrow> tunnels_kept (pn_world p) (pn_world p')"
  by (auto simp: panel_update_config_def split: prod.splits)

lemma config_answers: "\<exists>rsp. fst (handle_config env rq p) = Done rsp"
  by (simp add: handle_config_def split: prod.split option.split)

interpretation t_config: tunnel_handler handle_config
proof unfold_locales
  show "tunnels_kept (pn_world p) (pn_world (snd (handle_config env rq p)))" for p env rq
    using update_config_world by (simp add: handle_config_def split: prod.split option.split)
  show "pn_world (snd (handle_config env rq p)) = pn_world p \<and> external (\<lambda>_. False) t"
    if "fst (handle_config env rq p) = Waits t wt" for env rq p t wt
    using config_answers [of env rq p] that by auto
qed

lemma tunnel_handlers: "(path, h) \<in> set guarded_routes \<Longrightarrow> tunnel_handler h"
  unfolding guarded_routes_def
  using t_state.tunnel_handler_axioms t_company.tunnel_handler_axioms t_methods.tunnel_handler_axioms
    t_password.tunnel_handler_axioms t_email_request.tunnel_handler_axioms t_email_verify.tunnel_handler_axioms
    t_tps.tunnel_handler_axioms t_connect.tunnel_handler_axioms t_disconnect.tunnel_handler_axioms
    t_servers.tunnel_handler_axioms t_traffic.tunnel_handler_axioms t_logout.tunnel_handler_axioms
    t_config.tunnel_handler_axioms
  by auto

lemma serve_tunnels:
  "tunnels_kept (pn_world p) (pn_world (snd (serve_panel env rq p))) \<and>
   (fst (serve_panel env rq p) = Waits t wt \<longrightarrow>
      pn_world (snd (serve_panel env rq p)) = pn_world p \<and> external (\<lambda>_. False) t)"
proof (cases "pr_path rq \<in> fst ` set guarded_routes")
  case True
  then obtain h where h: "map_of guarded_routes (pr_path rq) = Some h"
    by (metis map_of_eq_None_iff not_None_eq)
  note th = tunnel_handlers [OF map_of_SomeD [OF h]]
  have "serve_panel env rq p = require_admin h env rq (sync_conf p)"
    using True h by (simp add: serve_panel_def routes_cases)
  then show ?thesis
    using tunnel_handler.guarded_tunnels [OF th, of "sync_conf p" env rq]
      tunnel_handler.guarded_starts [OF th, of env rq "sync_conf p" t wt] by simp
next
  case False
  show ?thesis
    unfolding serve_open [OF False]
    by (simp add: handle_admin_auth_def handle_admin_login_def handle_admin_logout_def not_allowed_def Let_def
        split: option.split prod.split)
qed

section \<open>The manager inside the program\<close>

lemma tunnels_kept_fields: "tunnels_kept w w' \<Longrightarrow>
    mg_device (wd_mgr w') = mg_device (wd_mgr w) \<and> mg_proxy (wd_mgr w') = mg_proxy (wd_mgr w) \<and>
    mg_loops (wd_mgr w') = mg_loops (wd_mgr w) \<and> wd_next w' = wd_next w \<and> wd_open w' = wd_open w \<and>
    wd_proxies w' = wd_proxies w \<and> wd_refresh w' = wd_refresh w"
  by (simp add: tunnels_kept_def same_core_def)

lemma mgr_inv_kept:
  assumes inv: "mgr_inv a ts w" and kept: "tunnels_kept w w'" and listen: "\<forall>x. a = Some x \<longrightarrow> wd_listen w' = x"
  shows "mgr_inv a ts w'"
proof -
  note k = tunnels_kept_fields [OF kept]
  have "fields_ok (wd_mgr w') = fields_ok (wd_mgr w)" "ids_ok w' = ids_ok w" "lock_ok ts w' = lock_ok ts w"
    "refresh_ok ts w' = refresh_ok ts w" "owned_devs ts w' = owned_devs ts w" "owned_proxies ts w' = owned_proxies ts w"
    using k by (simp_all add: fields_ok_def ids_ok_def lock_ok_def refresh_ok_def owned_devs_def owned_proxies_def)
  moreover have "one_listener x w \<Longrightarrow> wd_listen w' = x \<Longrightarrow> one_listener x w'" for x
    using k by (simp add: one_listener_def)
  ultimately show ?thesis using inv listen k unfolding mgr_inv_def by metis
qed

lemma external_any: "external (\<lambda>_. False) t \<Longrightarrow> external listen t"
  by (simp add: external_def split: task.splits)

text \<open>The rest of a handler leaves the manager alone.\<close>

lemma finish_wait_world: "finish_wait env wt err p = (rsp, p') \<Longrightarrow> pn_world p' = pn_world p"
  by (auto simp: finish_wait_def Let_def split: wait.splits)

lemma path_ok_kept: "path_ok ts w \<Longrightarrow> tunnels_kept w w' \<Longrightarrow> path_ok ts w'"
  by (simp add: path_ok_def tunnel_of_def tunnels_kept_def same_core_def)

text \<open>The invariant of the manager, in every state of the program.\<close>

definition listens :: "string option \<Rightarrow> string \<Rightarrow> bool" where
  "listens a s = (case a of None \<Rightarrow> True | Some x \<Rightarrow> s = x)"

lemma sys_step_inv:
  assumes "sys_step (listens a) ord s s'" and inv: "mgr_inv a (sy_tasks s) (sy_world s)"
  shows "mgr_inv a (sy_tasks s') (sy_world s')"
  using assms(1)
proof cases
  case (answered env rq rsp p)
  have "tunnels_kept (sy_world s) (pn_world p)"
    using serve_tunnels [of "sy_panel s" env rq] answered(2) by simp
  then show ?thesis
    using mgr_inv_kept [OF inv] answered by (auto simp: listens_def split: option.splits)
next
  case (started env rq t wt p)
  then have w: "pn_world p = sy_world s" and "external (\<lambda>_. False) t"
    using serve_tunnels [of "sy_panel s" env rq t wt] by simp_all
  then show ?thesis using mgr_inv_spawn [OF inv external_any] started by simp
next
  case (returned wt env err rsp p)
  then show ?thesis using inv finish_wait_world by simp
next
  case (stepped xs t ys ch us w c)
  then show ?thesis using run_task_inv inv by fastforce
next
  case interrupted
  have "external (\<lambda>_. False) StartDisconnect" by (simp add: external_def)
  then show ?thesis using mgr_inv_spawn [OF inv external_any] interrupted by simp
qed

interpretation owners: step_invariant "sys_step (listens a) ord" "\<lambda>s. mgr_inv a (sy_tasks s) (sy_world s)" for a ord
  by unfold_locales (rule sys_step_inv)

lemma boot_inv:
  assumes "listens a (wd_listen (pn_world p0))" and "p0 = new_panel conf cookies d"
  shows "mgr_inv a (sy_tasks (boot p0)) (sy_world (boot p0))"
proof -
  have w: "mgr_inv a [] (new_world (server conf \<noteq> []) (socks_listen conf))"
    using assms by (intro new_world_inv) (auto simp: listens_def new_panel_def Let_def new_world_def split: option.splits)
  show ?thesis
    using mgr_inv_kept [OF w, of "sy_world (boot p0)"] assms
    by (auto simp: boot_def new_panel_def Let_def tunnels_kept_def same_core_def listens_def split: option.splits)
qed

lemma sys_inv:
  assumes "sys_reach (listens a) ord p0 s" and "p0 = new_panel conf cookies d"
  shows "mgr_inv a (sy_tasks s) (sy_world s)"
  using owners.steps_inv [of a ord "boot p0" s] boot_inv [of a p0] sys_reach_steps [OF assms(1)] assms(2) by blast

lemma sys_step_path:
  assumes "sys_step listen ord s s'" and inv: "mgr_inv None (sy_tasks s) (sy_world s)"
    and path: "path_ok (sy_tasks s) (sy_world s)"
  shows "path_ok (sy_tasks s') (sy_world s')"
  using assms(1)
proof cases
  case (answered env rq rsp p)
  have "tunnels_kept (sy_world s) (pn_world p)"
    using serve_tunnels [of "sy_panel s" env rq] answered(2) by simp
  then show ?thesis using path_ok_kept [OF path] answered(1) by simp
next
  case (started env rq t wt p)
  then have w: "pn_world p = sy_world s" and t: "external (\<lambda>_. False) t"
    using serve_tunnels [of "sy_panel s" env rq t wt] by simp_all
  then show ?thesis using path_spawn [OF path external_path [OF external_any [OF t]]] started(1) by simp
next
  case (returned wt env err rsp p)
  then show ?thesis using path finish_wait_world by simp
next
  case (stepped xs t ys ch us w c)
  have "path_ok (xs @ us @ ys) w" by (rule path_step [OF _ _ stepped(3)]) (use path inv stepped(2) in simp_all)
  then show ?thesis using stepped(1) by simp
next
  case interrupted
  have "external (\<lambda>_. False) StartDisconnect" by (simp add: external_def)
  then show ?thesis using path_spawn [OF path external_path [OF external_any]] interrupted by simp
qed

interpretation paths: step_invariant "sys_step (listens None) ord"
    "\<lambda>s. mgr_inv None (sy_tasks s) (sy_world s) \<and> path_ok (sy_tasks s) (sy_world s)" for ord
  by unfold_locales (use sys_step_inv sys_step_path in blast)

lemma sys_path:
  assumes "sys_reach (listens None) ord p0 s" and p0: "p0 = new_panel conf cookies d"
  shows "path_ok (sy_tasks s) (sy_world s)"
proof -
  have "path_ok (sy_tasks (boot p0)) (sy_world (boot p0))"
    by (simp add: boot_def p0 new_panel_def Let_def path_ok_def new_world_def)
  then show ?thesis
    using paths.steps_inv [of ord "boot p0" s] boot_inv [of None p0] sys_reach_steps [OF assms(1)] p0 by blast
qed

text \<open>C4: Make before break: in every state that the program reaches, under every interleaving of requests,
  refreshes, teardowns and reconnects, a manager that is connected and has a proxy has one that listens
  and dials through a tunnel that is open - also between the moment a refresh has moved the proxy
  to the new tunnel and the moment the manager takes that over.\<close>

theorem connected_proxy_open:
  assumes "run_program env fault cookies spa_ok addr path d = Inr (p0, out)"
    and "sys_reach (\<lambda>_. True) ord p0 s"
    and "mg_state (wd_mgr (sy_world s)) = Connected" and "mg_proxy (wd_mgr (sy_world s)) = Some x"
  shows "\<exists>l. map_of (wd_proxies (sy_world s)) x = Some l \<and> ls_tunnel l \<in> set (wd_open (sy_world s))"
proof -
  obtain conf d' where p0: "p0 = new_panel conf cookies d'" using started_at [OF assms(1)] by blast
  have "listens None = (\<lambda>_. True)" by (simp add: listens_def fun_eq_iff)
  then have reach: "sys_reach (listens None) ord p0 s" using assms(2) by simp
  from path_open [OF sys_path [OF reach p0] sys_inv [OF reach p0] assms(3,4)] show ?thesis
    by (auto simp: tunnel_of_def)
qed

section \<open>The tracker inside the program\<close>

lemma client_moves_keeps: "client_moves t c c' \<Longrightarrow> keeps_fields c c'"
  by (auto simp: client_moves_def split: if_splits)

lemma sys_step_panel:
  assumes "sys_step listen ord s s'" and reach: "panel_reach conf ord (sy_events s) (sy_panel s)"
  shows "panel_reach conf ord (sy_events s') (sy_panel s')"
  using assms(1)
proof cases
  case (answered env rq rsp p)
  then show ?thesis using panel_reach.served [OF reach] by simp
next
  case (started env rq t wt p)
  then show ?thesis using panel_reach.served [OF reach] by simp
next
  case (returned wt env err rsp p)
  then show ?thesis using panel_reach.finished [OF reach] by simp
next
  case (stepped xs t ys ch us w c)
  have "admin_fields (panel_conf ((sy_panel s)\<lparr>pn_world := w, pn_client := c\<rparr>)) = admin_fields (panel_conf (sy_panel s))"
    using client_moves_keeps [OF stepped(4)] by (simp add: panel_conf_fields keeps_fields_def fixed_fields_def)
  then show ?thesis using panel_reach.background [OF reach] stepped(1) by simp
next
  case interrupted
  then show ?thesis using reach by simp
qed

interpretation panels: step_invariant "sys_step listen ord" "\<lambda>s. panel_reach conf ord (sy_events s) (sy_panel s)"
    for listen ord conf
  by unfold_locales (rule sys_step_panel)

lemma sys_panel:
  assumes "sys_reach listen ord p0 s" and "pn_admin p0 = new_admin_auth"
  shows "panel_reach (panel_conf p0) ord (sy_events s) (sy_panel s)"
  using panels.steps_inv [of listen ord "boot p0" s] sys_reach_steps [OF assms(1)] assms(2) by (simp add: boot_def fresh)

section \<open>Nothing without a login\<close>

definition credentials_used :: "config \<Rightarrow> admin_event list \<Rightarrow> bool" where
  "credentials_used conf evs = (\<exists>t rnd client. Login t rnd client (admin_username conf) (admin_password conf) \<in> set evs)"

text \<open>As the program started, but for requests of the interrupt to disconnect.\<close>

definition untouched :: "panel \<Rightarrow> sys \<Rightarrow> bool" where
  "untouched p0 s =
     (pn_client (sy_panel s) = pn_client p0 \<and> sy_world s = pn_world p0 \<and> sy_waits s = [] \<and>
      set (sy_tasks s) \<subseteq> {StartDisconnect})"

lemma seed_frame [simp]: "cl_conf (seed_device_cookies c) = cl_conf c"
  by (simp add: seed_device_cookies_def Let_def split: option.split)

lemma new_panel_fields:
  "pn_admin (new_panel conf cookies d) = new_admin_auth"
  "cl_conf (pn_client (new_panel conf cookies d)) = conf"
  "panel_conf (new_panel conf cookies d) = conf"
  "mg_state (wd_mgr (pn_world (new_panel conf cookies d))) \<in> {LoggedIn, LoggedOut}"
  "mg_device (wd_mgr (pn_world (new_panel conf cookies d))) = None"
  "wd_open (pn_world (new_panel conf cookies d)) = []" "wd_proxies (pn_world (new_panel conf cookies d)) = []"
proof -
  show "cl_conf (pn_client (new_panel conf cookies d)) = conf" "panel_conf (new_panel conf cookies d) = conf"
    by (simp_all add: new_panel_def panel_conf_def new_client_def apply_upstream_proxy_def seed_frame Let_def)
qed (simp_all add: new_panel_def new_world_def Let_def)

lemma untouched_sync:
  assumes "untouched p0 s" and "panel_conf p0 = cl_conf (pn_client p0)"
  shows "pn_client (sync_conf (sy_panel s)) = pn_client p0"
  using assms by (simp add: untouched_def sync_conf_def panel_conf_def)

lemma acting_login:
  assumes reach: "panel_reach conf ord evs p" and on: "admin_auth_enabled conf"
    and served: "serve_panel env rq p = (r, p')" and none: "\<not> credentials_used conf evs"
  shows "\<not> acts p r p'"
proof
  assume "acts p r p'"
  with acting_token [OF reach on served] obtain token e
    where "map_of (aa_sessions (run_events conf ord evs new_admin_auth)) token = Some e" by blast
  from session_granted [OF this] have "credentials_used conf evs"
    unfolding granted_def credentials_used_def by fastforce
  with none show False ..
qed

lemma untouched_step:
  assumes "sys_step listen ord s s'" and u: "untouched p0 s"
    and p0: "p0 = new_panel conf cookies d" and on: "admin_auth_enabled conf"
    and reach: "panel_reach conf ord (sy_events s) (sy_panel s)" and none: "\<not> credentials_used conf (sy_events s)"
  shows "untouched p0 s'"
  using assms(1)
proof cases
  case (answered env rq rsp p)
  have "\<not> acts (sy_panel s) (Done rsp) p" using acting_login [OF reach on] answered none by blast
  then have "pn_client p = pn_client (sync_conf (sy_panel s))" "pn_world p = sy_world s" by (auto simp: acts_def)
  then show ?thesis
    using u untouched_sync [OF u] p0 answered(1) new_panel_fields(2,3) by (simp add: untouched_def)
next
  case (started env rq t wt p)
  have "acts (sy_panel s) (Waits t wt) p" by (simp add: acts_def)
  then show ?thesis using acting_login [OF reach on _ none] started by blast
next
  case (returned wt env err rsp p)
  then show ?thesis using u by (simp add: untouched_def)
next
  case (stepped xs t ys ch us w c)
  then have t: "t = StartDisconnect" using u by (auto simp: untouched_def)
  have "mg_state (wd_mgr (sy_world s)) \<in> {LoggedIn, LoggedOut}" using u p0 new_panel_fields(4) by (simp add: untouched_def)
  then have "us = [] \<and> w = sy_world s"
    using stepped(3) by (auto simp: t run_task_def start_disconnect_def Let_def)
  then show ?thesis using stepped u by (auto simp: t untouched_def client_moves_def uses_client_def)
next
  case interrupted
  then show ?thesis using u by (simp add: untouched_def)
qed

lemma credentials_used_mono: "credentials_used conf evs \<Longrightarrow> credentials_used conf (evs @ later)"
  by (auto simp: credentials_used_def)

lemma sys_step_events: "sys_step listen ord s s' \<Longrightarrow> \<exists>later. sy_events s' = sy_events s @ later"
  by (elim sys_stepE) auto

lemma untouched_reach:
  assumes "sys_reach listen ord p0 s" and "p0 = new_panel conf cookies d" and "admin_auth_enabled conf"
    and "\<not> credentials_used conf (sy_events s)"
  shows "untouched p0 s"
  using assms
proof (induction rule: sys_reach.induct)
  case booted
  then show ?case by (simp add: untouched_def boot_def)
next
  case (running s s')
  then have none: "\<not> credentials_used conf (sy_events s)" using sys_step_events credentials_used_mono by metis
  have "panel_reach conf ord (sy_events s) (sy_panel s)"
    using sys_panel [OF running.hyps(1)] running.prems(1) new_panel_fields(1,3) by metis
  with untouched_step [OF running.hyps(2) _ running.prems(1,2) _ none] running.IH running.prems none show ?case by blast
qed

text \<open>C3: With admin authentication on, the program does nothing for anybody who does not know the credentials:
  as long as no login with the configured name and password was tried, then after any sequence of
  requests and steps of the goroutines the client with its configuration, cookies and files and the
  manager are as they were when the program started; there is no tunnel and no proxy, no handler
  waits, and no goroutine runs but the disconnect of an interrupt.\<close>

theorem no_tunnel_without_login:
  assumes "run_program env fault cookies spa_ok addr path d = Inr (p0, out)"
    and "sys_reach listen ord p0 s" and "admin_auth_enabled (panel_conf p0)"
    and "\<not> credentials_used (panel_conf p0) (sy_events s)"
  shows "pn_client (sy_panel s) = pn_client p0 \<and> sy_world s = pn_world p0 \<and>
    mg_device (wd_mgr (sy_world s)) = None \<and> wd_open (sy_world s) = [] \<and> wd_proxies (sy_world s) = [] \<and>
    sy_waits s = [] \<and> set (sy_tasks s) \<subseteq> {StartDisconnect}"
proof -
  obtain conf d' where p0: "p0 = new_panel conf cookies d'" using started_at [OF assms(1)] by blast
  then have "untouched p0 s" using untouched_reach [OF assms(2) p0] assms(3,4) new_panel_fields(3) by simp
  then show ?thesis using p0 new_panel_fields(5-7) by (simp add: untouched_def)
qed

section \<open>The way of the API requests\<close>

lemma client_moves_keeps_all: "client_moves t c c' \<Longrightarrow> handler_keeps c c'"
  using client_moves_keeps keeps_handler by blast

lemma sys_step_keeps:
  assumes "sys_step listen ord s s'"
  shows "handler_keeps (pn_client (sy_panel s)) (pn_client (sy_panel s'))"
  using assms
proof cases
  case (answered env rq rsp p)
  then show ?thesis using serve_panel_keeps [of "sy_panel s" env rq] by simp
next
  case (started env rq t wt p)
  then show ?thesis using serve_panel_keeps [of "sy_panel s" env rq] by simp
next
  case (returned wt env err rsp p)
  then show ?thesis using finish_wait_keeps by (simp add: keeps_handler)
next
  case (stepped xs t ys ch us w c)
  then show ?thesis using client_moves_keeps_all by simp
next
  case interrupted
  then show ?thesis by simp
qed

lemma new_client_proxy: "proxy_set (new_client conf cookies d)"
  by (simp add: new_client_def apply_upstream_proxy_def proxy_set_def Let_def)

interpretation proxied: step_invariant "sys_step listen ord" "\<lambda>s. proxy_set (pn_client (sy_panel s))" for listen ord
  by unfold_locales (use sys_step_keeps in \<open>auto simp: handler_keeps_def\<close>)

lemma sys_proxy_set:
  assumes "sys_reach listen ord p0 s" and "p0 = new_panel conf cookies d"
  shows "proxy_set (pn_client (sy_panel s))"
  using proxied.steps_inv [of listen ord "boot p0" s] sys_reach_steps [OF assms(1)] assms(2)
  by (simp add: boot_def new_panel_def new_client_proxy)


section \<open>Shutdown\<close>

text \<open>The disconnect of the interrupt, run to its end.\<close>

definition disconnect_run :: "choice \<Rightarrow> world \<Rightarrow> task list \<times> world" where
  "disconnect_run ch w = run_schedule (replicate 5 (0, ch)) ([StartDisconnect], w)"

lemma disconnect_run_result:
  assumes "mg_state (wd_mgr w) = Connected"
  shows "\<exists>w'. disconnect_run ch w = ([], w') \<and> mg_state (wd_mgr w') = LoggedIn \<and>
    mg_device (wd_mgr w') = None \<and> mg_proxy (wd_mgr w') = None \<and> mg_loops (wd_mgr w') = None \<and>
    wd_open w' = (case mg_device (wd_mgr w) of None \<Rightarrow> wd_open w | Some dv \<Rightarrow> remove1 dv (wd_open w)) \<and>
    wd_proxies w' = (case mg_proxy (wd_mgr w) of None \<Rightarrow> wd_proxies w
                     | Some x \<Rightarrow> filter (\<lambda>(q, _). q \<noteq> x) (wd_proxies w)) \<and>
    wd_live w' = (case mg_loops (wd_mgr w) of None \<Rightarrow> wd_live w | Some c \<Rightarrow> removeAll c (wd_live w)) \<and>
    wd_reports w' = wd_reports w @
      (if mg_device (wd_mgr w) \<noteq> None \<and> mg_cur_addr (wd_mgr w) \<noteq> [] then [(mg_cur_addr (wd_mgr w), True)] else [])"
  using assms
  by (simp add: disconnect_run_def eval_nat_numeral run_task_def start_disconnect_def Let_def report_off_def tear_down_def
      close_all_def on_some_def after_down_task_def set_state_def close_device_def close_proxy_def split: option.split)


section \<open>Runs\<close>

lemma sys_schedule:
  assumes "sys_reach listen ord p0 s" and "in_range sch (sy_tasks s, sy_world s)"
  shows "\<exists>s'. sys_reach listen ord p0 s' \<and> sy_tasks s' = fst (run_schedule sch (sy_tasks s, sy_world s)) \<and>
    sy_world s' = snd (run_schedule sch (sy_tasks s, sy_world s)) \<and> sy_events s' = sy_events s"
  using assms
proof (induction sch arbitrary: s)
  case Nil
  then show ?case by auto
next
  case (Cons x sch)
  obtain i ch where x: "x = (i, ch)" by (cases x)
  obtain us w where r: "run_task ch (sy_tasks s ! i) (sy_world s) = (us, w)" by fastforce
  have i: "i < length (sy_tasks s)" using Cons.prems(2) by (simp add: x)
  let ?s = "s\<lparr>sy_panel := (sy_panel s)\<lparr>pn_world := w, pn_client := pn_client (sy_panel s)\<rparr>,
    sy_tasks := take i (sy_tasks s) @ us @ drop (Suc i) (sy_tasks s)\<rparr>"
  have "sys_step listen ord s ?s"
    by (rule stepped [OF id_take_nth_drop [OF i] r]) (simp add: client_moves_def)
  then have "sys_reach listen ord p0 ?s" by (rule running [OF Cons.prems(1)])
  from Cons.IH [OF this] Cons.prems(2) r show ?case by (simp add: x)
qed

text \<open>A configuration file that needs no defaults, with and without the gate, and with an upstream proxy.\<close>

definition boot_config :: "bool \<Rightarrow> string \<Rightarrow> config" where
  "boot_config gated up = empty_config\<lparr>conf_path := ''c.json'', server := ''https://vpn.example'', device_name := ''d'', device_id := ''1'',
     android_release := ''14'', security_patch := ''p'', socks_listen := ''a'', route_mode := ''full'',
     vpn_select_strategy := ''default'', private_key := ''k'', public_key := ''q'', upstream_raw := up,
     admin_auth_enabled := gated, admin_username := ''root'', admin_password := ''pw''\<rparr>"

definition boot_disk :: "bool \<Rightarrow> string \<Rightarrow> disk" where
  "boot_disk gated up = [''c.json'' \<mapsto> Stored (serialized (boot_config gated up))]"

definition boot_env :: crypto_env where
  "boot_env = \<lparr>ce_md5 = id, ce_x25519 = Some, ce_rand = None\<rparr>"

definition boot_panel :: "bool \<Rightarrow> string \<Rightarrow> panel" where
  "boot_panel gated up = new_panel (parse_upstream_field (boot_config gated up)) None (boot_disk gated up)"

lemma boot_runs:
  "run_program boot_env NoFault None True ''127.0.0.1:6151'' ''c.json'' (boot_disk gated up) =
     Inr (boot_panel gated up, [Listening ''127.0.0.1:6151'', Interrupted, ManagerDisconnect, ServerShutdown])"
proof -
  have "ensure_defaults boot_env (boot_config gated up) = Inr (False, boot_config gated up)"
    by (simp add: ensure_defaults_def fill_fields_def default_to_def init_android_device_def ensure_keys_def Let_def
        boot_config_def empty_config_def)
  moreover have "(serialized (boot_config gated up))\<lparr>conf_path := ''c.json'', upstream_parsed := None\<rparr> = boot_config gated up"
    by (simp add: serialized_def boot_config_def empty_config_def)
  ultimately have "load_config boot_env NoFault ''c.json'' (boot_disk gated up) =
      (boot_disk gated up, Inr (parse_upstream_field (boot_config gated up)))"
    by (simp add: load_config_def boot_disk_def)
  moreover have "\<not> listen_is_all_interfaces ''127.0.0.1:6151''" by code_simp
  ultimately show ?thesis by (simp add: run_program_def boot_panel_def)
qed

lemma boot_conf: "panel_conf (boot_panel gated []) = boot_config gated []"
  by (simp add: boot_panel_def new_panel_fields parse_upstream_field_def boot_config_def)

lemma boot_world: "pn_world (boot_panel gated []) = new_world True ''a''"
  by (simp add: boot_panel_def new_panel_def parse_upstream_field_def boot_config_def empty_config_def new_world_def Let_def)

definition wrong_login :: panel_request where
  "wrong_login = sample_login\<lparr>pr_body := Some (Doc (JObj [(''username'', JStr ''root''), (''password'', JStr ''no'')]))\<rparr>"

theorem no_tunnel_without_login_witness:
  "\<exists>s. sys_reach (\<lambda>_. True) id (boot_panel True []) s \<and>
     sy_events s = [Login 1 ''k'' ''10.0.0.9'' ''root'' ''no''] \<and> wd_open (sy_world s) = []"
proof -
  let ?p0 = "boot_panel True []"
  have conf: "panel_conf ?p0 = boot_config True []" by (rule boot_conf)
  then have on: "admin_auth_enabled (panel_conf ?p0)" "admin_password (panel_conf ?p0) = ''pw''"
    by (simp_all add: boot_config_def)
  obtain p where q: "\<exists>rsp. serve_panel (panel_sample_env 1) wrong_login ?p0 = (Done rsp, p)"
  proof -
    have "pr_path wrong_login \<notin> fst ` set guarded_routes"
      using admin_paths by (simp add: wrong_login_def sample_login_def)
    from serve_open [OF this] have "\<exists>rsp p. serve_panel (panel_sample_env 1) wrong_login ?p0 = (Done rsp, p)"
      by (simp add: wrong_login_def sample_login_def handle_admin_login_def is_post_def on split: prod.split option.split)
    then show ?thesis using that by blast
  qed
  have ev: "admin_events (panel_sample_env 1) wrong_login ?p0 = [Login 1 ''k'' ''10.0.0.9'' ''root'' ''no'']"
  proof -
    have "decode_strings (pr_body wrong_login) [''username'', ''password''] = ([''root'', ''no''], False)"
      "client_ip wrong_login = ''10.0.0.9''" by code_simp+
    then show ?thesis
      using admin_paths on
      by (simp add: admin_events_def wrong_login_def sample_login_def is_post_def panel_sample_env_def)
  qed
  let ?s = "(boot ?p0)\<lparr>sy_panel := p, sy_events := [Login 1 ''k'' ''10.0.0.9'' ''root'' ''no'']\<rparr>"
  have "sys_reach (\<lambda>_. True) id ?p0 (boot ?p0)" by (rule booted) simp
  moreover have "sys_step (\<lambda>_. True) id (boot ?p0) ?s"
    using q answered [of "panel_sample_env 1" wrong_login "boot ?p0" _ p id "\<lambda>_. True"] ev
    by (auto simp: boot_def panel_sample_env_def)
  ultimately have reach: "sys_reach (\<lambda>_. True) id ?p0 ?s" by (rule running)
  have "\<not> credentials_used (panel_conf ?p0) (sy_events ?s)" by (simp add: credentials_used_def on)
  from no_tunnel_without_login [OF boot_runs reach on(1) this] reach show ?thesis by force
qed

definition sample_connect :: panel_request where
  "sample_connect = sample_login\<lparr>pr_path := ''/api/connect'', pr_body := Some BlankBody\<rparr>"

lemma connect_requested:
  assumes "listen ''a''"
  shows "\<exists>s. sys_reach listen id (boot_panel False []) s \<and> sy_tasks s = [StartConnect 0 []] \<and> sy_world s = new_world True ''a''"
proof -
  let ?p0 = "boot_panel False []"
  let ?s1 = "(boot ?p0)\<lparr>sy_panel := sync_conf ?p0, sy_tasks := [StartConnect 0 []], sy_waits := [AwaitConnect]\<rparr>"
  have conf: "panel_conf ?p0 = boot_config False []" by (rule boot_conf)
  then have off: "\<not> admin_auth_enabled (panel_conf ?p0)" by (simp add: boot_config_def empty_config_def)
  have path: "map_of routes ''/api/connect'' = Some (require_admin handle_connect_api)"
    by (simp add: routes_cases guarded_routes_def)
  have body: "body_members (Some BlankBody) = ([], True)" by (simp add: body_members_def)
  have served: "serve_panel (panel_sample_env 1) sample_connect ?p0 = (Waits (StartConnect 0 []) AwaitConnect, sync_conf ?p0)"
    by (simp add: serve_panel_def path sample_connect_def sample_login_def require_admin_def off handle_connect_api_def
        is_post_def body body_field_def)
  have none: "admin_events (panel_sample_env 1) sample_connect ?p0 = []"
    by (simp add: admin_events_def sample_connect_def off guarded_routes_def)
  have "sys_reach listen id ?p0 (boot ?p0)"
    by (rule booted) (simp add: boot_world new_world_def assms)
  moreover have "sys_step listen id (boot ?p0) ?s1"
    using started [of "panel_sample_env 1" sample_connect "boot ?p0" "StartConnect 0 []" AwaitConnect "sync_conf ?p0" id listen]
      served none
    by (simp add: boot_def panel_sample_env_def)
  ultimately have "sys_reach listen id ?p0 ?s1" by (rule running)
  moreover have "sy_tasks ?s1 = [StartConnect 0 []]" "sy_world ?s1 = new_world True ''a''" by (simp_all add: boot_world)
  ultimately show ?thesis by blast
qed


definition sample_methods :: panel_request where
  "sample_methods = sample_login\<lparr>pr_method := ''GET'', pr_path := ''/api/login/methods'', pr_body := Some BlankBody\<rparr>"

lemma methods_sent:
  "fst (serve_panel (panel_sample_env 1) sample_methods (boot_panel False ''socks5://10.0.0.1:1080'')) =
     Done (write_err 502 [])"
  "map (map_option u_host \<circ> rq_via) (cl_log (pn_client (snd
     (serve_panel (panel_sample_env 1) sample_methods (boot_panel False ''socks5://10.0.0.1:1080''))))) =
   [Some ''10.0.0.1:1080'']"
  "cl_log (pn_client (boot_panel False ''socks5://10.0.0.1:1080'')) = []"
  by code_simp+


text \<open>A refresh that has moved the proxy, and whose commit is still to come.\<close>

theorem connected_proxy_open_witness:
  "\<exists>s l. sys_reach (\<lambda>_. True) id (boot_panel False []) s \<and> mg_device (wd_mgr (sy_world s)) = Some 0 \<and>
     map_of (wd_proxies (sy_world s)) 1 = Some l \<and> ls_tunnel l = 3 \<and> 3 \<in> set (wd_open (sy_world s))"
proof -
  let ?run = "connect_run @ [(3, sample_choice), (3, sample_choice), (3, sample_choice), (3, sample_choice), (3, sample_choice)]"
  let ?p0 = "boot_panel False []"
  obtain s1 where s1: "sys_reach (\<lambda>_. True) id ?p0 s1" "sy_tasks s1 = [StartConnect 0 []]" "sy_world s1 = new_world True ''a''"
    using connect_requested [of "\<lambda>_. True"] by auto
  have c: "in_range ?run ([StartConnect 0 []], new_world True ''a'')"
    "mg_state (wd_mgr (snd (run_schedule ?run ([StartConnect 0 []], new_world True ''a'')))) = Connected"
    "mg_proxy (wd_mgr (snd (run_schedule ?run ([StartConnect 0 []], new_world True ''a'')))) = Some 1"
    "mg_device (wd_mgr (snd (run_schedule ?run ([StartConnect 0 []], new_world True ''a'')))) = Some 0"
    "map_option ls_tunnel (map_of (wd_proxies (snd (run_schedule ?run ([StartConnect 0 []], new_world True ''a'')))) 1) = Some 3"
    by code_simp+
  obtain s where s: "sys_reach (\<lambda>_. True) id ?p0 s"
    "sy_world s = snd (run_schedule ?run ([StartConnect 0 []], new_world True ''a''))"
    using sys_schedule [OF s1(1)] c(1) unfolding s1(2,3) by blast
  have on: "mg_state (wd_mgr (sy_world s)) = Connected" "mg_proxy (wd_mgr (sy_world s)) = Some 1"
    using c(2,3) by (simp_all add: s(2))
  from connected_proxy_open [OF boot_runs s(1) on] obtain l where
    "map_of (wd_proxies (sy_world s)) 1 = Some l" "ls_tunnel l \<in> set (wd_open (sy_world s))" by blast
  moreover have "map_option ls_tunnel (map_of (wd_proxies (sy_world s)) 1) = Some 3" "mg_device (wd_mgr (sy_world s)) = Some 0"
    using c(4,5) by (simp_all only: s(2))
  ultimately have "map_of (wd_proxies (sy_world s)) 1 = Some l \<and> ls_tunnel l = 3 \<and> 3 \<in> set (wd_open (sy_world s)) \<and>
      mg_device (wd_mgr (sy_world s)) = Some 0"
    by simp
  then show ?thesis using s(1) by blast
qed

end
