(* ===== verification/System.thy ===== *)
theory System
  imports Netstack
begin

text \<open>
  The data path of the program, across its components: from the answer of the server, through the routes
  (theories Routes and WgConf), to the configuration of the WireGuard device (theory Netstack).
\<close>

section \<open>From the server's answer to the device\<close>

text \<open>The addresses that the lines of a device configuration let into the tunnel.\<close>

definition allowed_addrs :: "string \<Rightarrow> addr set" where
  "allowed_addrs uapi = \<Union> {route_addrs r | r. ''allowed_ip='' @ r \<in> set (split_str uapi [newline])}"

lemma parse_v4_digits: "parse_v4_fields fs v d s = Some r \<Longrightarrow> list_all (\<lambda>c. is_digit c \<or> c = CHR ''.'') s"
  by (induction fs v d s rule: parse_v4_fields.induct) (auto split: if_splits)

lemma parse_addr_v4:
  assumes "parse_addr s = Some a" and "is4 a"
  shows "list_all (\<lambda>c. is_digit c \<or> c = CHR ''.'') s"
  using assms parse_v4_digits
  by (auto simp: parse_addr_def parse_ipv4_def parse_ipv6_def is4_def split: option.splits if_splits prod.splits)

lemma digit_not_special4: "is_digit c \<or> c = CHR ''.'' \<Longrightarrow> c \<noteq> CHR '':'' \<and> c \<noteq> CHR ''['' \<and> c \<noteq> CHR '']''"
  by (auto simp: is_digit_def byte_def)

text \<open>A numeric IPv4 node is its own endpoint.\<close>

lemma resolve_endpoint_v4:
  assumes "parse_addr s = Some a" and "is4 a"
  shows "resolve_endpoint look (s @ CHR '':'' # itoa n) = Inr (s @ CHR '':'' # itoa n)"
proof -
  have s: "\<forall>c \<in> set s. c \<noteq> CHR '':'' \<and> c \<noteq> CHR ''['' \<and> c \<noteq> CHR '']''"
    using parse_addr_v4 [OF assms] digit_not_special4 by (auto simp: list_all_iff)
  moreover have "\<forall>c \<in> set (itoa n). c \<noteq> CHR '':'' \<and> c \<noteq> CHR ''['' \<and> c \<noteq> CHR '']''"
    using itoa_digits_set digit_not_special4 by blast
  ultimately have "split_host_port (join_host_port s (itoa n)) = Some (s, itoa n)"
    by (intro split_join_host_port) auto
  moreover have "join_host_port s (itoa n) = s @ CHR '':'' # itoa n" using s by (auto simp: join_host_port_def)
  moreover have "parse_ip s \<noteq> None" using assms by (auto simp: parse_ip_def is4_def zone_of_def split: addr.splits)
  ultimately show ?thesis by (simp add: resolve_endpoint_def)
qed

text \<open>The keys of the lines tell them apart: only the route lines start with theirs.\<close>

lemma allowed_lines:
  assumes "split_str uapi [newline] = map uapi_pair
      ([(''private_key'', k), (''replace_peers'', ''true''), (''public_key'', q),
        (''replace_allowed_ips'', ''true''), (''endpoint'', e), (''persistent_keepalive_interval'', ''10'')]
       @ map (Pair ''allowed_ip'') rs) @ [[]]"
  shows "allowed_addrs uapi = routes_addrs rs"
  by (auto simp: allowed_addrs_def assms uapi_pair_def routes_addrs_def)

text \<open>C13: From the answer of the server to the device: what the device is told to let into the tunnel is exactly
  what the route mode asks for, without the address of the node and with the DNS servers (and without any
  IPv6 when the tunnel has no IPv6 address). For a node with a numeric IPv4 address that is no DNS server
  of the tunnel, the endpoint in the same configuration is that address, and no route covers it: the
  encrypted packets never go back into the tunnel.\<close>

theorem device_routes:
  assumes "build_wg_conf conf node info = Some (Inr wc)" and "build_uapi look wc = Inr uapi"
  shows "allowed_addrs uapi = (if wi_ipv6 info = [] then {a \<in> tunnel_addrs conf node info. is4 a} else tunnel_addrs conf node info) \<and>
    (\<forall>a. parse_addr (vi_ip node) = Some a \<longrightarrow> is4 a \<longrightarrow> a \<notin> without_zone ` set (dns_addrs (ws_dns (wi_setting info))) \<longrightarrow>
       a \<notin> allowed_addrs uapi \<and>
       ''endpoint='' @ vi_ip node @ '':'' @ itoa (unat (vi_vpn_port node)) \<in> set (split_str uapi [newline]))"
proof -
  obtain k q e where l: "split_str uapi [newline] = map uapi_pair
      ([(''private_key'', k), (''replace_peers'', ''true''), (''public_key'', q),
        (''replace_allowed_ips'', ''true''), (''endpoint'', e), (''persistent_keepalive_interval'', ''10'')]
       @ map (Pair ''allowed_ip'') (wc_allowed wc)) @ [[]]"
    and e: "resolve_endpoint look (wc_peer_address wc) = Inr e"
    using build_uapi_endpoint [OF assms] by blast
  have r: "allowed_addrs uapi = (if wi_ipv6 info = [] then {a \<in> tunnel_addrs conf node info. is4 a} else tunnel_addrs conf node info)"
    using allowed_lines [OF l] build_wg_conf_result [OF assms(1)] by simp
  moreover have "a \<notin> allowed_addrs uapi \<and>
      ''endpoint='' @ vi_ip node @ '':'' @ itoa (unat (vi_vpn_port node)) \<in> set (split_str uapi [newline])"
    if a: "parse_addr (vi_ip node) = Some a" "is4 a" and d: "a \<notin> without_zone ` set (dns_addrs (ws_dns (wi_setting info)))" for a
  proof -
    have "zone_of a = []" using a(2) by (auto simp: is4_def zone_of_def split: addr.splits)
    then have "a \<notin> tunnel_addrs conf node info" using peer_addrs_eq [OF a(1)] d by (simp add: tunnel_addrs_def)
    moreover have "e = vi_ip node @ CHR '':'' # itoa (unat (vi_vpn_port node))"
      using e resolve_endpoint_v4 [OF a] build_wg_conf_fields(3) [OF assms(1)] by simp
    ultimately show ?thesis using r by (simp add: l uapi_pair_def)
  qed
  ultimately show ?thesis by blast
qed

text \<open>A node with a numeric address, reached outside the tunnel it carries.\<close>

theorem device_routes_witness:
  "\<exists>wc uapi. build_wg_conf keyed_config demo_node keyed_info = Some (Inr wc) \<and> build_uapi (\<lambda>h. []) wc = Inr uapi \<and>
     V4 168364039 \<notin> allowed_addrs uapi \<and> ''endpoint=10.9.8.7:51820'' \<in> set (split_str uapi [newline])"
proof -
  obtain wc uapi where b: "build_wg_conf keyed_config demo_node keyed_info = Some (Inr wc)"
    "build_uapi (\<lambda>h. []) wc = Inr uapi"
    using keyed_tunnel by blast
  have a: "parse_addr (vi_ip demo_node) = Some (V4 168364039) \<and>
      V4 168364039 \<notin> without_zone ` set (dns_addrs (ws_dns (wi_setting keyed_info)))"
    by code_simp
  have e: "''endpoint='' @ vi_ip demo_node @ '':'' @ itoa (unat (vi_vpn_port demo_node)) = ''endpoint=10.9.8.7:51820''"
    by code_simp
  have "is4 (V4 168364039)" by (simp add: is4_def)
  then have "V4 168364039 \<notin> allowed_addrs uapi \<and> ''endpoint=10.9.8.7:51820'' \<in> set (split_str uapi [newline])"
    using device_routes [OF b] a unfolding e by blast
  then show ?thesis using b by blast
qed

end
