(* ===== verification/Bringup.thy ===== *)
theory Bringup
  imports System Program HttpProxy Lifecycle Requests ErrorText
begin

text \<open>
  Bringing a tunnel up, end to end: \<open>buildTunnel\<close> and \<open>connectReal\<close> of \<open>vpnmgr/connect.go\<close> over the
  definitions of the components they call (the API client, the choice of the node, the configuration of
  the tunnel, the userspace device, the listener of the proxy). Theory Manager runs the same functions
  as tasks whose calls to the outside are choices; here the choices are computed, and shown to be
  the same. What the API, the device and the network answer are arguments.
\<close>

section \<open>buildTunnel\<close>

datatype 'e tunnel_err = ApiFailed client_err | NeedOTP | ConfFailed build_err | ConfPanic | StartFailed "'e start_err"

text \<open>The outside: what the API answers, what starting a device meets, the probe of the new tunnel, what
  \<open>net.Listen\<close> gives, and the texts of the errors.\<close>

record 'e tunnel_env =
  te_client :: client_env
  te_start :: "'e start_env"
  te_probe :: "string \<Rightarrow> 'e option"
  te_listen :: "string \<Rightarrow> 'e + string"
  te_cause :: "client_err \<Rightarrow> string"
  te_conf_text :: "build_err \<Rightarrow> string"
  te_start_text :: "'e start_err \<Rightarrow> string"

definition api_text :: "'e tunnel_env \<Rightarrow> client_err \<Rightarrow> string" where
  "api_text env = client_err_text (te_cause env)"

definition has_otp_secret :: "client \<Rightarrow> bool" where
  "has_otp_secret c = (otp_code (cl_conf c) \<noteq> [])"

text \<open>What \<open>err.Error()\<close> says; \<open>ErrNeedOTP\<close> has a text of its own.\<close>

definition tunnel_err_text :: "'e tunnel_env \<Rightarrow> 'e tunnel_err \<Rightarrow> string" where
  "tunnel_err_text env e =
     (case e of ApiFailed x \<Rightarrow> api_text env x | NeedOTP \<Rightarrow> ''otp required'' | ConfFailed x \<Rightarrow> te_conf_text env x
      | ConfPanic \<Rightarrow> [] | StartFailed x \<Rightarrow> te_start_text env x)"

text \<open>A run: the client afterwards, the message with which the manager was set to logged out if it was, the
  calls that made the device, and the outcome.\<close>

record 'a bring =
  bg_client :: client
  bg_logged_out :: "string option"
  bg_calls :: "start_call list"
  bg_result :: 'a

definition build_failed :: "client \<Rightarrow> string option \<Rightarrow> start_call list \<Rightarrow> 'x \<Rightarrow> ('x + 'a) bring" where
  "build_failed c lo cs e = \<lparr>bg_client = c, bg_logged_out = lo, bg_calls = cs, bg_result = Inl e\<rparr>"

definition fetch_failed :: "'e tunnel_env \<Rightarrow> string \<Rightarrow> client \<Rightarrow> client_err \<Rightarrow> ('e tunnel_err + 'a) bring" where
  "fetch_failed env otp c e =
     (if is_logged_out e then build_failed c (Some (api_text env e)) [] (ApiFailed e)
      else if otp = [] \<and> \<not> has_otp_secret c \<and> looks_like_otp_error (api_text env e)
      then build_failed c None [] NeedOTP
      else build_failed c None [] (ApiFailed e))"

definition build_tunnel_real ::
  "'e tunnel_env \<Rightarrow> string \<Rightarrow> client \<Rightarrow> ('e tunnel_err + netstack_device \<times> wg_conf \<times> vpn_info) bring" where
  "build_tunnel_real env otp c =
     (case list_vpn (te_client env) c of
        (c1, Inl e) \<Rightarrow>
          build_failed c1 (if is_logged_out e then Some (api_text env e) else None) [] (ApiFailed e)
      | (c1, Inr vpns) \<Rightarrow>
      (case select_vpn (te_client env) vpns c1 of
        (c2, Inl e) \<Rightarrow> build_failed c2 None [] (ApiFailed e)
      | (c2, Inr node) \<Rightarrow>
      (case fetch_peer_info (te_client env) otp c2 of
        (c3, Inl e) \<Rightarrow> fetch_failed env otp c3 e
      | (c3, Inr info) \<Rightarrow>
      (case build_wg_conf (cl_conf c3) node info of
        None \<Rightarrow> build_failed c3 None [] ConfPanic
      | Some (Inl e) \<Rightarrow> build_failed c3 None [] (ConfFailed e)
      | Some (Inr conf) \<Rightarrow>
      (case start_netstack_with_proxy (te_start env) conf (upstream_parsed (cl_conf c3)) of
        (cs, Inl e) \<Rightarrow> build_failed c3 None cs (StartFailed e)
      | (cs, Inr dev) \<Rightarrow>
          \<lparr>bg_client = c3, bg_logged_out = None, bg_calls = cs, bg_result = Inr (dev, conf, node)\<rparr>)))))"

section \<open>connectReal\<close>

text \<open>The credentials that clients of the proxy must present.\<close>

definition proxy_auth_of :: "config \<Rightarrow> proxy_auth option" where
  "proxy_auth_of c =
     (if proxy_auth_enabled c \<and> proxy_username c \<noteq> []
      then Some \<lparr>au_user = proxy_username c, au_pass = proxy_password c\<rparr> else None)"

datatype 'e connect_err = BuildErr "'e tunnel_err" | ListenErr 'e

text \<open>What a connection has when it is up.\<close>

record connection =
  cn_device :: netstack_device
  cn_conf :: wg_conf
  cn_node :: vpn_info
  cn_auth :: "proxy_auth option"
  cn_listener :: mixed_listener

text \<open>The outcome of the probe is only logged, the outcome of the report ignored.\<close>

definition connect_real :: "'e tunnel_env \<Rightarrow> string \<Rightarrow> client \<Rightarrow> ('e connect_err + connection) bring" where
  "connect_real env otp c =
     (let b = build_tunnel_real env otp c in
      case bg_result b of
        Inl e \<Rightarrow> build_failed (bg_client b) (bg_logged_out b) (bg_calls b) (BuildErr e)
      | Inr (dev0, conf, node) \<Rightarrow>
          let dev = snd (device_probe (te_probe env (tunnel_probe_addr conf)) dev0);
              settings = cl_conf (bg_client b);
              auth = proxy_auth_of settings
          in case listen_and_serve (te_listen env) (socks_listen settings) new_listener of
               (Some e, l) \<Rightarrow> build_failed (bg_client b) (bg_logged_out b) (bg_calls b @ [CloseDevice]) (ListenErr e)
             | (None, l) \<Rightarrow>
                 \<lparr>bg_client = fst (report_device (te_client env) (wc_address conf)
                    (route_mode_report (route_mode_or_default settings)) False (bg_client b)),
                  bg_logged_out = bg_logged_out b, bg_calls = bg_calls b,
                  bg_result = Inr \<lparr>cn_device = dev, cn_conf = conf, cn_node = node, cn_auth = auth,
                    cn_listener = l\<rparr>\<rparr>)"

section \<open>A tunnel that was built\<close>

text \<open>The stages of a successful \<open>buildTunnel\<close>, put together.\<close>

lemma build_real_Inr:
  assumes "bg_result (build_tunnel_real env otp c) = Inr (dev, conf, node)"
  shows "\<exists>c1 c2 vpns info. list_vpn (te_client env) c = (c1, Inr vpns) \<and>
    select_vpn (te_client env) vpns c1 = (c2, Inr node) \<and>
    fetch_peer_info (te_client env) otp c2 = (bg_client (build_tunnel_real env otp c), Inr info) \<and>
    build_wg_conf (cl_conf (bg_client (build_tunnel_real env otp c))) node info = Some (Inr conf) \<and>
    start_netstack_with_proxy (te_start env) conf
      (upstream_parsed (cl_conf (bg_client (build_tunnel_real env otp c)))) =
      (bg_calls (build_tunnel_real env otp c), Inr dev) \<and>
    bg_logged_out (build_tunnel_real env otp c) = None"
  using assms
  by (auto simp: build_tunnel_real_def build_failed_def fetch_failed_def split: prod.splits sum.splits option.splits if_splits)

lemma build_real_sends:
  "sends_to {ListVPN, PingVPN, ConnectVPN} c (bg_client (build_tunnel_real env otp c))"
proof -
  let ?all = "{ListVPN, PingVPN, ConnectVPN}"
  have l: "sends_to ?all x (fst (list_vpn e x))" and s: "sends_to ?all x (fst (select_vpn e vs x))"
    and f: "sends_to ?all x (fst (fetch_peer_info e o' x))" for x e vs o'
    by (rule sends_to_mono [OF list_sends] sends_to_mono [OF select_sends] sends_to_mono [OF fetch_sends]; simp)+
  have l': "sends_to ?all c c1" if "list_vpn (te_client env) c = (c1, r)" for c1 r
    using l [of c "te_client env"] that by simp
  have s': "sends_to ?all c c2" if "list_vpn (te_client env) c = (c1, r)"
    "select_vpn (te_client env) vpns c1 = (c2, r')" for c1 r vpns c2 r'
    using sends_to_again [OF l' [OF that(1)]] s [of c1 "te_client env" vpns] that(2) by simp
  have f': "sends_to ?all c c3" if "list_vpn (te_client env) c = (c1, r)"
    "select_vpn (te_client env) vpns c1 = (c2, r')" "fetch_peer_info (te_client env) otp c2 = (c3, r'')" for c1 r vpns c2 r' c3 r''
    using sends_to_again [OF s' [OF that(1,2)]] f [of c2 "te_client env" otp] that(3) by simp
  show ?thesis using l' s' f'
    by (auto simp: build_tunnel_real_def build_failed_def fetch_failed_def split: prod.split sum.split option.split)
qed

lemma build_real_conf: "cl_conf (bg_client (build_tunnel_real env otp c)) = cl_conf c"
  using build_real_sends [of c env otp] by (auto simp: sends_to_def sends_def)

lemma connect_real_Inr:
  assumes "bg_result (connect_real env otp c) = Inr cn"
  shows "\<exists>dev. bg_result (build_tunnel_real env otp c) = Inr (dev, cn_conf cn, cn_node cn) \<and>
    cn_device cn = dev \<and> cn_auth cn = proxy_auth_of (cl_conf c) \<and>
    listen_and_serve (te_listen env) (socks_listen (cl_conf c)) new_listener = (None, cn_listener cn) \<and>
    bg_client (connect_real env otp c) = fst (report_device (te_client env) (wc_address (cn_conf cn))
      (route_mode_report (route_mode_or_default (cl_conf c))) False (bg_client (build_tunnel_real env otp c))) \<and>
    bg_calls (connect_real env otp c) = bg_calls (build_tunnel_real env otp c) \<and>
    bg_logged_out (connect_real env otp c) = bg_logged_out (build_tunnel_real env otp c)"
  using assms
  by (auto simp: connect_real_def Let_def build_failed_def build_real_conf device_probe_def
      split: sum.splits prod.splits option.splits)

text \<open>When the node rejects the keys, the manager asks for a one-time code exactly when none was given, none can be
  made, and the message of the node - not what the program puts in front of it - speaks of one.\<close>

lemma otp_asked:
  assumes "list_vpn (te_client env) c = (c1, Inr vpns)" and "select_vpn (te_client env) vpns c1 = (c2, Inr node)"
    and "fetch_peer_info (te_client env) otp c2 = (c3, Inl (ErrCode ConnectVPN n msg))"
  shows "bg_result (build_tunnel_real env otp c) = Inl NeedOTP \<longleftrightarrow>
    otp = [] \<and> otp_code (cl_conf c) = [] \<and> list_ex (contains (to_lower msg)) otp_keywords"
proof -
  have b: "build_tunnel_real env otp c = fetch_failed env otp c3 (ErrCode ConnectVPN n msg)"
    using assms by (simp add: build_tunnel_real_def)
  then have "bg_client (build_tunnel_real env otp c) = c3" by (simp add: fetch_failed_def build_failed_def is_logged_out_def)
  then have "cl_conf c3 = cl_conf c" using build_real_conf [of env otp c] by simp
  moreover have "api_text env (ErrCode ConnectVPN n msg) = fetch_code_text n msg"
    by (simp add: api_text_def client_err_text_def code_text_def)
  ultimately show ?thesis unfolding b
    by (simp add: fetch_failed_def build_failed_def is_logged_out_def has_otp_secret_def otp_rejection)
qed

section \<open>The protocol of a connection\<close>

text \<open>The requests of \<open>buildTunnel\<close>, with what the node and the device got.\<close>

lemma build_protocol:
  assumes "bg_result (build_tunnel_real env otp c) = Inr (dev, conf, node)"
  defines "c3 \<equiv> bg_client (build_tunnel_real env otp c)"
  shows "\<exists>info code first pings key.
    sends c (first # pings @ [key]) c3 \<and>
    rq_api first = ListVPN \<and> rq_url first = render_url ListVPN (server (cl_conf c)) \<and> all_to {PingVPN} pings \<and>
    node_base (server (cl_conf c)) (vi_ip node) (vi_api_port node) = Some (cl_base c3) \<and>
    vi_protocol_mode node \<in> {1, 2} \<and>
    rq_api key = ConnectVPN \<and> rq_url key = render_url ConnectVPN (cl_base c3) \<and>
    rq_body key = Some (JObj [(''public_key'', JStr (public_key (cl_conf c))), (''otp'', JStr code)]) \<and>
    (otp \<noteq> [] \<longrightarrow> code = otp) \<and>
    build_wg_conf (cl_conf c) node info = Some (Inr conf)"
proof -
  let ?e = "te_client env"
  obtain c1 c2 vpns info where st: "list_vpn ?e c = (c1, Inr vpns)" "select_vpn ?e vpns c1 = (c2, Inr node)"
    "fetch_peer_info ?e otp c2 = (c3, Inr info)" "build_wg_conf (cl_conf c) node info = Some (Inr conf)"
    using build_real_Inr [OF assms(1)] by (auto simp: c3_def build_real_conf)
  obtain first where f: "sends c [first] c1" "rq_api first = ListVPN"
      "rq_url first = render_url ListVPN (server (cl_conf c))" "vi_protocol_mode node \<in> {1, 2}"
    using list_answered [OF st(1)] select_answered [OF st(2)] by auto
  obtain pings where p: "sends c1 pings c2" "all_to {PingVPN} pings"
      "node_base (server (cl_conf c)) (vi_ip node) (vi_api_port node) = Some (cl_base c2)"
    using select_answered [OF st(2)] f(1) by (auto simp: sends_def)
  obtain key code where k: "sends c2 [key] c3" "rq_api key = ConnectVPN"
      "rq_url key = render_url ConnectVPN (cl_base c2)" "cl_base c3 = cl_base c2"
      "rq_body key = Some (JObj [(''public_key'', JStr (public_key (cl_conf c))), (''otp'', JStr code)])"
      "otp \<noteq> [] \<longrightarrow> code = otp"
    using fetch_answered [OF st(3)] f(1) p(1) by (auto simp: sends_def)
  have "sends c (first # pings @ [key]) c3" using sends_trans [OF sends_trans [OF f(1) p(1)] k(1)] by simp
  then show ?thesis using f p k st(4) by metis
qed

text \<open>The device of \<open>buildTunnel\<close>, and the listener and the report of \<open>connectReal\<close>.\<close>

lemma build_calls:
  assumes "bg_result (build_tunnel_real env otp c) = Inr (dev, conf, node)"
  shows "\<exists>uapi. build_uapi (se_lookup (te_start env)) conf = Inr uapi \<and>
    IpcSet uapi \<in> set (bg_calls (build_tunnel_real env otp c)) \<and>
    \<not> list_ex is_close (bg_calls (build_tunnel_real env otp c))"
proof -
  have "start_netstack_with_proxy (te_start env) conf (upstream_parsed (cl_conf c)) =
      (bg_calls (build_tunnel_real env otp c), Inr dev)"
    using build_real_Inr [OF assms] by (auto simp: build_real_conf)
  then show ?thesis
    using start_cleans_up [where env = "te_start env" and conf = conf and p = "upstream_parsed (cl_conf c)"]
    by (auto simp: is_close_def)
qed

lemma listening_addr: "listen_and_serve f a l = (None, l') \<Longrightarrow> f a = Inr (listener_addr l')"
  by (auto simp: listen_and_serve_def listener_addr_def split: sum.splits)

lemma connect_report:
  assumes "bg_result (connect_real env otp c) = Inr cn"
  shows "\<exists>reports. sends (bg_client (build_tunnel_real env otp c)) reports (bg_client (connect_real env otp c)) \<and>
    length reports \<le> 1 \<and>
    (\<forall>r \<in> set reports. rq_api r = KeepAliveVPN \<and>
       rq_url r = render_url KeepAliveVPN (cl_base (bg_client (build_tunnel_real env otp c))) \<and>
       rq_body r = Some (report_body c (wc_address (cn_conf cn))
         (route_mode_report (route_mode_or_default (cl_conf c))) ''100''))"
  using connect_real_Inr [OF assms] report_sends [of "bg_client (build_tunnel_real env otp c)" "te_client env"
      "wc_address (cn_conf cn)" "route_mode_report (route_mode_or_default (cl_conf c))"]
  by (auto simp: report_body_def build_real_conf)


text \<open>An API that answers, with one node, which is pinned.\<close>

definition api_env :: client_env where
  "api_env = demo_env\<lparr>env_server := \<lambda>n r. Reply 200 None
     (Doc (JObj [(''code'', JNum 0), (''data'',
       case rq_api r of
         ListVPN \<Rightarrow> JArr [JObj [(''id'', JNum 7), (''ip'', JStr ''n7''), (''api_port'', JNum 443),
           (''vpn_port'', JNum 51820), (''protocol_mode'', JNum 1), (''en_name'', JStr ''north'')]]
       | ConnectVPN \<Rightarrow> JObj [(''ip'', JStr ''10.1.2.3''), (''ip_mask'', JStr ''24''), (''public_key'', JStr ''//8=''),
           (''setting'', JObj [(''vpn_route_full'', JArr [JStr ''10.9.8.0/24''])])]
       | _ \<Rightarrow> JNull)])) []\<rparr>"

definition quiet_net :: "(string \<Rightarrow> unit + string) \<Rightarrow> unit tunnel_env" where
  "quiet_net listen = \<lparr>te_client = api_env,
     te_start = \<lparr>se_lookup = (\<lambda>h. [V4 1]), se_create = (\<lambda>a d m. None), se_up = None, se_ipc = (\<lambda>u. None)\<rparr>,
     te_probe = (\<lambda>a. None), te_listen = listen, te_cause = (\<lambda>e. ''eof''), te_conf_text = (\<lambda>e. ''conf''),
     te_start_text = (\<lambda>e. ''start'')\<rparr>"

definition api_client :: client where
  "api_client = demo_client\<lparr>cl_conf := (cl_conf demo_client)\<lparr>private_key := ''AAEC'', public_key := ''BBBB'',
     socks_listen := ''127.0.0.1:1080'', proxy_auth_enabled := True, proxy_username := ''u'', proxy_password := ''p''\<rparr>\<rparr>"

lemma api_builds: "\<exists>x. bg_result (build_tunnel_real (quiet_net listen) [] api_client) = Inr x"
proof -
  have "bg_result (build_tunnel_real (quiet_net listen) [] api_client) =
      bg_result (build_tunnel_real (quiet_net Inr) [] api_client)"
    by (simp add: build_tunnel_real_def quiet_net_def fetch_failed_def build_failed_def api_text_def
        split: prod.split sum.split option.split)
  moreover have "(case bg_result (build_tunnel_real (quiet_net Inr) [] api_client) of Inl _ \<Rightarrow> False | Inr _ \<Rightarrow> True)" by code_simp
  ultimately show ?thesis by (auto split: sum.splits)
qed

lemma quiet_net_listen [simp]: "te_listen (quiet_net listen) = listen"
  by (simp add: quiet_net_def)

lemma api_connects: "\<exists>cn. bg_result (connect_real (quiet_net Inr) [] api_client) = Inr cn"
  using api_builds [of Inr] by (auto simp: connect_real_def Let_def listen_and_serve_def)

lemma api_refused: "bg_result (connect_real (quiet_net (\<lambda>a. Inl ())) [] api_client) = Inl (ListenErr ())"
  using api_builds [of "\<lambda>a. Inl ()"] by (auto simp: connect_real_def Let_def listen_and_serve_def build_failed_def)


section \<open>A connection that fails\<close>

text \<open>What is left to close when an attempt fails: what the start of the device closes itself, or the device.\<close>

definition connect_to_close :: "'e connect_err \<Rightarrow> start_call list" where
  "connect_to_close e =
     (case e of BuildErr (StartFailed s) \<Rightarrow> to_close s | BuildErr _ \<Rightarrow> [] | ListenErr _ \<Rightarrow> [CloseDevice])"

lemma start_fails_closed:
  assumes "start_netstack_with_proxy env conf p = (cs, Inl e)"
  shows "cs = filter (\<lambda>x. \<not> is_close x) cs @ to_close e" and "NewDevice b \<in> set cs \<Longrightarrow> to_close e = [CloseDevice]"
  using assms
  by (auto simp: start_netstack_with_proxy_def Let_def is_close_def to_close_def split: sum.splits option.splits)

text \<open>Choosing a node never finds the session logged out, whatever its probes meet.\<close>

lemma select_not_logged_out: "select_vpn env vpns c = (c', Inl e) \<Longrightarrow> \<not> is_logged_out e"
proof -
  have "\<not> is_logged_out e" if "activate_and_return v x = (y, Inl e)" for v x y e
    using that by (auto simp: activate_and_return_def activate_node_def set_vpn_base_def bind_cl_def is_logged_out_def
        split: option.splits)
  then show "select_vpn env vpns c = (c', Inl e) \<Longrightarrow> \<not> is_logged_out e"
    by (auto simp: select_vpn_def Let_def is_logged_out_def split: if_splits option.splits prod.splits)
qed

lemma wg_conf_no_panic: "build_wg_conf conf node info = None \<Longrightarrow> False"
proof (cases "atoi (wi_ip_mask info)")
  case (Some msk)
  then show "build_wg_conf conf node info = None \<Longrightarrow> False"
    using build_wg_conf_total [OF Some, of conf node] by (fastforce simp: build_wg_conf_def Let_def)
qed (simp add: build_wg_conf_def)

definition logout_message :: "'e tunnel_env \<Rightarrow> 'e tunnel_err \<Rightarrow> string option" where
  "logout_message env e = (case e of ApiFailed x \<Rightarrow> if is_logged_out x then Some (api_text env x) else None | _ \<Rightarrow> None)"

lemma build_real_Inl:
  assumes "bg_result (build_tunnel_real env otp c) = Inl e"
  defines "b \<equiv> build_tunnel_real env otp c"
  shows "bg_logged_out b = logout_message env e \<and> e \<noteq> ConfPanic \<and>
    bg_calls b = filter (\<lambda>x. \<not> is_close x) (bg_calls b) @ connect_to_close (BuildErr e) \<and>
    (\<forall>d. NewDevice d \<in> set (bg_calls b) \<longrightarrow> connect_to_close (BuildErr e) = [CloseDevice])"
  using assms(1)
  by (auto simp: b_def build_tunnel_real_def build_failed_def fetch_failed_def logout_message_def connect_to_close_def
      dest: start_fails_closed select_not_logged_out wg_conf_no_panic split: prod.splits sum.splits option.splits if_splits)

text \<open>C12: A \<open>connectReal\<close> that fails leaves nothing behind, wherever it fails - in the API, the choice of a
  node, the configuration, any stage of starting the device, or the listener: what it made is closed, once and last,
  and a WireGuard device that was made always is; it has sent only what building needs, so the node has
  got no report of the tunnel; and the manager was set to logged out exactly when the error
  is a logout, with that error. \<open>BuildWgConf\<close> never panics on the way.\<close>

theorem connect_fails_clean:
  assumes "bg_result (connect_real env otp c) = Inl e"
  defines "r \<equiv> connect_real env otp c"
  shows "bg_calls r = filter (\<lambda>x. \<not> is_close x) (bg_calls r) @ connect_to_close e \<and>
    (\<forall>d. NewDevice d \<in> set (bg_calls r) \<longrightarrow> connect_to_close e = [CloseDevice]) \<and>
    sends_to {ListVPN, PingVPN, ConnectVPN} c (bg_client r) \<and>
    bg_logged_out r = (case e of BuildErr x \<Rightarrow> logout_message env x | ListenErr _ \<Rightarrow> None) \<and> e \<noteq> BuildErr ConfPanic"
proof (cases "bg_result (build_tunnel_real env otp c)")
  case (Inl x)
  then have "e = BuildErr x" and "r = build_failed (bg_client (build_tunnel_real env otp c))
      (bg_logged_out (build_tunnel_real env otp c)) (bg_calls (build_tunnel_real env otp c)) (BuildErr x)"
    using assms(1) by (auto simp: r_def connect_real_def build_failed_def Let_def)
  then show ?thesis using build_real_Inl [OF Inl] build_real_sends [of c env otp] by (auto simp: build_failed_def)
next
  case (Inr x)
  obtain dev conf node where x: "x = (dev, conf, node)" by (cases x)
  obtain y where e: "e = ListenErr y" and r: "r = build_failed (bg_client (build_tunnel_real env otp c))
      (bg_logged_out (build_tunnel_real env otp c)) (bg_calls (build_tunnel_real env otp c) @ [CloseDevice]) e"
    using assms(1) Inr x
    by (auto simp: r_def connect_real_def build_failed_def Let_def split: prod.splits option.splits)
  have "filter (\<lambda>x. \<not> is_close x) (bg_calls (build_tunnel_real env otp c)) = bg_calls (build_tunnel_real env otp c)"
    using build_calls [OF Inr [unfolded x]] by (auto simp: list_ex_iff filter_id_conv)
  moreover have "bg_logged_out (build_tunnel_real env otp c) = None" using build_real_Inr [OF Inr [unfolded x]] by blast
  ultimately show ?thesis
    using build_real_sends [of c env otp] by (simp add: r e build_failed_def connect_to_close_def is_close_def)
qed

text \<open>The listen address is in use: the device that was built is closed, and no report was sent.\<close>

theorem connect_fails_clean_witness:
  "\<exists>cs r. r = connect_real (quiet_net (\<lambda>a. Inl ())) [] api_client \<and> bg_calls r = cs @ [CloseDevice] \<and>
     \<not> list_ex is_close cs \<and> sends_to {ListVPN, PingVPN, ConnectVPN} api_client (bg_client r)"
proof -
  let ?r = "connect_real (quiet_net (\<lambda>a. Inl ())) [] api_client"
  have "\<not> list_ex is_close (filter (\<lambda>x. \<not> is_close x) (bg_calls ?r))" by (auto simp: list_ex_iff)
  then show ?thesis using connect_fails_clean [OF api_refused] by (auto simp: connect_to_close_def)
qed

section \<open>The tasks of the manager\<close>

text \<open>A goroutine run on its own, one choice per step.\<close>

fun run_alone :: "choice list \<Rightarrow> task list \<times> world \<Rightarrow> task list \<times> world" where
  "run_alone [] s = s"
| "run_alone (ch # chs) ([], w) = ([], w)"
| "run_alone (ch # chs) (t # ts, w) = (case run_task ch t w of (ts', w') \<Rightarrow> run_alone chs (ts' @ ts, w'))"

text \<open>The error that \<open>connectReal\<close> returns: whether it is a logout, and its text.\<close>

definition connect_fatal :: "'e connect_err \<Rightarrow> bool" where
  "connect_fatal e = (case e of BuildErr (ApiFailed x) \<Rightarrow> is_logged_out x | _ \<Rightarrow> False)"

definition connect_err_text :: "'e tunnel_env \<Rightarrow> ('e \<Rightarrow> string) \<Rightarrow> 'e connect_err \<Rightarrow> string" where
  "connect_err_text env listen_text e = (case e of BuildErr x \<Rightarrow> tunnel_err_text env x | ListenErr x \<Rightarrow> listen_text x)"

definition marked_logged_out :: "string option \<Rightarrow> world \<Rightarrow> world" where
  "marked_logged_out lo w = (case lo of None \<Rightarrow> w | Some msg \<Rightarrow> set_state LoggedOut msg w)"

definition tunnel_in :: "world \<Rightarrow> wg_conf \<Rightarrow> vpn_info \<Rightarrow> tunnel" where
  "tunnel_in w conf node = \<lparr>tn_dev = wd_next w, tn_addr = wc_address conf, tn_node = vi_id node, tn_name = vi_en_name node\<rparr>"

definition started_world :: "world \<Rightarrow> world" where
  "started_world w = w\<lparr>wd_open := wd_next w # wd_open w, wd_next := wd_next w + 1\<rparr>"

lemma build_simulated:
  "\<exists>ch. run_task ch (Build j) w =
     (case bg_result (build_tunnel_real env (job_otp j) c) of
        Inr (dev, conf, node) \<Rightarrow> ([Listen j (tunnel_in w conf node)], started_world w)
      | Inl e \<Rightarrow> ([Failed j (connect_fatal (BuildErr e)) (tunnel_err_text env e)], marked_logged_out (logout_message env e) w))"
proof (cases "bg_result (build_tunnel_real env (job_otp j) c)")
  case (Inr x)
  obtain dev conf node where x: "x = (dev, conf, node)" by (cases x)
  show ?thesis
    by (rule exI [of _ "sample_choice\<lparr>ch_addr := wc_address conf, ch_node := vi_id node, ch_name := vi_en_name node\<rparr>"])
      (simp add: run_task_def build_tunnel_def Inr x tunnel_in_def started_world_def sample_choice_def)
next
  case (Inl e)
  note defs = run_task_def build_tunnel_def build_error_def sample_choice_def tunnel_err_text_def connect_fatal_def
    logout_message_def marked_logged_out_def Inl
  show ?thesis
  proof (cases "e = NeedOTP")
    case True
    then obtain x where "job_otp j = []" "looks_like_otp_error (api_text env x)"
      using Inl by (auto simp: build_tunnel_real_def build_failed_def fetch_failed_def
          split: prod.splits sum.splits option.splits if_splits)
    then show ?thesis
      by (intro exI [of _ "sample_choice\<lparr>ch_ok := False, ch_err := api_text env x, ch_fetching := True\<rparr>"])
        (use Inl in \<open>simp add: defs True\<close>)
  next
    case False
    then show ?thesis
      by (intro exI [of _ "sample_choice\<lparr>ch_ok := False, ch_err := tunnel_err_text env e,
            ch_logged_out := connect_fatal (BuildErr e)\<rparr>"])
        (auto simp: defs split: tunnel_err.split)
  qed
qed

text \<open>The manager after a connection that came up at time \<open>now\<close>, with the loops it starts.\<close>

definition connected_world :: "instant \<Rightarrow> connection \<Rightarrow> world \<Rightarrow> task list \<times> world" where
  "connected_world now cn w =
     (let n = wd_next w; m = wd_mgr w in
      ([Sampler (n + 2), Reporter (n + 2), WatchLoop (n + 2), RefreshLoop (n + 2)],
       w\<lparr>wd_next := n + 3, wd_open := n # wd_open w,
         wd_proxies := (n + 1, \<lparr>ls_addr = wd_listen w, ls_tunnel = n\<rparr>) # wd_proxies w, wd_live := (n + 2) # wd_live w,
         wd_reports := wd_reports w @ [(wc_address (cn_conf cn), False)],
         wd_mgr := m\<lparr>mg_device := Some n, mg_proxy := Some (n + 1), mg_since := Some now, mg_cur_id := vi_id (cn_node cn),
           mg_cur_name := vi_en_name (cn_node cn), mg_cur_addr := wc_address (cn_conf cn),
           mg_stats := reset_tunnel_stats now (mg_stats m), mg_state := Connected, mg_err := [], mg_loops := Some (n + 2)\<rparr>\<rparr>))"

definition failed_world :: "'e tunnel_env \<Rightarrow> 'e connect_err \<Rightarrow> world \<Rightarrow> world" where
  "failed_world env e w =
     (case e of BuildErr x \<Rightarrow> marked_logged_out (logout_message env x) w
      | ListenErr _ \<Rightarrow> w\<lparr>wd_next := wd_next w + 1\<rparr>)"

lemma run_task_steps: "run_task ch (Listen j t) w = listen_step ch j t w" "run_task ch (Commit j t p) w = commit_step ch t p w"
  by (simp_all add: run_task_def)



section \<open>The credentials of the proxy\<close>

text \<open>A client of the proxy of a connection: the first byte decides who handles it. What \<open>http.ReadRequest\<close> makes
  of the bytes is an argument.\<close>

definition proxy_serves ::
  "connection \<Rightarrow> (string \<Rightarrow> string \<Rightarrow> 'e + 'c) \<Rightarrow> fwd_env \<Rightarrow> (bytes \<Rightarrow> arrival list) \<Rightarrow> fwd_world \<Rightarrow> bytes \<Rightarrow>
     (bytes \<times> ('c \<times> bytes) option + fwd_world) option" where
  "proxy_serves cn dial env read w =
     handle_client (\<lambda>s. Inl (handle_socks5 (cn_auth cn) dial s)) (\<lambda>s. Inr (handle_http env (cn_auth cn) (read s) w))"

text \<open>What a client that does not present the credentials sends: no start of a SOCKS5 session with them, and
  no first HTTP request with them.\<close>

definition without_credentials :: "proxy_auth \<Rightarrow> arrival list \<Rightarrow> bytes \<Rightarrow> bool" where
  "without_credentials a reqs s =
     (\<not> presents a s \<and>
      (case reqs of [] \<Rightarrow> True
       | (req, _) # _ \<Rightarrow> \<forall>c. header_get (hr_header req) ''Proxy-Authorization'' = ''Basic '' @ c \<longrightarrow>
           b64_decode c \<noteq> Some (au_user a @ '':'' @ au_pass a)))"

lemma http_refused:
  assumes "required (Some a)" and "without_credentials a reqs s"
  shows "\<exists>n k. handle_http env (Some a) reqs w = w\<lparr>fw_out := fw_out w @ take n auth_required, fw_writes := k\<rparr>"
proof (cases reqs)
  case Nil
  have "w = w\<lparr>fw_out := fw_out w @ take 0 auth_required, fw_writes := fw_writes w\<rparr>" by simp
  then show ?thesis unfolding Nil handle_http.simps by blast
next
  case (Cons x rest)
  obtain req evs where x: "x = (req, evs)" by (cases x)
  then have "\<not> check_http_auth a req" using check_http_auth_presents assms(2) Cons by (auto simp: without_credentials_def)
  then have h: "handle_http env (Some a) reqs w = snd (write_client env auth_required w)" using assms(1) by (simp add: Cons x)
  show ?thesis
  proof (cases "fe_write env (fw_writes w)")
    case None
    then show ?thesis unfolding h write_client_def
      by (intro exI [of _ "length auth_required"] exI [of _ "Suc (fw_writes w)"]) simp
  next
    case (Some n)
    then show ?thesis unfolding h write_client_def by (intro exI [of _ n] exI [of _ "Suc (fw_writes w)"]) simp
  qed
qed



end
